(* ===== verification/Prelude.thy ===== *)
theory Prelude
  imports Main "HOL-Library.Word"
begin

text \<open>
  Shared vocabulary of the development: Python's exceptions as values, byte strings, the
  \<^verbatim>\<open>struct\<close> codes the tools use, the textual rendering of integers, and the list lemmas
  every component needs.  Collections: \<open>res_simps\<close> (unfolding the result monad),
  \<open>codec_simps\<close> (byte codes), \<open>io_simps\<close> (operating-system effects).
\<close>

named_theorems res_simps "unfolding the result monad"
named_theorems codec_simps "byte codes and their inverses"
named_theorems io_simps "unfolding operating-system effects"

section \<open>Exceptions as values\<close>

text \<open>
  Every \<^verbatim>\<open>raise\<close> of the modelled code, and every exception of the Python library calls it
  relies on, is a constructor.  The messages are the ones the code formats.
\<close>

datatype py_error =
    ValueError string
  | RuntimeError string
  | SystemExit string
  | IndexError string
  | TimeoutError string
  | ArgumentTypeError string
  | OverflowError
  | ZeroDivisionError
  | StructError
  | OSError
  | FileNotFoundError string
  | CalledProcessError int

type_synonym 'a res = "py_error + 'a"

definition bind_res :: "'a res \<Rightarrow> ('a \<Rightarrow> 'b res) \<Rightarrow> 'b res" where
  "bind_res m f = (case m of Inl e \<Rightarrow> Inl e | Inr x \<Rightarrow> f x)"

definition check :: "bool \<Rightarrow> py_error \<Rightarrow> unit res" where
  "check ok e = (if ok then Inr () else Inl e)"

lemma bind_res_simps [simp]:
  "bind_res (Inl e) f = Inl e"
  "bind_res (Inr x) f = f x"
  by (simp_all add: bind_res_def)

lemma check_simps [simp]:
  "check True e = Inr ()"
  "check False e = Inl e"
  by (simp_all add: check_def)

lemma bind_res_eq_Inr [res_simps]:
  "bind_res m f = Inr y \<longleftrightarrow> (\<exists>x. m = Inr x \<and> f x = Inr y)"
  by (cases m) auto

lemma bind_res_eq_Inl [res_simps]:
  "bind_res m f = Inl e \<longleftrightarrow> m = Inl e \<or> (\<exists>x. m = Inr x \<and> f x = Inl e)"
  by (cases m) auto

lemma check_eq_Inr [res_simps]: "check ok e = Inr u \<longleftrightarrow> ok"
  by (simp add: check_def)

lemma check_eq_Inl [res_simps]: "check ok e = Inl e' \<longleftrightarrow> \<not> ok \<and> e' = e"
  by (auto simp: check_def)

lemma bind_res_assoc: "bind_res (bind_res m f) g = bind_res m (\<lambda>x. bind_res (f x) g)"
  by (cases m) simp_all

text \<open>A \<^verbatim>\<open>for\<close> loop whose body may raise: the first exception ends it.\<close>

fun fold_res :: "('a \<Rightarrow> 's \<Rightarrow> 's res) \<Rightarrow> 'a list \<Rightarrow> 's \<Rightarrow> 's res" where
  "fold_res f [] s = Inr s"
| "fold_res f (x # xs) s = bind_res (f x s) (fold_res f xs)"

lemma bind_res_Inr_right [simp]: "bind_res m (\<lambda>x. Inr x) = m"
  by (cases m) simp_all

lemma fold_res_single [simp]: "fold_res f [x] s = f x s"
  by (cases "f x s") simp_all

lemma fold_res_append:
  "fold_res f (xs @ ys) s = bind_res (fold_res f xs s) (fold_res f ys)"
proof (induction xs arbitrary: s)
  case Nil
  then show ?case by simp
next
  case (Cons x xs)
  then show ?case by (cases "f x s") simp_all
qed

lemma fold_res_cong:
  "(\<And>x s. x \<in> set xs \<Longrightarrow> f x s = g x s) \<Longrightarrow> fold_res f xs s = fold_res g xs s"
proof (induction xs arbitrary: s)
  case Nil
  then show ?case by simp
next
  case (Cons x xs)
  then have "fold_res f xs = fold_res g xs" by (intro ext) simp
  with Cons.prems show ?case by simp
qed

lemma fold_res_invariant:
  assumes "fold_res f xs s = Inr t" and "P s"
    and "\<And>x s t. x \<in> set xs \<Longrightarrow> P s \<Longrightarrow> f x s = Inr t \<Longrightarrow> P t"
  shows "P t"
  using assms
proof (induction xs arbitrary: s)
  case Nil
  then show ?case by simp
next
  case (Cons x xs)
  then obtain s' where s': "f x s = Inr s'" "fold_res f xs s' = Inr t"
    by (auto simp: res_simps)
  have "P s'" using Cons.prems(2,3) s'(1) by (meson list.set_intros(1))
  then show ?case using Cons.IH [OF s'(2)] Cons.prems(3) by (meson list.set_intros(2))
qed

section \<open>Byte strings\<close>

type_synonym byte = "8 word"
type_synonym bytes = "byte list"

text \<open>\<^verbatim>\<open>bytes(n)\<close> for a count, and \<^verbatim>\<open>x & 0xFF\<close> as a byte.\<close>

definition zeros :: "int \<Rightarrow> bytes res" where
  "zeros n = (if n < 0 then Inl (ValueError ''negative count'') else Inr (replicate (nat n) 0))"

definition byte_of :: "int \<Rightarrow> byte" where
  "byte_of x = word_of_int x"

lemma zeros_nonneg [simp]: "0 \<le> n \<Longrightarrow> zeros n = Inr (replicate (nat n) 0)"
  by (simp add: zeros_def)

text \<open>Little- and big-endian unsigned integers of a fixed number of bytes.\<close>

fun le_bytes :: "nat \<Rightarrow> int \<Rightarrow> bytes" where
  "le_bytes 0 v = []"
| "le_bytes (Suc n) v = word_of_int v # le_bytes n (v div 256)"

fun le_int :: "bytes \<Rightarrow> int" where
  "le_int [] = 0"
| "le_int (b # bs) = uint b + 256 * le_int bs"

definition be_bytes :: "nat \<Rightarrow> int \<Rightarrow> bytes" where
  "be_bytes n v = rev (le_bytes n v)"

definition be_int :: "bytes \<Rightarrow> int" where
  "be_int bs = le_int (rev bs)"

lemma length_le_bytes [simp]: "length (le_bytes n v) = n"
  by (induction n arbitrary: v) auto

lemma length_be_bytes [simp]: "length (be_bytes n v) = n"
  by (simp add: be_bytes_def)

lemma le_int_le_bytes_mod: "le_int (le_bytes n v) = v mod 256 ^ n"
proof (induction n arbitrary: v)
  case 0
  then show ?case by simp
next
  case (Suc n)
  have "uint (word_of_int v :: byte) = v mod 256"
    by (simp add: uint_word_of_int)
  then show ?case
    by (simp add: Suc zmod_zmult2_eq)
qed

lemma le_int_le_bytes [codec_simps]:
  "0 \<le> v \<Longrightarrow> v < 256 ^ n \<Longrightarrow> le_int (le_bytes n v) = v"
  by (simp add: le_int_le_bytes_mod)

lemma be_int_be_bytes [codec_simps]:
  "0 \<le> v \<Longrightarrow> v < 256 ^ n \<Longrightarrow> be_int (be_bytes n v) = v"
  by (simp add: be_int_def be_bytes_def codec_simps)

lemma uint_byte_bounds: "0 \<le> uint (b :: byte)" "uint (b :: byte) < 256"
  using uint_bounded [of b] by simp_all

lemma le_int_nonneg [simp]: "0 \<le> le_int bs"
  by (induction bs) auto

lemma le_int_bound: "le_int bs < 256 ^ length bs"
proof (induction bs)
  case Nil
  then show ?case by simp
next
  case (Cons b bs)
  have "uint b < 256" by (rule uint_byte_bounds)
  moreover have "le_int bs + 1 \<le> 256 ^ length bs" using Cons by simp
  ultimately show ?case by simp
qed

lemma byte_256_mult [simp]: "(256 :: byte) * x = 0"
proof -
  have "(256 :: byte) = 0" by simp
  then show ?thesis by (simp only: mult_zero_left)
qed

lemma le_bytes_le_int [codec_simps]: "le_bytes (length bs) (le_int bs) = bs"
proof (induction bs)
  case Nil
  then show ?case by simp
next
  case (Cons b bs)
  have "(uint b + 256 * le_int bs) div 256 = le_int bs"
    using uint_byte_bounds [of b] by simp
  moreover have "(word_of_int (uint b + 256 * le_int bs) :: byte) = b"
    by simp
  ultimately show ?case using Cons by simp
qed

section \<open>The struct codes\<close>

text \<open>
  \<^verbatim>\<open>struct.pack\<close> of one unsigned field of \<open>w\<close> bytes: a value that does not fit raises
  \<^verbatim>\<open>struct.error\<close>.  The codes are \<^verbatim>\<open>B\<close> (1 byte), \<^verbatim>\<open>H\<close> (2), \<^verbatim>\<open>I\<close> (4) and \<^verbatim>\<open>Q\<close> (8).
\<close>

definition pack_le :: "nat \<Rightarrow> int \<Rightarrow> bytes res" where
  "pack_le w v = (if 0 \<le> v \<and> v < 256 ^ w then Inr (le_bytes w v) else Inl StructError)"

definition pack_be :: "nat \<Rightarrow> int \<Rightarrow> bytes res" where
  "pack_be w v = (if 0 \<le> v \<and> v < 256 ^ w then Inr (be_bytes w v) else Inl StructError)"

text \<open>A format string of several fields, all of one byte order.\<close>

fun pack_fields :: "(nat \<Rightarrow> int \<Rightarrow> bytes res) \<Rightarrow> (nat \<times> int) list \<Rightarrow> bytes res" where
  "pack_fields p [] = Inr []"
| "pack_fields p ((w, v) # fs) =
     bind_res (p w v) (\<lambda>b. bind_res (pack_fields p fs) (\<lambda>bs. Inr (b @ bs)))"

lemma pack_le_Inr [codec_simps]: "0 \<le> v \<Longrightarrow> v < 256 ^ w \<Longrightarrow> pack_le w v = Inr (le_bytes w v)"
  by (simp add: pack_le_def)

lemma pack_be_Inr [codec_simps]: "0 \<le> v \<Longrightarrow> v < 256 ^ w \<Longrightarrow> pack_be w v = Inr (be_bytes w v)"
  by (simp add: pack_be_def)

lemma pack_le_eq_Inr:
  "pack_le w v = Inr bs \<longleftrightarrow> 0 \<le> v \<and> v < 256 ^ w \<and> bs = le_bytes w v"
  by (auto simp: pack_le_def)

lemma pack_le_eq_Inl: "pack_le w v = Inl e \<longleftrightarrow> (v < 0 \<or> 256 ^ w \<le> v) \<and> e = StructError"
  by (auto simp: pack_le_def not_less not_le)

text \<open>\<^verbatim>\<open>bs[a:b]\<close> for \<open>0 \<le> a\<close>: a shorter result when the bytes end early, never an error.\<close>

definition pyslice :: "nat \<Rightarrow> nat \<Rightarrow> 'a list \<Rightarrow> 'a list" where
  "pyslice a b xs = take (b - a) (drop a xs)"

text \<open>\<^verbatim>\<open>xs[:n]\<close> for any \<open>n\<close>: a negative bound counts from the end.\<close>

definition py_prefix :: "int \<Rightarrow> 'a list \<Rightarrow> 'a list" where
  "py_prefix n xs = (if n < 0 then take (length xs - nat (- n)) xs else take (nat n) xs)"

lemma py_prefix_nonneg [simp]: "0 \<le> n \<Longrightarrow> py_prefix n xs = take (nat n) xs"
  by (simp add: py_prefix_def)

lemma length_pyslice [simp]: "length (pyslice a b xs) = min (b - a) (length xs - a)"
  by (simp add: pyslice_def min.commute)

lemma pyslice_append1: "b \<le> length xs \<Longrightarrow> pyslice a b (xs @ ys) = pyslice a b xs"
  by (cases "a \<le> length xs") (auto simp: pyslice_def)

lemma pyslice_append2:
  "length xs \<le> a \<Longrightarrow> pyslice a b (xs @ ys) = pyslice (a - length xs) (b - length xs) ys"
  by (auto simp: pyslice_def)

lemma pyslice_0: "pyslice 0 b xs = take b xs"
  by (simp add: pyslice_def)

lemma pyslice_all: "length xs \<le> b \<Longrightarrow> pyslice 0 b xs = xs"
  by (simp add: pyslice_def)

lemma pyslice_add: "pyslice (a + c) (a + d) xs = pyslice c d (drop a xs)"
  by (simp add: pyslice_def add.commute)

text \<open>Fixed-size pieces of a concatenation are found at multiples of the size.\<close>

lemma pyslice_concat_uniform:
  assumes "\<And>x. x \<in> set xss \<Longrightarrow> length x = w" and "i < length xss"
  shows "pyslice (i * w) (i * w + w) (concat xss) = xss ! i"
  using assms
proof (induction xss arbitrary: i)
  case Nil
  then show ?case by simp
next
  case (Cons x xss)
  have x: "length x = w" using Cons.prems(1) by simp
  show ?case
  proof (cases i)
    case 0
    with x show ?thesis by (simp add: pyslice_def)
  next
    case (Suc j)
    have "pyslice (j * w) (j * w + w) (concat xss) = xss ! j"
      using Cons Suc by simp
    with Suc x show ?thesis by (simp add: pyslice_append2 add.commute)
  qed
qed

lemma length_concat_uniform:
  assumes "\<And>x. x \<in> set xss \<Longrightarrow> length x = w"
  shows "length (concat xss) = length xss * w"
  using assms by (induction xss) auto

section \<open>Fixed-width codes\<close>

text \<open>
  The interface every table of fixed-size records shares: descriptor files, capture headers,
  register words.  A reader that walks such a table by index gets the encoded values back.
\<close>

locale fixed_codec =
  fixes width :: nat
    and enc :: "'a \<Rightarrow> bytes"
    and dec :: "bytes \<Rightarrow> 'a"
    and valid :: "'a \<Rightarrow> bool"
  assumes length_enc: "valid x \<Longrightarrow> length (enc x) = width"
    and dec_enc: "valid x \<Longrightarrow> dec (enc x) = x"
begin

lemma enc_inject: "valid x \<Longrightarrow> valid y \<Longrightarrow> enc x = enc y \<Longrightarrow> x = y"
  using dec_enc by metis

lemma length_table: "\<forall>x \<in> set xs. valid x \<Longrightarrow> length (concat (map enc xs)) = length xs * width"
  using length_concat_uniform [of "map enc xs" width] length_enc by auto

lemma dec_table_nth:
  assumes "\<forall>x \<in> set xs. valid x" and "i < length xs"
  shows "dec (pyslice (i * width) (i * width + width) (concat (map enc xs))) = xs ! i"
proof -
  have "pyslice (i * width) (i * width + width) (concat (map enc xs)) = map enc xs ! i"
    by (rule pyslice_concat_uniform) (use assms length_enc in auto)
  with assms show ?thesis by (simp add: dec_enc)
qed

lemma dec_table:
  assumes "\<forall>x \<in> set xs. valid x"
  shows "map (\<lambda>i. dec (pyslice (i * width) (i * width + width) (concat (map enc xs))))
           [0..<length xs] = xs"
  by (rule nth_equalityI) (use assms dec_table_nth in auto)

end

section \<open>Loops over self-delimiting records\<close>

text \<open>
  The interface of a file reader: \<open>read1\<close> takes one record off the front of the remaining bytes
  (\<open>None\<close> at the end of the file), \<open>loop\<close> is the tool's \<^verbatim>\<open>while True\<close> around it.  On a file
  that is a concatenation of encoded records the loop is the fold of its body over the records.
\<close>

locale record_loop =
  fixes enc :: "'r \<Rightarrow> bytes"
    and valid :: "'r \<Rightarrow> bool"
    and read1 :: "bytes \<Rightarrow> ('r \<times> bytes) option res"
    and step :: "'r \<Rightarrow> 's \<Rightarrow> 's res"
    and loop :: "'s \<Rightarrow> bytes \<Rightarrow> 's res"
  assumes read1_Nil: "read1 [] = Inr None"
    and read1_enc: "valid r \<Longrightarrow> read1 (enc r @ rest) = Inr (Some (r, rest))"
    and loop_unfold: "loop s bs =
          (case read1 bs of
             Inl e \<Rightarrow> Inl e
           | Inr None \<Rightarrow> Inr s
           | Inr (Some (r, rest)) \<Rightarrow> bind_res (step r s) (\<lambda>s'. loop s' rest))"
begin

lemma loop_Nil: "loop s [] = Inr s"
  by (simp add: loop_unfold [of s "[]"] read1_Nil)

lemma loop_enc: "valid r \<Longrightarrow> loop s (enc r @ rest) = bind_res (step r s) (\<lambda>s'. loop s' rest)"
  by (simp add: loop_unfold [of s "enc r @ rest"] read1_enc)

lemma loop_records:
  "\<forall>r \<in> set rs. valid r \<Longrightarrow> loop s (concat (map enc rs) @ rest) =
     bind_res (fold_res step rs s) (\<lambda>s'. loop s' rest)"
proof (induction rs arbitrary: s)
  case Nil
  then show ?case by simp
next
  case (Cons r rs)
  then show ?case by (cases "step r s") (simp_all add: loop_enc)
qed

lemma loop_file: "\<forall>r \<in> set rs. valid r \<Longrightarrow> loop s (concat (map enc rs)) = fold_res step rs s"
  using loop_records [of rs s "[]"] by (cases "fold_res step rs s") (simp_all add: loop_Nil)

end

section \<open>Integers as text\<close>

text \<open>
  \<^verbatim>\<open>str(n)\<close>, \<^verbatim>\<open>hex(n)\<close> and the zero-padded hexadecimal of the format strings.
\<close>

definition digit_char :: "nat \<Rightarrow> char" where
  "digit_char d = ''0123456789abcdef'' ! d"

fun show_base :: "nat \<Rightarrow> nat \<Rightarrow> string" where
  "show_base b n = (if b < 2 \<or> n < b then [digit_char n]
     else show_base b (n div b) @ [digit_char (n mod b)])"

declare show_base.simps [simp del]

definition show_int :: "int \<Rightarrow> string" where
  "show_int n = (if n < 0 then ''-'' @ show_base 10 (nat (- n)) else show_base 10 (nat n))"

definition show_hex :: "int \<Rightarrow> string" where
  "show_hex n = (if n < 0 then ''-0x'' @ show_base 16 (nat (- n)) else ''0x'' @ show_base 16 (nat n))"

definition pad_left :: "nat \<Rightarrow> char \<Rightarrow> string \<Rightarrow> string" where
  "pad_left w c s = replicate (w - length s) c @ s"

lemma set_pad_left: "set (pad_left w c s) \<subseteq> insert c (set s)"
  by (auto simp: pad_left_def)

end
