(* ===== verification/TraceFormat.thy ===== *)
theory TraceFormat
  imports Prelude
begin

text \<open>
  The on-disk trace format every tool under software/ shares: \<^verbatim>\<open>desc.bin\<close>, one 64-byte
  descriptor per packet, and \<^verbatim>\<open>data.bin\<close>, the frames padded to 64-byte beats.  The theory holds
  the descriptor code, the inner block of the trace writers (\<open>emit_packet\<close>), the specification of a
  well-formed trace (\<open>enc_descs\<close>, \<open>enc_data\<close>), and the reader's view of it (\<open>trace_packets\<close>).
\<close>

section \<open>Constants and alignment\<close>

abbreviation (input) DESC_BYTES :: nat where "DESC_BYTES \<equiv> 64"
abbreviation (input) DATA_BEAT_BYTES :: int where "DATA_BEAT_BYTES \<equiv> 64"

definition align_up :: "int \<Rightarrow> int \<Rightarrow> int" where
  "align_up value alignment = (value + alignment - 1) div alignment * alignment"

lemma align_up_ge: "0 < a \<Longrightarrow> v \<le> align_up v a"
proof -
  assume a: "0 < a"
  have "(v + a - 1) mod a < a" using a by simp
  moreover have "(v + a - 1) div a * a = (v + a - 1) - (v + a - 1) mod a"
    by (simp add: minus_mod_eq_div_mult)
  ultimately show ?thesis by (simp add: align_up_def)
qed

lemma align_up_less: "0 < a \<Longrightarrow> align_up v a < v + a"
proof -
  assume a: "0 < a"
  have "0 \<le> (v + a - 1) mod a" using a by simp
  moreover have "(v + a - 1) div a * a = (v + a - 1) - (v + a - 1) mod a"
    by (simp add: minus_mod_eq_div_mult)
  ultimately show ?thesis by (simp add: align_up_def)
qed

lemma align_up_dvd [simp]: "a dvd align_up v a"
  by (simp add: align_up_def)

lemma align_up_mod [simp]: "align_up v a mod a = 0"
  by (simp add: align_up_def)

lemma align_up_nonneg [simp]: "0 \<le> v \<Longrightarrow> 0 < a \<Longrightarrow> 0 \<le> align_up v a"
  using align_up_ge [of a v] by linarith

lemma align_up_div_mult: "align_up v a div a * a = align_up v a"
  by (simp add: align_up_def)

lemma align_up_minimal: "0 < a \<Longrightarrow> a dvd m \<Longrightarrow> v \<le> m \<Longrightarrow> align_up v a \<le> m"
proof (rule ccontr)
  assume a: "0 < a" "a dvd m" "v \<le> m" "\<not> align_up v a \<le> m"
  have "a dvd align_up v a - m" using a(2) by (intro dvd_diff) simp_all
  then have "a \<le> align_up v a - m" using a(4) by (intro zdvd_imp_le) simp_all
  with align_up_less [OF a(1), of v] a(3) show False by simp
qed

lemma align_up_64_bound: "v \<le> 65535 \<Longrightarrow> align_up v 64 \<le> 65536"
  by (rule align_up_minimal) simp_all

section \<open>Descriptors\<close>

text \<open>The fields of \<^verbatim>\<open>struct.pack("<QIHH", gap_ticks, data_word_offset, frame_len, flags)\<close>.\<close>

record desc =
  d_gap_ticks :: int
  d_data_word_offset :: int
  d_frame_len :: int
  d_flags :: int

definition pack_QIHH :: "int \<Rightarrow> int \<Rightarrow> int \<Rightarrow> int \<Rightarrow> bytes res" where
  "pack_QIHH gap word_offset frame_len flags =
     pack_fields pack_le [(8, gap), (4, word_offset), (2, frame_len), (2, flags)]"

definition unpack_QIHH :: "bytes \<Rightarrow> desc" where
  "unpack_QIHH bs =
     \<lparr> d_gap_ticks = le_int (pyslice 0 8 bs), d_data_word_offset = le_int (pyslice 8 12 bs),
       d_frame_len = le_int (pyslice 12 14 bs), d_flags = le_int (pyslice 14 16 bs) \<rparr>"

definition desc_valid :: "desc \<Rightarrow> bool" where
  "desc_valid d \<longleftrightarrow> 0 \<le> d_gap_ticks d \<and> d_gap_ticks d < 2 ^ 64
     \<and> 0 \<le> d_data_word_offset d \<and> d_data_word_offset d < 2 ^ 32
     \<and> 0 \<le> d_frame_len d \<and> d_frame_len d < 2 ^ 16
     \<and> 0 \<le> d_flags d \<and> d_flags d < 2 ^ 16"

text \<open>The 64-byte descriptor record: the 16 packed bytes and 48 zero bytes.\<close>

definition enc_desc :: "desc \<Rightarrow> bytes" where
  "enc_desc d = le_bytes 8 (d_gap_ticks d) @ le_bytes 4 (d_data_word_offset d)
     @ le_bytes 2 (d_frame_len d) @ le_bytes 2 (d_flags d) @ replicate 48 0"

lemma length_enc_desc [simp]: "length (enc_desc d) = 64"
  by (simp add: enc_desc_def)

lemma pack_QIHH_eq:
  "pack_QIHH g w f l =
     (if desc_valid \<lparr>d_gap_ticks = g, d_data_word_offset = w, d_frame_len = f, d_flags = l\<rparr>
      then Inr (le_bytes 8 g @ le_bytes 4 w @ le_bytes 2 f @ le_bytes 2 l) else Inl StructError)"
  by (auto simp: pack_QIHH_def desc_valid_def pack_le_def)

lemma unpack_QIHH_fields:
  assumes "length a = 8" "length b = 4" "length c = 2" "length d = 2"
  shows "unpack_QIHH (a @ b @ c @ d @ rest) =
     \<lparr> d_gap_ticks = le_int a, d_data_word_offset = le_int b,
       d_frame_len = le_int c, d_flags = le_int d \<rparr>"
  using assms by (simp add: unpack_QIHH_def pyslice_def)

lemma unpack_enc_desc: "desc_valid d \<Longrightarrow> unpack_QIHH (enc_desc d) = d"
  by (simp add: enc_desc_def unpack_QIHH_fields desc_valid_def codec_simps)

lemma unpack_QIHH_take16: "unpack_QIHH (take 16 bs) = unpack_QIHH bs"
  by (simp add: unpack_QIHH_def pyslice_def drop_take)

interpretation desc_codec: fixed_codec 64 enc_desc unpack_QIHH desc_valid
  by unfold_locales (simp_all add: unpack_enc_desc)

lemma unpack_QIHH_valid: "desc_valid (unpack_QIHH bs)"
proof -
  have b: "le_int (pyslice i j bs) < 256 ^ (j - i)" for i j
  proof -
    have "le_int (pyslice i j bs) < 256 ^ length (pyslice i j bs)" by (rule le_int_bound)
    also have "\<dots> \<le> 256 ^ (j - i)" by (rule power_increasing) simp_all
    finally show ?thesis .
  qed
  show ?thesis
    using b [of 0 8] b [of 8 12] b [of 12 14] b [of 14 16]
    by (simp add: desc_valid_def unpack_QIHH_def)
qed

section \<open>Writing a trace\<close>

text \<open>
  The two output files and the running beat offset of a trace writer, and the block all
  writers run once per packet: pack the descriptor, pad it to 64 bytes, write the frame, pad it to a
  beat, advance the offset.
\<close>

record trace_out =
  tr_desc_file :: bytes
  tr_data_file :: bytes
  tr_words :: int

definition empty_trace :: trace_out where
  "empty_trace = \<lparr>tr_desc_file = [], tr_data_file = [], tr_words = 0\<rparr>"

definition emit_packet :: "int \<Rightarrow> bytes \<Rightarrow> int \<Rightarrow> trace_out \<Rightarrow> trace_out res" where
  "emit_packet gap_ticks frame frame_len out =
     bind_res (pack_QIHH gap_ticks (tr_words out) frame_len 0) (\<lambda>desc.
     bind_res (zeros (int DESC_BYTES - int (length desc))) (\<lambda>desc_pad.
     let padded_len = align_up frame_len DATA_BEAT_BYTES in
     bind_res (zeros (padded_len - frame_len)) (\<lambda>data_pad.
     Inr \<lparr> tr_desc_file = tr_desc_file out @ desc @ desc_pad,
           tr_data_file = tr_data_file out @ frame @ data_pad,
           tr_words = tr_words out + padded_len div DATA_BEAT_BYTES \<rparr>)))"

text \<open>The specification: a packet is its gap and its frame; offsets are the running beat counts.\<close>

type_synonym packet = "int \<times> bytes"

definition beats :: "bytes \<Rightarrow> int" where
  "beats f = align_up (int (length f)) DATA_BEAT_BYTES div DATA_BEAT_BYTES"

definition pad_frame :: "bytes \<Rightarrow> bytes" where
  "pad_frame f = f @ replicate (nat (align_up (int (length f)) DATA_BEAT_BYTES - int (length f))) 0"

definition packet_desc :: "int \<Rightarrow> packet \<Rightarrow> desc" where
  "packet_desc w p = \<lparr>d_gap_ticks = fst p, d_data_word_offset = w,
     d_frame_len = int (length (snd p)), d_flags = 0\<rparr>"

fun descs_from :: "int \<Rightarrow> packet list \<Rightarrow> desc list" where
  "descs_from w [] = []"
| "descs_from w (p # ps) = packet_desc w p # descs_from (w + beats (snd p)) ps"

definition data_of :: "packet list \<Rightarrow> bytes" where
  "data_of ps = concat (map (pad_frame \<circ> snd) ps)"

definition total_beats :: "packet list \<Rightarrow> int" where
  "total_beats ps = sum_list (map (beats \<circ> snd) ps)"

definition trace_of :: "packet list \<Rightarrow> trace_out" where
  "trace_of ps = \<lparr> tr_desc_file = concat (map enc_desc (descs_from 0 ps)),
     tr_data_file = data_of ps, tr_words = total_beats ps \<rparr>"

text \<open>What fits the descriptor's fields.\<close>

definition packet_ok :: "packet \<Rightarrow> bool" where
  "packet_ok p \<longleftrightarrow> 0 \<le> fst p \<and> fst p < 2 ^ 64 \<and> length (snd p) < 2 ^ 16"

definition trace_ok :: "packet list \<Rightarrow> bool" where
  "trace_ok ps \<longleftrightarrow> (\<forall>p \<in> set ps. packet_ok p) \<and> (\<forall>d \<in> set (descs_from 0 ps). d_data_word_offset d < 2 ^ 32)"

lemma beats_nonneg [simp]: "0 \<le> beats f"
  by (simp add: beats_def pos_imp_zdiv_nonneg_iff)

lemma total_beats_nonneg [simp]: "0 \<le> total_beats ps"
  by (induction ps) (simp_all add: total_beats_def)

lemma length_pad_frame: "int (length (pad_frame f)) = beats f * 64"
  using align_up_ge [of 64 "int (length f)"]
  by (simp add: pad_frame_def beats_def align_up_div_mult)

lemma take_pad_frame [simp]: "take (length f) (pad_frame f) = f"
  by (simp add: pad_frame_def)

lemma length_data_of: "int (length (data_of ps)) = total_beats ps * 64"
  by (induction ps) (simp_all add: data_of_def total_beats_def length_pad_frame algebra_simps)

lemma descs_from_append:
  "descs_from w (ps @ qs) = descs_from w ps @ descs_from (w + total_beats ps) qs"
  by (induction ps arbitrary: w) (simp_all add: total_beats_def add.assoc)

lemma length_descs_from [simp]: "length (descs_from w ps) = length ps"
  by (induction ps arbitrary: w) simp_all

lemma trace_of_snoc:
  "trace_of (ps @ [p]) = \<lparr> tr_desc_file = tr_desc_file (trace_of ps) @ enc_desc (packet_desc (total_beats ps) p),
     tr_data_file = tr_data_file (trace_of ps) @ pad_frame (snd p),
     tr_words = total_beats ps + beats (snd p) \<rparr>"
  by (simp add: trace_of_def descs_from_append data_of_def total_beats_def)


text \<open>One write extends a well-formed trace by its packet, or a field does not fit.\<close>

lemma emit_packet_trace_of:
  "emit_packet g f (int (length f)) (trace_of ps) =
     (if packet_ok (g, f) \<and> total_beats ps < 2 ^ 32
      then Inr (trace_of (ps @ [(g, f)])) else Inl StructError)"
proof -
  have "desc_valid (packet_desc (total_beats ps) (g, f)) \<longleftrightarrow> packet_ok (g, f) \<and> total_beats ps < 2 ^ 32"
    using total_beats_nonneg [of ps] by (auto simp: desc_valid_def packet_desc_def packet_ok_def)
  moreover have "tr_words (trace_of ps) = total_beats ps" by (simp add: trace_of_def)
  ultimately show ?thesis
    using align_up_ge [of 64 "int (length f)"]
    unfolding trace_of_snoc
    by (auto simp: emit_packet_def pack_QIHH_eq packet_desc_def enc_desc_def pad_frame_def beats_def Let_def)
qed

lemma trace_of_Nil: "trace_of [] = empty_trace"
  by (simp add: trace_of_def empty_trace_def data_of_def total_beats_def)

lemma trace_ok_Nil [simp]: "trace_ok []"
  by (simp add: trace_ok_def)

lemma trace_ok_snoc:
  "trace_ok (ps @ [p]) \<longleftrightarrow> trace_ok ps \<and> packet_ok p \<and> total_beats ps < 2 ^ 32"
  by (auto simp: trace_ok_def descs_from_append packet_desc_def)

lemma trace_ok_appendD: "trace_ok (ps @ qs) \<Longrightarrow> trace_ok ps"
  by (auto simp: trace_ok_def descs_from_append)

lemma trace_okI: "\<forall>p \<in> set ps. packet_ok p \<Longrightarrow> total_beats ps < 2 ^ 32 \<Longrightarrow> trace_ok ps"
proof (induction ps rule: rev_induct)
  case Nil
  then show ?case by simp
next
  case (snoc p ps)
  have "total_beats (ps @ [p]) = total_beats ps + beats (snd p)" by (simp add: total_beats_def)
  moreover have "0 \<le> beats (snd p)" by (rule beats_nonneg)
  ultimately have "total_beats ps < 2 ^ 32" using snoc.prems(2) by linarith
  with snoc show ?case by (simp add: trace_ok_snoc)
qed

text \<open>A whole trace, written packet by packet.\<close>

definition emit_all :: "packet list \<Rightarrow> trace_out \<Rightarrow> trace_out res" where
  "emit_all ps out = fold_res (\<lambda>p. emit_packet (fst p) (snd p) (int (length (snd p)))) ps out"

lemma emit_all_trace_of:
  "emit_all ps empty_trace = (if trace_ok ps then Inr (trace_of ps) else Inl StructError)"
proof (induction ps rule: rev_induct)
  case Nil
  then show ?case by (simp add: emit_all_def trace_of_Nil)
next
  case (snoc p ps)
  obtain g f where p: "p = (g, f)" by (cases p)
  show ?case
    using snoc unfolding p
    by (auto simp: emit_all_def fold_res_append emit_packet_trace_of trace_ok_snoc)
qed

section \<open>Reading a trace\<close>

text \<open>
  The reader's view: descriptor \<open>i\<close> is the \<open>i\<close>-th 64-byte record, its frame the \<open>frame_len\<close>
  bytes at \<open>data_word_offset\<close> beats.
\<close>

definition desc_at :: "bytes \<Rightarrow> nat \<Rightarrow> desc" where
  "desc_at desc_file i = unpack_QIHH (pyslice (i * 64) (i * 64 + 64) desc_file)"

definition frame_at :: "bytes \<Rightarrow> desc \<Rightarrow> bytes" where
  "frame_at data_file d =
     (let off = nat (d_data_word_offset d * DATA_BEAT_BYTES)
      in pyslice off (off + nat (d_frame_len d)) data_file)"

definition trace_packets :: "bytes \<Rightarrow> bytes \<Rightarrow> packet list" where
  "trace_packets desc_file data_file =
     map (\<lambda>i. (d_gap_ticks (desc_at desc_file i), frame_at data_file (desc_at desc_file i)))
       [0..<length desc_file div DESC_BYTES]"

lemma trace_ok_descs_valid:
  assumes "trace_ok ps"
  shows "\<forall>d \<in> set (descs_from 0 ps). desc_valid d"
proof -
  have "\<forall>p \<in> set ps. packet_ok p \<Longrightarrow> 0 \<le> w \<Longrightarrow> d \<in> set (descs_from w ps) \<Longrightarrow>
    d_data_word_offset d < 2 ^ 32 \<Longrightarrow> desc_valid d" for w d ps
  proof (induction ps arbitrary: w)
    case Nil
    then show ?case by simp
  next
    case (Cons p ps)
    show ?case
    proof (cases "d = packet_desc w p")
      case True
      with Cons.prems show ?thesis by (simp add: packet_desc_def desc_valid_def packet_ok_def)
    next
      case False
      have "0 \<le> w + beats (snd p)" using Cons.prems(2) by simp
      moreover have "d \<in> set (descs_from (w + beats (snd p)) ps)" using False Cons.prems(3) by simp
      ultimately show ?thesis using Cons.IH Cons.prems(1,4) by simp
    qed
  qed
  from this [of ps 0] assms show ?thesis unfolding trace_ok_def by blast
qed

lemma descs_from_nth:
  "i < length ps \<Longrightarrow> descs_from w ps ! i = packet_desc (w + total_beats (take i ps)) (ps ! i)"
proof (induction ps arbitrary: w i)
  case Nil
  then show ?case by simp
next
  case (Cons p ps)
  then show ?case by (cases i) (simp_all add: total_beats_def add.assoc)
qed

lemma data_of_split:
  assumes "i < length ps"
  shows "data_of ps = data_of (take i ps) @ pad_frame (snd (ps ! i)) @ data_of (drop (Suc i) ps)"
proof -
  have "ps = take i ps @ ps ! i # drop (Suc i) ps" by (rule id_take_nth_drop [OF assms])
  then have "data_of ps = data_of (take i ps @ ps ! i # drop (Suc i) ps)" by simp
  then show ?thesis by (simp add: data_of_def)
qed

lemma frame_at_data_of:
  assumes "i < length ps"
  shows "frame_at (data_of ps) (packet_desc (total_beats (take i ps)) (ps ! i)) = snd (ps ! i)"
proof -
  have off: "nat (total_beats (take i ps) * 64) = length (data_of (take i ps))"
    using length_data_of [of "take i ps"] by simp
  show ?thesis
    unfolding frame_at_def Let_def packet_desc_def data_of_split [OF assms]
    by (simp add: off pyslice_append2 pyslice_0 pad_frame_def)
qed

lemma desc_at_trace_of:
  assumes "trace_ok ps" and "i < length ps"
  shows "desc_at (tr_desc_file (trace_of ps)) i = packet_desc (total_beats (take i ps)) (ps ! i)"
proof -
  have "desc_at (tr_desc_file (trace_of ps)) i = descs_from 0 ps ! i"
    unfolding desc_at_def trace_of_def
    using desc_codec.dec_table_nth [of "descs_from 0 ps" i] trace_ok_descs_valid assms by simp
  with assms show ?thesis by (simp add: descs_from_nth)
qed

lemma length_desc_file: "length (tr_desc_file (trace_of ps)) = length ps * 64"
proof -
  have "length (concat (map enc_desc (descs_from 0 ps))) = length (map enc_desc (descs_from 0 ps)) * 64"
    by (rule length_concat_uniform) auto
  then show ?thesis by (simp add: trace_of_def)
qed

lemma length_desc_file_div [simp]: "length (tr_desc_file (trace_of ps)) div 64 = length ps"
  by (simp add: length_desc_file)

lemma trace_packets_trace_of:
  assumes "trace_ok ps"
  shows "trace_packets (tr_desc_file (trace_of ps)) (tr_data_file (trace_of ps)) = ps"
proof (rule nth_equalityI)
  show "length (trace_packets (tr_desc_file (trace_of ps)) (tr_data_file (trace_of ps))) = length ps"
    by (simp add: trace_packets_def)
next
  fix i assume "i < length (trace_packets (tr_desc_file (trace_of ps)) (tr_data_file (trace_of ps)))"
  then have i: "i < length ps" by (simp add: trace_packets_def)
  have "tr_data_file (trace_of ps) = data_of ps" by (simp add: trace_of_def)
  with i show "trace_packets (tr_desc_file (trace_of ps)) (tr_data_file (trace_of ps)) ! i = ps ! i"
    using desc_at_trace_of [OF assms i] frame_at_data_of [OF i]
    by (simp add: trace_packets_def) (simp add: packet_desc_def prod_eq_iff)
qed

text \<open>The payload regions of a trace, in beats, tile the data file without overlap.\<close>

lemma total_beats_take_mono:
  assumes "i \<le> j"
  shows "total_beats (take i ps) \<le> total_beats (take j ps)"
proof -
  have "take j ps = take i ps @ take (j - i) (drop i ps)"
    using assms by (metis le_add_diff_inverse take_add)
  then show ?thesis
    using total_beats_nonneg [of "take (j - i) (drop i ps)"] by (simp add: total_beats_def)
qed

lemma total_beats_take_Suc:
  "i < length ps \<Longrightarrow> total_beats (take (Suc i) ps) = total_beats (take i ps) + beats (snd (ps ! i))"
  by (simp add: total_beats_def take_Suc_conv_app_nth)

lemma beats_bound: "length f \<le> 65535 \<Longrightarrow> beats f \<le> 1024"
  using align_up_64_bound [of "int (length f)"] zdiv_mono1 [of "align_up (int (length f)) 64" 65536 64]
  by (simp add: beats_def)

lemma total_beats_bound:
  "\<forall>p \<in> set ps. beats (snd p) \<le> b \<Longrightarrow> total_beats ps \<le> int (length ps) * b"
  by (induction ps) (auto simp: total_beats_def algebra_simps)

section \<open>Writers\<close>

lemma emit_packet_eq_Inl:
  "emit_packet g f (int (length f)) out = Inl e \<Longrightarrow> e = StructError"
proof -
  assume a: "emit_packet g f (int (length f)) out = Inl e"
  have l: "length desc = 16" if "pack_QIHH g w n k = Inr desc" for w n k desc
    using that by (auto simp: pack_QIHH_eq split: if_splits)
  show ?thesis
  proof (cases "pack_QIHH g (tr_words out) (int (length f)) 0")
    case (Inl e')
    with a show ?thesis by (auto simp: emit_packet_def pack_QIHH_eq split: if_splits)
  next
    case (Inr desc)
    with a l [OF Inr] align_up_ge [of 64 "int (length f)"] show ?thesis
      by (simp add: emit_packet_def Let_def)
  qed
qed

text \<open>
  The contract of a trace writer: packet \<open>i\<close> is \<open>pk i\<close>, the step writes it and updates the writer's
  own counters, which the bookkeeping invariant \<open>inv\<close> describes; a field that does not fit raises
  \<open>err\<close>.  The whole loop then writes the trace of the packets, or raises.
\<close>

locale trace_writer =
  fixes pk :: "nat \<Rightarrow> packet"
    and step :: "nat \<Rightarrow> 's \<Rightarrow> 's res"
    and out :: "'s \<Rightarrow> trace_out"
    and upd :: "nat \<Rightarrow> 's \<Rightarrow> trace_out \<Rightarrow> 's"
    and inv :: "nat \<Rightarrow> 's \<Rightarrow> bool"
    and err :: py_error
  assumes step_eq: "inv i s \<Longrightarrow> step i s =
      (case emit_packet (fst (pk i)) (snd (pk i)) (int (length (snd (pk i)))) (out s) of
         Inl e \<Rightarrow> Inl err | Inr out' \<Rightarrow> Inr (upd i s out'))"
    and out_upd: "out (upd i s out') = out'"
    and inv_upd: "inv i s \<Longrightarrow> inv (Suc i) (upd i s out')"
begin

lemma write_loop:
  assumes "inv 0 s0" and "out s0 = empty_trace"
  shows "if trace_ok (map pk [0..<n])
     then \<exists>s. fold_res step [0..<n] s0 = Inr s \<and> out s = trace_of (map pk [0..<n]) \<and> inv n s
     else fold_res step [0..<n] s0 = Inl err"
proof (induction n)
  case 0
  with assms show ?case by (simp add: trace_of_Nil)
next
  case (Suc n)
  show ?case
  proof (cases "trace_ok (map pk [0..<n])")
    case False
    then have "\<not> trace_ok (map pk [0..<Suc n])" using trace_ok_appendD by auto
    with False Suc show ?thesis by (simp add: fold_res_append)
  next
    case True
    with Suc obtain s where s: "fold_res step [0..<n] s0 = Inr s" "out s = trace_of (map pk [0..<n])" "inv n s"
      by auto
    have "fold_res step [0..<Suc n] s0 = step n s" by (simp add: fold_res_append s del: fold_res.simps)
    also have "\<dots> = (if trace_ok (map pk [0..<Suc n]) then Inr (upd n s (trace_of (map pk [0..<Suc n]))) else Inl err)"
      using True by (simp add: step_eq [OF s(3)] s(2) emit_packet_trace_of trace_ok_snoc)
    finally show ?thesis using inv_upd [OF s(3)] by (auto simp: out_upd)
  qed
qed

lemma write_loop_Inr:
  assumes "inv 0 s0" and "out s0 = empty_trace" and "fold_res step [0..<n] s0 = Inr s"
  shows "trace_ok (map pk [0..<n])" and "out s = trace_of (map pk [0..<n])" and "inv n s"
  using write_loop [OF assms(1,2), of n] assms(3) by (auto split: if_splits)

lemma write_loop_ok:
  assumes "inv 0 s0" and "out s0 = empty_trace" and "trace_ok (map pk [0..<n])"
  shows "\<exists>s. fold_res step [0..<n] s0 = Inr s"
  using write_loop [OF assms(1,2), of n] assms(3) by auto

end

text \<open>A schedule of absolute target ticks, emitted as gaps: the first gap is the first target.\<close>

definition increments :: "(nat \<Rightarrow> int) \<Rightarrow> nat \<Rightarrow> int" where
  "increments target i = target i - (if i = 0 then 0 else target (i - 1))"

lemma sum_increments: "sum_list (map (increments target) [0..<Suc k]) = target k"
  by (induction k) (simp_all add: increments_def)

end
