(* ===== verification/PyFloat.thy ===== *)
theory PyFloat
  imports Complex_Main "HOL-Library.Log_Nat" Prelude
begin

text \<open>
  Python's floating-point arithmetic, as far as the tools use it.  A finite \<^verbatim>\<open>float\<close> is carried as
  the rational number it denotes.  \<open>fl\<close> rounds a rational to the nearest IEEE-754 binary64
  value, ties to even, subnormals included; \<open>py_truediv\<close> is \<^verbatim>\<open>int / int\<close> (one correctly rounded
  division, \<^verbatim>\<open>OverflowError\<close> when the quotient is out of range); \<open>round_half_even\<close> is
  \<^verbatim>\<open>round(x)\<close>, exact on the float it is given.
\<close>

section \<open>Rounding to an integer, ties to even\<close>

definition round_half_even :: "rat \<Rightarrow> int" where
  "round_half_even x =
     (let q = \<lfloor>x\<rfloor>; r = x - of_int q
      in if r < 1 / 2 then q else if r > 1 / 2 then q + 1 else if even q then q else q + 1)"

lemma round_half_even_cases:
  "round_half_even x = \<lfloor>x\<rfloor> \<and> x - of_int \<lfloor>x\<rfloor> \<le> 1 / 2 \<or>
   round_half_even x = \<lfloor>x\<rfloor> + 1 \<and> 1 / 2 \<le> x - of_int \<lfloor>x\<rfloor>"
  by (auto simp: round_half_even_def Let_def)

lemma round_half_even_error: "\<bar>of_int (round_half_even x) - x\<bar> \<le> 1 / 2"
proof -
  have "of_int \<lfloor>x\<rfloor> \<le> x" "x < of_int \<lfloor>x\<rfloor> + 1" by linarith+
  with round_half_even_cases [of x] show ?thesis by (auto simp: abs_le_iff)
qed

lemma round_half_even_of_int [simp]: "round_half_even (of_int n) = n"
  by (simp add: round_half_even_def Let_def)

lemma round_half_even_mono:
  assumes "x \<le> y"
  shows "round_half_even x \<le> round_half_even y"
proof (cases "\<lfloor>x\<rfloor> = \<lfloor>y\<rfloor>")
  case True
  with assms show ?thesis by (auto simp: round_half_even_def Let_def)
next
  case False
  with floor_mono [OF assms] have "\<lfloor>x\<rfloor> + 1 \<le> \<lfloor>y\<rfloor>" by simp
  with round_half_even_cases [of x] round_half_even_cases [of y] show ?thesis by auto
qed

lemma round_half_even_minus: "round_half_even (- x) = - round_half_even x"
proof (cases "x = of_int \<lfloor>x\<rfloor>")
  case True
  then obtain n where "x = of_int n" by blast
  then have "- x = of_int (- n)" by simp
  with \<open>x = of_int n\<close> show ?thesis by (simp only: round_half_even_of_int)
next
  case False
  have "\<lfloor>- x\<rfloor> = - \<lfloor>x\<rfloor> - 1"
  proof (rule floor_unique)
    show "of_int (- \<lfloor>x\<rfloor> - 1) \<le> - x" by (simp) linarith
    show "- x < of_int (- \<lfloor>x\<rfloor> - 1) + 1" 
      using False of_int_floor_le [of x] by (metis (no_types, lifting) add_uminus_conv_diff
          diff_add_cancel less_le minus_diff_eq neg_less_iff_less of_int_1 of_int_diff of_int_minus)
  qed
  then show ?thesis by (auto simp: round_half_even_def Let_def)
qed

lemma round_half_even_0 [simp]: "round_half_even 0 = 0"
  using round_half_even_of_int [of 0] by simp

lemma round_half_even_le_int: "x \<le> of_int n \<Longrightarrow> round_half_even x \<le> n"
  using round_half_even_mono [of x "of_int n"] by simp

lemma round_half_even_ge_int: "of_int n \<le> x \<Longrightarrow> n \<le> round_half_even x"
  using round_half_even_mono [of "of_int n" x] by simp

section \<open>The binary exponent\<close>

abbreviation p2 :: "int \<Rightarrow> rat" where "p2 k \<equiv> power_int 2 k"

text \<open>The \<open>e\<close> with \<open>2^e \<le> x < 2^(e+1)\<close>, from the bit lengths of numerator and denominator.\<close>

definition expo :: "rat \<Rightarrow> int" where
  "expo x = (case quotient_of x of (n, d) \<Rightarrow>
     let e = bitlen n - bitlen d in if p2 e \<le> x then e else e - 1)"

lemma p2_pos [simp]: "0 < p2 k"
  by (simp add: zero_less_power_int)

lemma p2_add: "p2 (j + k) = p2 j * p2 k"
  by (simp add: power_int_add)

lemma p2_diff: "p2 (j - k) = p2 j / p2 k"
  by (simp add: power_int_diff)

lemma p2_mono: "j \<le> k \<Longrightarrow> p2 j \<le> p2 k"
  by (rule power_int_increasing) simp_all

lemma p2_strict: "p2 j < p2 k \<Longrightarrow> j < k"
  using p2_mono [of k j] by (simp add: not_le [symmetric]) (meson not_le_imp_less)

lemma p2_le_iff: "p2 j \<le> p2 k \<longleftrightarrow> j \<le> k"
  using p2_mono [of j k] power_int_strict_increasing [of k j "2 :: rat"]
  by (meson linorder_not_less one_less_numeral_iff semiring_norm(76))

lemma p2_nat: "0 \<le> k \<Longrightarrow> p2 k = of_int (2 ^ nat k)"
  by (simp add: power_int_def)

lemma bitlen_p2:
  assumes "0 < n"
  shows "p2 (bitlen n - 1) \<le> of_int n" and "of_int n < p2 (bitlen n)"
proof -
  have b: "0 < bitlen n" using assms by (simp add: bitlen_alt_def)
  have "2 ^ nat (bitlen n - 1) \<le> n" "n < 2 ^ nat (bitlen n)"
    using bitlen_bounds [OF assms] by simp_all
  then have "(of_int (2 ^ nat (bitlen n - 1)) :: rat) \<le> of_int n"
    "(of_int n :: rat) < of_int (2 ^ nat (bitlen n))"
    by (simp_all only: of_int_le_iff of_int_less_iff)
  with b show "p2 (bitlen n - 1) \<le> of_int n" "of_int n < p2 (bitlen n)"
    using p2_nat [of "bitlen n - 1"] p2_nat [of "bitlen n"] by simp_all
qed

lemma expo_bounds:
  assumes "0 < x"
  shows "p2 (expo x) \<le> x" and "x < p2 (expo x + 1)"
proof -
  obtain n d where nd: "quotient_of x = (n, d)" by (cases "quotient_of x")
  have d: "0 < d" using quotient_of_denom_pos [OF nd] .
  have x: "x = of_int n / of_int d" using quotient_of_div [OF nd] .
  have n: "0 < n" using assms d unfolding x by (simp add: zero_less_divide_iff)
  let ?e = "bitlen n - bitlen d"
  have dpos: "(0::rat) < of_int d" using d by simp
  have "x < p2 (bitlen n) / p2 (bitlen d - 1)"
    unfolding x by (rule frac_less) (use bitlen_p2 [OF n] bitlen_p2 [OF d] n in simp_all)
  then have up: "x < p2 (?e + 1)" by (simp add: p2_diff [symmetric] algebra_simps)
  have "p2 (bitlen n - 1) / p2 (bitlen d) \<le> x"
    unfolding x by (rule frac_le) (use bitlen_p2 [OF n] bitlen_p2 [OF d] n dpos in simp_all)
  then have lo: "p2 (?e - 1) \<le> x" by (simp add: p2_diff [symmetric] algebra_simps)
  show "p2 (expo x) \<le> x" "x < p2 (expo x + 1)"
    using up lo by (auto simp: expo_def nd Let_def)
qed

lemma expo_mono: "0 < x \<Longrightarrow> x \<le> y \<Longrightarrow> expo x \<le> expo y"
proof -
  assume xy: "0 < x" "x \<le> y"
  have "p2 (expo x) < p2 (expo y + 1)"
    using expo_bounds [of x] expo_bounds [of y] xy by linarith
  then show ?thesis using p2_strict [of "expo x" "expo y + 1"] by simp
qed


section \<open>Rounding to a double\<close>

text \<open>The exponent of the last place: 53 significant bits, or the subnormal spacing \<open>2^-1074\<close>.\<close>

definition ulp_exp :: "rat \<Rightarrow> int" where
  "ulp_exp x = max (expo x - 52) (- 1074)"

definition fl :: "rat \<Rightarrow> rat" where
  "fl x = (if x = 0 then 0
     else of_int (round_half_even (x / p2 (ulp_exp \<bar>x\<bar>))) * p2 (ulp_exp \<bar>x\<bar>))"

definition py_truediv :: "int \<Rightarrow> int \<Rightarrow> rat res" where
  "py_truediv a b =
     (if b = 0 then Inl ZeroDivisionError
      else let v = fl (of_int a / of_int b)
           in if \<bar>v\<bar> < 2 ^ 1024 then Inr v else Inl OverflowError)"

text \<open>\<^verbatim>\<open>round(a / b)\<close> on integers.\<close>

definition py_round_div :: "int \<Rightarrow> int \<Rightarrow> int res" where
  "py_round_div a b = bind_res (py_truediv a b) (\<lambda>v. Inr (round_half_even v))"

lemma fl_0 [simp]: "fl 0 = 0"
  by (simp add: fl_def)

lemma fl_minus: "fl (- x) = - fl x"
  by (simp add: fl_def round_half_even_minus)

lemma ulp_exp_mono: "0 < x \<Longrightarrow> x \<le> y \<Longrightarrow> ulp_exp x \<le> ulp_exp y"
  using expo_mono [of x y] by (simp add: ulp_exp_def)

lemma fl_nonneg: "0 \<le> x \<Longrightarrow> 0 \<le> fl x"
proof -
  assume x: "0 \<le> x"
  have "0 \<le> round_half_even (x / p2 (ulp_exp \<bar>x\<bar>))"
    by (rule round_half_even_ge_int) (use x in simp)
  then show ?thesis by (simp add: fl_def)
qed

text \<open>Rounding stays inside the binade, end points included.\<close>

lemma fl_le_p2:
  assumes "0 < x" and "x \<le> p2 k" and "ulp_exp x \<le> k"
  shows "fl x \<le> p2 k"
proof -
  let ?s = "ulp_exp x"
  have "x / p2 ?s \<le> p2 k / p2 ?s" using assms(2) by (simp add: divide_right_mono)
  also have "\<dots> = of_int (2 ^ nat (k - ?s))"
    using assms(3) by (simp add: p2_diff [symmetric] p2_nat)
  finally have "round_half_even (x / p2 ?s) \<le> 2 ^ nat (k - ?s)" by (rule round_half_even_le_int)
  then have "(of_int (round_half_even (x / p2 ?s)) :: rat) \<le> of_int (2 ^ nat (k - ?s))"
    by (simp only: of_int_le_iff)
  also have "\<dots> = p2 (k - ?s)" using assms(3) by (simp add: p2_nat)
  finally have "of_int (round_half_even (x / p2 ?s)) * p2 ?s \<le> p2 (k - ?s) * p2 ?s"
    by (simp add: mult_right_mono)
  also have "\<dots> = p2 k" by (simp add: p2_diff)
  finally show ?thesis using assms(1) by (simp add: fl_def)
qed

lemma fl_ge_p2:
  assumes "p2 k \<le> x" and "ulp_exp x \<le> k"
  shows "p2 k \<le> fl x"
proof -
  let ?s = "ulp_exp x"
  have x: "0 < x" using assms(1) p2_pos [of k] by linarith
  have "of_int (2 ^ nat (k - ?s)) = p2 k / p2 ?s"
    using assms(2) by (simp add: p2_diff [symmetric] p2_nat)
  also have "\<dots> \<le> x / p2 ?s" using assms(1) by (simp add: divide_right_mono)
  finally have "2 ^ nat (k - ?s) \<le> round_half_even (x / p2 ?s)" by (rule round_half_even_ge_int)
  then have "(of_int (2 ^ nat (k - ?s)) :: rat) \<le> of_int (round_half_even (x / p2 ?s))"
    by (simp only: of_int_le_iff)
  then have "of_int (2 ^ nat (k - ?s)) * p2 ?s \<le> of_int (round_half_even (x / p2 ?s)) * p2 ?s"
    by (rule mult_right_mono) simp
  moreover have "(of_int (2 ^ nat (k - ?s)) :: rat) = p2 (k - ?s)" using assms(2) by (simp add: p2_nat)
  ultimately have "p2 (k - ?s) * p2 ?s \<le> of_int (round_half_even (x / p2 ?s)) * p2 ?s"
    by (simp only:)
  moreover have "p2 (k - ?s) * p2 ?s = p2 k" by (simp add: p2_diff)
  ultimately show ?thesis using x by (simp add: fl_def)
qed

lemma fl_p2_le:
  assumes "- 1074 \<le> k"
  shows "fl (p2 k) \<le> p2 k"
proof -
  have "p2 (expo (p2 k)) \<le> p2 k" by (rule expo_bounds(1)) simp
  then have "expo (p2 k) \<le> k" by (simp only: p2_le_iff)
  with assms show ?thesis by (intro fl_le_p2) (simp_all add: ulp_exp_def)
qed

lemma fl_mono_pos:
  assumes "0 < x" and "x \<le> y"
  shows "fl x \<le> fl y"
proof (cases "ulp_exp x = ulp_exp y")
  case True
  have "round_half_even (x / p2 (ulp_exp y)) \<le> round_half_even (y / p2 (ulp_exp y))"
    using assms(2) by (intro round_half_even_mono divide_right_mono) simp_all
  with True assms show ?thesis by (simp add: fl_def mult_right_mono)
next
  case False
  with ulp_exp_mono [OF assms] have "ulp_exp x < ulp_exp y" by simp
  then have e: "expo x < expo y" "ulp_exp y = expo y - 52" by (auto simp: ulp_exp_def)
  have "x < p2 (expo x + 1)" using expo_bounds [OF assms(1)] by simp
  also have "\<dots> \<le> p2 (expo y)" using e(1) by (intro p2_mono) simp
  finally have "fl x \<le> p2 (expo y)"
    using assms(1) \<open>ulp_exp x < ulp_exp y\<close> e(2) by (intro fl_le_p2) simp_all
  also have "\<dots> \<le> fl y"
    using assms expo_bounds [of y] e(2) by (intro fl_ge_p2) simp_all
  finally show ?thesis .
qed

lemma fl_mono:
  assumes "x \<le> y"
  shows "fl x \<le> fl y"
proof -
  consider "0 < x" | "x \<le> 0" "0 \<le> y" | "y < 0" by linarith
  then show ?thesis
  proof cases
    case 1
    with assms show ?thesis by (rule_tac fl_mono_pos)
  next
    case 2
    have "0 \<le> fl (- x)" "0 \<le> fl y" using 2 by (simp_all add: fl_nonneg)
    then show ?thesis by (simp add: fl_minus)
  next
    case 3
    with assms have "fl (- y) \<le> fl (- x)" by (intro fl_mono_pos) simp_all
    then show ?thesis by (simp add: fl_minus)
  qed
qed

text \<open>The rounding error: half a unit in the last place.\<close>

lemma fl_error_ulp: "\<bar>fl x - x\<bar> \<le> p2 (ulp_exp \<bar>x\<bar>) / 2"
proof (cases "x = 0")
  case False
  let ?s = "p2 (ulp_exp \<bar>x\<bar>)"
  have "fl x - x = (of_int (round_half_even (x / ?s)) - x / ?s) * ?s"
    using False by (simp add: fl_def algebra_simps)
  then have "\<bar>fl x - x\<bar> = \<bar>of_int (round_half_even (x / ?s)) - x / ?s\<bar> * ?s"
    by (simp add: abs_mult less_imp_le)
  also have "\<dots> \<le> 1 / 2 * ?s"
    using round_half_even_error by (intro mult_right_mono) simp_all
  finally show ?thesis by simp
qed simp

lemma fl_error:
  assumes "p2 (- 1022) \<le> \<bar>x\<bar>"
  shows "\<bar>fl x - x\<bar> \<le> \<bar>x\<bar> / 2 ^ 53"
proof -
  have x: "0 < \<bar>x\<bar>" using assms p2_pos [of "- 1022"] by linarith
  have "p2 (- 1022) < p2 (expo \<bar>x\<bar> + 1)" using expo_bounds(2) [OF x] assms by linarith
  then have "- 1022 \<le> expo \<bar>x\<bar>" using p2_strict [of "- 1022" "expo \<bar>x\<bar> + 1"] by simp
  then have s: "ulp_exp \<bar>x\<bar> = expo \<bar>x\<bar> - 52" by (simp add: ulp_exp_def)
  have "p2 (ulp_exp \<bar>x\<bar>) / 2 = p2 (expo \<bar>x\<bar>) / 2 ^ 53"
    unfolding s by (simp add: p2_diff p2_nat)
  also have "\<dots> \<le> \<bar>x\<bar> / 2 ^ 53" using expo_bounds(1) [OF x] by (simp add: divide_right_mono)
  finally show ?thesis using fl_error_ulp [of x] by linarith
qed

text \<open>Integers of up to 53 bits are floats.\<close>

lemma fl_of_int:
  assumes "\<bar>n\<bar> \<le> 2 ^ 53"
  shows "fl (of_int n) = of_int n"
proof (cases "n = 0")
  case False
  let ?x = "\<bar>of_int n\<bar> :: rat"
  have pos: "0 < ?x" using False by simp
  have exact: "fl (of_int n) = of_int n" if s: "ulp_exp ?x \<le> 0"
  proof -
    have "of_int n / p2 (ulp_exp ?x) = of_int n * p2 (- ulp_exp ?x)"
      by (simp add: power_int_minus divide_inverse)
    also have "\<dots> = of_int (n * 2 ^ nat (- ulp_exp ?x))" using s by (simp add: p2_nat)
    finally have "round_half_even (of_int n / p2 (ulp_exp ?x)) = n * 2 ^ nat (- ulp_exp ?x)"
      by (simp only: round_half_even_of_int)
    then have "fl (of_int n) = of_int (n * 2 ^ nat (- ulp_exp ?x)) * p2 (ulp_exp ?x)"
      using False by (simp add: fl_def)
    also have "\<dots> = of_int n * (p2 (- ulp_exp ?x) * p2 (ulp_exp ?x))" using s by (simp add: p2_nat)
    also have "p2 (- ulp_exp ?x) * p2 (ulp_exp ?x) = 1" by (simp add: p2_add [symmetric])
    finally show ?thesis by simp
  qed
  show ?thesis
  proof (cases "\<bar>n\<bar> < 2 ^ 53")
    case True
    then have "(of_int \<bar>n\<bar> :: rat) < of_int (2 ^ 53)" by (simp only: of_int_less_iff)
    then have "?x < p2 53" by (simp add: p2_nat)
    then have "p2 (expo ?x) < p2 53" using expo_bounds(1) [OF pos] by linarith
    then have "expo ?x \<le> 52" using p2_strict [of "expo ?x" 53] by simp
    then show ?thesis by (intro exact) (simp add: ulp_exp_def)
  next
    case False
    with assms have n: "n = 2 ^ 53 \<or> n = - (2 ^ 53)" by linarith
    have "fl (p2 53) = p2 53"
    proof (rule antisym)
      have b: "expo (p2 53) \<le> 53"
        using expo_bounds(1) [of "p2 53"] p2_le_iff [of "expo (p2 53)" 53] p2_pos [of 53] by blast
      show "fl (p2 53) \<le> p2 53" by (rule fl_le_p2) (use b in \<open>simp_all add: ulp_exp_def\<close>)
      show "p2 53 \<le> fl (p2 53)" by (rule fl_ge_p2) (use b in \<open>simp_all add: ulp_exp_def\<close>)
    qed
    then have "fl (2 ^ 53) = 2 ^ 53" by (simp add: p2_nat)
    with n fl_minus [of "2 ^ 53"] show ?thesis by auto
  qed
qed simp

section \<open>Rounding a quotient to an integer\<close>

definition round_fl :: "rat \<Rightarrow> int" where
  "round_fl q = round_half_even (fl q)"

lemma round_fl_mono: "p \<le> q \<Longrightarrow> round_fl p \<le> round_fl q"
  by (simp add: round_fl_def round_half_even_mono fl_mono)

lemma round_fl_0 [simp]: "round_fl 0 = 0"
  by (simp add: round_fl_def)

lemma round_fl_of_int: "\<bar>n\<bar> \<le> 2 ^ 53 \<Longrightarrow> round_fl (of_int n) = n"
  by (simp add: round_fl_def fl_of_int)

lemma round_fl_nonneg: "0 \<le> q \<Longrightarrow> 0 \<le> round_fl q"
  using round_fl_mono [of 0 q] by simp

text \<open>
  Two roundings: half a unit for \<^verbatim>\<open>round\<close>, and the relative error \<open>2^-53\<close> of the division.
\<close>

lemma round_fl_error: "\<bar>of_int (round_fl q) - q\<bar> \<le> 1 / 2 + \<bar>q\<bar> / 2 ^ 53"
proof (cases "p2 (- 1022) \<le> \<bar>q\<bar>")
  case True
  have "\<bar>of_int (round_fl q) - fl q\<bar> \<le> 1 / 2"
    unfolding round_fl_def by (rule round_half_even_error)
  with fl_error [OF True] show ?thesis by linarith
next
  case False
  have small: "p2 (- 1022) \<le> p2 (- 2)" by (rule p2_mono) simp
  have quarter: "p2 (- 2) = 1 / 4" by (simp add: power_int_def power2_eq_square)
  have q: "\<bar>q\<bar> < 1 / 4" using False small unfolding quarter by linarith
  have qq: "q \<le> p2 (- 2)" "- q \<le> p2 (- 2)" using q unfolding quarter by linarith+
  have f: "fl (p2 (- 2)) \<le> p2 (- 2)" by (rule fl_p2_le) simp
  have "fl q \<le> 1 / 4" "- fl q \<le> 1 / 4"
    using fl_mono [OF qq(1)] fl_mono [OF qq(2)] f unfolding quarter fl_minus by linarith+
  moreover have "\<bar>of_int (round_fl q) - fl q\<bar> \<le> 1 / 2"
    unfolding round_fl_def by (rule round_half_even_error)
  ultimately have "\<bar>of_int (round_fl q) :: rat\<bar> < 1" by linarith
  then have "round_fl q = 0" by linarith
  moreover have "0 \<le> \<bar>q\<bar> / 2 ^ 53" by simp
  ultimately show ?thesis using q by simp
qed

lemma round_fl_le_p2:
  assumes "q \<le> 2 ^ k"
  shows "round_fl q \<le> 2 ^ k"
proof -
  have p: "p2 (int k) = of_int (2 ^ k)" by (simp add: power_int_def)
  have "fl q \<le> fl (p2 (int k))" by (rule fl_mono) (use assms p in simp)
  also have "\<dots> \<le> of_int (2 ^ k)" using fl_p2_le [of "int k"] unfolding p by simp
  finally show ?thesis unfolding round_fl_def by (rule round_half_even_le_int)
qed

lemma fl_bound:
  assumes "\<bar>q\<bar> \<le> 2 ^ 1023"
  shows "\<bar>fl q\<bar> < 2 ^ 1024"
proof -
  have p: "p2 1023 = 2 ^ 1023" by (simp add: power_int_def)
  have f: "fl (p2 1023) \<le> p2 1023" by (rule fl_p2_le) simp
  have q: "q \<le> p2 1023" "- q \<le> p2 1023" using assms unfolding p by linarith+
  have "fl q \<le> 2 ^ 1023" "- fl q \<le> 2 ^ 1023"
    using fl_mono [OF q(1)] fl_mono [OF q(2)] f unfolding p fl_minus by linarith+
  moreover have "(2 :: rat) ^ 1023 < 2 ^ 1024" by (rule power_strict_increasing) simp_all
  ultimately show ?thesis by linarith
qed

text \<open>Rounding keeps a number above any power of two it exceeds, so it keeps up with any growing time.\<close>

lemma fl_above:
  assumes "2 ^ j \<le> x"
  shows "2 ^ j \<le> fl x"
proof -
  have p: "p2 (int j) = 2 ^ j" by (simp add: power_int_def)
  have "p2 (expo (p2 (int j))) \<le> p2 (int j)" by (rule expo_bounds(1)) simp
  then have "expo (p2 (int j)) \<le> int j" by (simp only: p2_le_iff)
  then have "p2 (int j) \<le> fl (p2 (int j))" by (intro fl_ge_p2) (simp_all add: ulp_exp_def)
  also have "\<dots> \<le> fl x" by (rule fl_mono) (use assms p in simp)
  finally show ?thesis unfolding p .
qed

lemma below_power: "\<exists>j. x < 2 ^ j" for x :: rat
proof -
  obtain n where "x < of_nat n" using reals_Archimedean2 by blast
  also have "\<dots> < 2 ^ n" by (rule of_nat_less_two_power)
  finally show ?thesis by blast
qed

lemma clock_passes: "\<exists>L. \<forall>t \<ge> L. limit < fl t" for limit :: rat
proof -
  obtain j where "limit < 2 ^ j" using below_power by blast
  then have "limit < fl t" if "2 ^ j \<le> t" for t using fl_above [OF that] by linarith
  then show ?thesis by blast
qed

lemma elapsed_passes:
  fixes start limit :: rat
  shows "\<exists>L. \<forall>t \<ge> L. limit < fl (fl t - start)"
proof -
  obtain j where j: "limit < 2 ^ j" using below_power by blast
  obtain k where k: "start + 2 ^ j < 2 ^ k" using below_power by blast
  have "limit < fl (fl t - start)" if "2 ^ k \<le> t" for t
  proof -
    have "2 ^ k \<le> fl t" by (rule fl_above [OF that])
    then have "2 ^ j \<le> fl t - start" using k by linarith
    then have "2 ^ j \<le> fl (fl t - start)" by (rule fl_above)
    with j show ?thesis by linarith
  qed
  then show ?thesis by blast
qed

lemma py_truediv_Inr:
  assumes "b \<noteq> 0" and "\<bar>of_int a / of_int b :: rat\<bar> \<le> 2 ^ 1023"
  shows "py_truediv a b = Inr (fl (of_int a / of_int b))"
  using fl_bound [OF assms(2)] assms(1) by (simp only: py_truediv_def Let_def if_False if_True)

lemma py_round_div_Inr:
  assumes "b \<noteq> 0" and "\<bar>of_int a / of_int b :: rat\<bar> \<le> 2 ^ 1023"
  shows "py_round_div a b = Inr (round_fl (of_int a / of_int b))"
  using fl_bound [OF assms(2)] assms(1)
  by (simp only: py_round_div_def py_truediv_def Let_def if_False if_True bind_res_simps round_fl_def)

lemma py_round_div_eq_Inr:
  assumes "py_round_div a b = Inr t"
  shows "t = round_fl (of_int a / of_int b)"
  using assms
  by (auto simp add: py_round_div_def py_truediv_def Let_def round_fl_def simp del: power_numeral split: if_splits)

end
