(* ===== verification/PyText.thy ===== *)
theory PyText
  imports Prelude
begin

text \<open>
  The text functions the command lines rely on: \<^verbatim>\<open>str.strip\<close>,
  \<^verbatim>\<open>str.split\<close>, \<^verbatim>\<open>sep.join\<close> and \<^verbatim>\<open>int(value, 0)\<close>, on
  strings of 8-bit characters.  The round trips say that what the tools print with
  \<^verbatim>\<open>str(n)\<close> and \<^verbatim>\<open>hex(n)\<close> the tools they start read back as the same number.
\<close>

section \<open>Stripping and splitting\<close>

definition is_space :: "char \<Rightarrow> bool" where
  "is_space c = (let n = of_char c :: nat in (9 \<le> n \<and> n \<le> 13) \<or> (28 \<le> n \<and> n \<le> 32) \<or> n = 133 \<or> n = 160)"

definition strip :: "string \<Rightarrow> string" where
  "strip s = rev (dropWhile is_space (rev (dropWhile is_space s)))"

fun split_on :: "char \<Rightarrow> string \<Rightarrow> string list" where
  "split_on sep [] = [[]]"
| "split_on sep (c # cs) =
     (if c = sep then [] # split_on sep cs
      else case split_on sep cs of [] \<Rightarrow> [[c]] | w # ws \<Rightarrow> (c # w) # ws)"

fun join :: "string \<Rightarrow> string list \<Rightarrow> string" where
  "join sep [] = []"
| "join sep [w] = w"
| "join sep (w # v # ws) = w @ sep @ join sep (v # ws)"

text \<open>\<^verbatim>\<open>value.split(":", 1)\<close> when the separator occurs.\<close>

definition split_first :: "char \<Rightarrow> string \<Rightarrow> string \<times> string" where
  "split_first sep s = (takeWhile (\<lambda>c. c \<noteq> sep) s, tl (dropWhile (\<lambda>c. c \<noteq> sep) s))"

lemma strip_id:
  assumes "\<forall>c \<in> set s. \<not> is_space c"
  shows "strip s = s"
proof -
  have d: "\<forall>c \<in> set t. \<not> is_space c \<Longrightarrow> dropWhile is_space t = t" for t
    by (cases t) auto
  have "dropWhile is_space s = s" using d [OF assms] .
  moreover have "dropWhile is_space (rev s) = rev s" using d [of "rev s"] assms by simp
  ultimately show ?thesis by (simp add: strip_def)
qed

lemma split_on_plain: "sep \<notin> set w \<Longrightarrow> split_on sep w = [w]"
  by (induction w) auto

lemma split_on_append: "sep \<notin> set w \<Longrightarrow> split_on sep (w @ sep # rest) = w # split_on sep rest"
  by (induction w) auto

lemma split_on_join:
  "ws \<noteq> [] \<Longrightarrow> \<forall>w \<in> set ws. sep \<notin> set w \<Longrightarrow> split_on sep (join [sep] ws) = ws"
proof (induction "[sep]" ws rule: join.induct)
  case 1
  then show ?case by simp
next
  case (2 w)
  then show ?case by (simp add: split_on_plain)
next
  case (3 w v ws)
  then show ?case by (simp add: split_on_append)
qed

lemma split_first_append: "sep \<notin> set w \<Longrightarrow> split_first sep (w @ sep # rest) = (w, rest)"
proof -
  assume "sep \<notin> set w"
  then have "\<forall>c \<in> set w. c \<noteq> sep" by auto
  then show ?thesis by (simp add: split_first_def takeWhile_append2 dropWhile_append2)
qed

section \<open>Integers in any base\<close>

definition digit_val :: "nat \<Rightarrow> char \<Rightarrow> nat option" where
  "digit_val b c =
     (let n = of_char c :: nat;
          v = (if 48 \<le> n \<and> n \<le> 57 then n - 48 else if 97 \<le> n \<and> n \<le> 122 then n - 87
               else if 65 \<le> n \<and> n \<le> 90 then n - 55 else 99)
      in if v < b then Some v else None)"

text \<open>Digits with single underscores between them; the accumulator holds the value so far.\<close>

fun more_digits :: "nat \<Rightarrow> nat \<Rightarrow> string \<Rightarrow> nat option" where
  "more_digits b acc [] = Some acc"
| "more_digits b acc [c] = (case digit_val b c of None \<Rightarrow> None | Some v \<Rightarrow> Some (acc * b + v))"
| "more_digits b acc (c # d # cs) =
     (if c = CHR ''_''
      then (case digit_val b d of None \<Rightarrow> None | Some v \<Rightarrow> more_digits b (acc * b + v) cs)
      else (case digit_val b c of None \<Rightarrow> None | Some v \<Rightarrow> more_digits b (acc * b + v) (d # cs)))"

definition parse_digits :: "nat \<Rightarrow> string \<Rightarrow> nat option" where
  "parse_digits b s = (case s of [] \<Rightarrow> None
     | c # cs \<Rightarrow> (case digit_val b c of None \<Rightarrow> None | Some v \<Rightarrow> more_digits b v cs))"

definition skip_underscore :: "string \<Rightarrow> string" where
  "skip_underscore s = (case s of [] \<Rightarrow> [] | c # cs \<Rightarrow> if c = CHR ''_'' then cs else s)"

definition parse_decimal :: "string \<Rightarrow> nat option" where
  "parse_decimal s = (case parse_digits 10 s of None \<Rightarrow> None
     | Some v \<Rightarrow> if hd s = CHR ''0'' \<and> v \<noteq> 0 then None else Some v)"

definition parse_prefixed :: "string \<Rightarrow> nat option" where
  "parse_prefixed s = (case s of
       z # c # cs \<Rightarrow>
         if z = CHR ''0'' \<and> (c = CHR ''x'' \<or> c = CHR ''X'') then parse_digits 16 (skip_underscore cs)
         else if z = CHR ''0'' \<and> (c = CHR ''o'' \<or> c = CHR ''O'') then parse_digits 8 (skip_underscore cs)
         else if z = CHR ''0'' \<and> (c = CHR ''b'' \<or> c = CHR ''B'') then parse_digits 2 (skip_underscore cs)
         else parse_decimal s
     | _ \<Rightarrow> parse_decimal s)"

definition int_auto :: "string \<Rightarrow> int res" where
  "int_auto value =
     (let s = strip value;
          (neg, t) = (case s of [] \<Rightarrow> (False, [])
             | c # cs \<Rightarrow> if c = CHR ''-'' then (True, cs) else if c = CHR ''+'' then (False, cs) else (False, s))
      in case parse_prefixed t of
           None \<Rightarrow> Inl (ValueError (''invalid literal for int() with base 0: '' @ value))
         | Some v \<Rightarrow> Inr (if neg then - int v else int v))"

section \<open>Printing and reading back\<close>

fun digs :: "nat \<Rightarrow> nat \<Rightarrow> nat list" where
  "digs b n = (if b < 2 \<or> n < b then [n] else digs b (n div b) @ [n mod b])"

declare digs.simps [simp del]

lemma digs_nonempty [simp]: "digs b n \<noteq> []"
  by (subst digs.simps) simp

lemma show_base_digs: "show_base b n = map digit_char (digs b n)"
proof (induction b n rule: digs.induct)
  case (1 b n)
  then show ?case by (subst show_base.simps, subst digs.simps) simp
qed

lemma digs_less: "2 \<le> b \<Longrightarrow> \<forall>d \<in> set (digs b n). d < b"
proof (induction b n rule: digs.induct)
  case (1 b n)
  then show ?case by (subst digs.simps) (auto split: if_splits)
qed

lemma digs_value: "2 \<le> b \<Longrightarrow> foldl (\<lambda>a d. a * b + d) 0 (digs b n) = n"
proof (induction b n rule: digs.induct)
  case (1 b n)
  then show ?case by (subst digs.simps) (auto split: if_splits)
qed

lemma digs_hd: "2 \<le> b \<Longrightarrow> 0 < n \<Longrightarrow> hd (digs b n) \<noteq> 0"
proof (induction b n rule: digs.induct)
  case (1 b n)
  then show ?case by (subst digs.simps) (auto simp: hd_append div_greater_zero_iff split: if_splits)
qed

lemma digit_char_facts:
  assumes "d < 16"
  shows "d < b \<Longrightarrow> digit_val b (digit_char d) = Some d"
    and "digit_char d \<notin> {CHR ''_'', CHR ''-'', CHR ''+'', CHR ''x'', CHR ''X'', CHR ''o'', CHR ''O'', CHR '':'', CHR '',''}"
    and "\<not> is_space (digit_char d)"
    and "digit_char d = CHR ''0'' \<longleftrightarrow> d = 0"
    and "d < 10 \<Longrightarrow> digit_char d \<notin> {CHR ''b'', CHR ''B''}"
proof -
  have "d \<in> {0, 1, 2, 3, 4, 5, 6, 7, 8, 9, 10, 11, 12, 13, 14, 15}"
    using assms unfolding insert_iff empty_iff by presburger
  then show "d < b \<Longrightarrow> digit_val b (digit_char d) = Some d"
    "digit_char d \<notin> {CHR ''_'', CHR ''-'', CHR ''+'', CHR ''x'', CHR ''X'', CHR ''o'', CHR ''O'', CHR '':'', CHR '',''}"
    "\<not> is_space (digit_char d)" "digit_char d = CHR ''0'' \<longleftrightarrow> d = 0"
    "d < 10 \<Longrightarrow> digit_char d \<notin> {CHR ''b'', CHR ''B''}"
    by (elim insertE emptyE; simp add: digit_char_def digit_val_def is_space_def)+
qed

lemma more_digits_plain:
  "b \<le> 16 \<Longrightarrow> \<forall>d \<in> set ds. d < b \<Longrightarrow>
     more_digits b acc (map digit_char ds) = Some (foldl (\<lambda>a d. a * b + d) acc ds)"
proof (induction ds arbitrary: acc)
  case Nil
  then show ?case by simp
next
  case (Cons d ds)
  then have d: "d < 16" "d < b" by auto
  show ?case
    using Cons digit_char_facts(1) [OF d] digit_char_facts(2) [OF d(1)]
    by (cases ds) auto
qed

lemma parse_digits_show:
  assumes "2 \<le> b" and "b \<le> 16"
  shows "parse_digits b (show_base b n) = Some n"
proof -
  obtain d ds where ds: "digs b n = d # ds" by (cases "digs b n") simp_all
  have lt: "d < b" "\<forall>d \<in> set ds. d < b" using digs_less [OF assms(1), of n] by (simp_all add: ds)
  have "foldl (\<lambda>a d. a * b + d) d ds = n" using digs_value [OF assms(1), of n] by (simp add: ds)
  then show ?thesis
    using more_digits_plain [OF assms(2) lt(2), of d] digit_char_facts(1) [of d b] lt(1) assms(2)
    by (simp add: parse_digits_def show_base_digs ds)
qed

lemma hd_show_base: "2 \<le> b \<Longrightarrow> b \<le> 16 \<Longrightarrow> 0 < n \<Longrightarrow> hd (show_base b n) \<noteq> CHR ''0''"
proof -
  assume b: "2 \<le> b" "b \<le> 16" "0 < n"
  have "hd (digs b n) < b" using digs_less [OF b(1), of n] hd_in_set [OF digs_nonempty] by blast
  then show ?thesis using digs_hd [OF b(1,3)] digit_char_facts(4) [of "hd (digs b n)"] b(2)
    by (simp add: show_base_digs hd_map)
qed

lemma show_base_nonempty [simp]: "show_base b n \<noteq> []"
  by (simp add: show_base_digs)

lemma show_base_chars:
  "2 \<le> b \<Longrightarrow> b \<le> 16 \<Longrightarrow> c \<in> set (show_base b n) \<Longrightarrow> \<exists>d < b. c = digit_char d"
  using digs_less [of b n] by (auto simp: show_base_digs)

lemma show_base_char_facts:
  assumes "2 \<le> b" and "b \<le> 16" and "c \<in> set (show_base b n)"
  shows "c \<notin> {CHR ''_'', CHR ''-'', CHR ''+'', CHR ''x'', CHR ''X'', CHR ''o'', CHR ''O'', CHR '':'', CHR '',''}"
    and "\<not> is_space c" and "b = 10 \<Longrightarrow> c \<notin> {CHR ''b'', CHR ''B''}"
proof -
  obtain d where d: "d < b" "c = digit_char d" using show_base_chars [OF assms] by blast
  then have "d < 16" using assms(2) by simp
  note f = digit_char_facts [OF this]
  show "c \<notin> {CHR ''_'', CHR ''-'', CHR ''+'', CHR ''x'', CHR ''X'', CHR ''o'', CHR ''O'', CHR '':'', CHR '',''}"
    unfolding d(2) by (rule f(2))
  show "\<not> is_space c" unfolding d(2) by (rule f(3))
  show "c \<notin> {CHR ''b'', CHR ''B''}" if "b = 10" unfolding d(2) by (rule f(5)) (use d that in simp)
qed

lemma parse_decimal_show: "parse_decimal (show_base 10 n) = Some n"
  using hd_show_base [of 10 n] by (auto simp: parse_decimal_def parse_digits_show)

lemma parse_prefixed_show: "parse_prefixed (show_base 10 n) = Some n"
proof (cases "\<exists>z c cs. show_base 10 n = z # c # cs")
  case True
  then obtain z c cs where s: "show_base 10 n = z # c # cs" by blast
  then have "c \<in> set (show_base 10 n)" by simp
  note f = show_base_char_facts(1,3) [OF _ _ this, simplified]
  from f have "parse_prefixed (z # c # cs) = parse_decimal (z # c # cs)"
    by (simp add: parse_prefixed_def)
  then show ?thesis using parse_decimal_show [of n] by (simp add: s)
next
  case False
  then have "parse_prefixed (show_base 10 n) = parse_decimal (show_base 10 n)"
    by (auto simp: parse_prefixed_def split: list.splits)
  then show ?thesis by (simp add: parse_decimal_show)
qed

lemma strip_digits: "2 \<le> b \<Longrightarrow> b \<le> 16 \<Longrightarrow> \<forall>c \<in> set s. \<not> is_space c \<Longrightarrow> strip (s @ show_base b n) = s @ show_base b n"
  using show_base_char_facts(2) [of b _ n] by (intro strip_id) auto

lemma show_base_no_sign:
  assumes "2 \<le> b" "b \<le> 16" "show_base b n = c # cs"
  shows "c \<noteq> CHR ''-''" and "c \<noteq> CHR ''+''"
  using show_base_char_facts(1) [OF assms(1,2), of c n] assms(3) by simp_all

lemma int_auto_show_int: "int_auto (show_int n) = Inr n"
proof (cases "n < 0")
  case True
  have "strip (''-'' @ show_base 10 (nat (- n))) = ''-'' @ show_base 10 (nat (- n))"
    by (rule strip_digits) (simp_all add: is_space_def)
  with True show ?thesis by (simp add: int_auto_def show_int_def parse_prefixed_show)
next
  case False
  obtain c cs where s: "show_base 10 (nat n) = c # cs" by (cases "show_base 10 (nat n)") simp_all
  have "strip (show_base 10 (nat n)) = show_base 10 (nat n)" using strip_digits [of 10 "[]" "nat n"] by simp
  with False show_base_no_sign [OF _ _ s] parse_prefixed_show [of "nat n"] show ?thesis
    by (simp add: int_auto_def show_int_def s)
qed

lemma int_auto_show_hex: "int_auto (show_hex n) = Inr n"
proof -
  have p: "parse_prefixed (CHR ''0'' # CHR ''x'' # show_base 16 m) = Some m" for m
  proof -
    obtain c cs where s: "show_base 16 m = c # cs" by (cases "show_base 16 m") simp_all
    have "c \<noteq> CHR ''_''" using show_base_char_facts(1) [of 16 c m] s by simp
    then have "skip_underscore (show_base 16 m) = show_base 16 m" by (simp add: skip_underscore_def s)
    then show ?thesis by (simp add: parse_prefixed_def parse_digits_show)
  qed
  have "strip (''0x'' @ show_base 16 m) = ''0x'' @ show_base 16 m" for m
    by (rule strip_digits) (simp_all add: is_space_def)
  moreover have "strip (''-0x'' @ show_base 16 m) = ''-0x'' @ show_base 16 m" for m
    by (rule strip_digits) (simp_all add: is_space_def)
  ultimately show ?thesis using p by (simp add: int_auto_def show_hex_def)
qed

lemma show_int_no_sep: "0 \<le> n \<Longrightarrow> c \<in> set (show_int n) \<Longrightarrow> c \<noteq> CHR '':'' \<and> c \<noteq> CHR '','' \<and> \<not> is_space c"
  using show_base_char_facts(1,2) [of 10 c "nat n"] by (simp add: show_int_def)

section \<open>Numbers in file names\<close>

lemma parse_digits_pad: "parse_digits 10 (pad_left w (CHR ''0'') (show_base 10 n)) = Some n"
proof -
  let ?ds = "replicate (w - length (show_base 10 n)) 0 @ digs 10 n"
  have z: "digit_char 0 = CHR ''0''" by (simp add: digit_char_def)
  have s: "pad_left w (CHR ''0'') (show_base 10 n) = map digit_char ?ds"
    by (simp add: pad_left_def show_base_digs z)
  obtain d ds where ds: "?ds = d # ds" by (cases ?ds) simp_all
  have "\<forall>d \<in> set ?ds. d < 10" using digs_less [of 10 n] by auto
  then have lt: "d < 10" "\<forall>d \<in> set ds. d < 10" by (simp_all add: ds)
  have "foldl (\<lambda>a d. a * 10 + d) (0 :: nat) (replicate k 0) = 0" for k by (induction k) simp_all
  then have "foldl (\<lambda>a d. a * 10 + d) 0 ?ds = n" using digs_value [of 10 n] by simp
  then have "foldl (\<lambda>a d. a * 10 + d) d ds = n" by (simp add: ds)
  then show ?thesis
    using more_digits_plain [OF _ lt(2), of d] digit_char_facts(1) [of d 10] lt(1)
    unfolding s ds by (simp add: parse_digits_def)
qed

definition basename :: "string \<Rightarrow> string" where
  "basename p = rev (takeWhile (\<lambda>c. c \<noteq> CHR ''/'') (rev p))"

lemma basename_append: "CHR ''/'' \<notin> set name \<Longrightarrow> basename (dir @ ''/'' @ name) = name"
proof -
  assume "CHR ''/'' \<notin> set name"
  then have "\<forall>c \<in> set (rev name). c \<noteq> CHR ''/''" by auto
  then have "takeWhile (\<lambda>c. c \<noteq> CHR ''/'') (rev name @ CHR ''/'' # rev dir) = rev name"
    by (subst takeWhile_append2) simp_all
  then show ?thesis by (simp add: basename_def)
qed

lemma show_base_no_slash: "2 \<le> b \<Longrightarrow> b \<le> 16 \<Longrightarrow> CHR ''/'' \<notin> set (show_base b n)"
proof
  assume b: "2 \<le> b" "b \<le> 16" and "CHR ''/'' \<in> set (show_base b n)"
  then obtain d where d: "d < b" "CHR ''/'' = digit_char d" using show_base_chars by blast
  then have "digit_val 16 (CHR ''/'') = Some d" using digit_char_facts(1) [of d 16] b by simp
  then show False by (simp add: digit_val_def)
qed

lemma show_int_inject: "show_int m = show_int n \<Longrightarrow> m = n"
proof -
  assume "show_int m = show_int n"
  then have "int_auto (show_int m) = int_auto (show_int n)" by simp
  then show ?thesis by (simp add: int_auto_show_int)
qed

end
