(* ===== verification/Pcap2Trace.thy ===== *)
theory Pcap2Trace
  imports TraceFormat PyFloat
begin

text \<open>
  software/pcap2trace.py: a classic capture file, read record by record, becomes descriptors and
  padded frames.  Definitions follow the script top to bottom; the file is the byte string that
  remains to be read, \<^verbatim>\<open>fh.read(n)\<close> is \<open>take n\<close> of it.  The specification
  (\<open>enc_pcap\<close>, \<open>conv_packets\<close>) says what file stands for which packets and what trace they become.
\<close>

section \<open>The capture header\<close>

datatype endian = Little | Big

definition un_int :: "endian \<Rightarrow> bytes \<Rightarrow> int" where
  "un_int e bs = (case e of Little \<Rightarrow> le_int bs | Big \<Rightarrow> be_int bs)"

record pcap_info =
  version_major :: int
  version_minor :: int
  snaplen :: int
  network :: int

definition read_global_header :: "bytes \<Rightarrow> (endian \<times> bool \<times> pcap_info \<times> bytes) res" where
  "read_global_header fh =
     (let header = take 24 fh; rest = drop 24 fh in
      if length header \<noteq> 24 then Inl (ValueError ''pcap global header is truncated'')
      else
        let magic = take 4 header in
        bind_res
          (if magic = [0xd4, 0xc3, 0xb2, 0xa1] then Inr (Little, False)
           else if magic = [0xa1, 0xb2, 0xc3, 0xd4] then Inr (Big, False)
           else if magic = [0x4d, 0x3c, 0xb2, 0xa1] then Inr (Little, True)
           else if magic = [0xa1, 0xb2, 0x3c, 0x4d] then Inr (Big, True)
           else Inl (ValueError ''only classic pcap is supported; pcapng is not supported yet''))
          (\<lambda>(endian, ns_resolution).
             let u = (\<lambda>a b. un_int endian (pyslice a b header)) in
             Inr (endian, ns_resolution,
               \<lparr> version_major = u 4 6, version_minor = u 6 8, snaplen = u 16 20, network = u 20 24 \<rparr>,
               rest)))"

definition timestamp_to_ns :: "int \<Rightarrow> int \<Rightarrow> bool \<Rightarrow> int" where
  "timestamp_to_ns sec sub_sec ns_resolution =
     (if ns_resolution then sec * 1000000000 + sub_sec else sec * 1000000000 + sub_sec * 1000)"

section \<open>The conversion loop\<close>

record pcap_args =
  pa_tick_hz :: int
  pa_min_frame :: int
  pa_keep_fcs :: bool

record pcap_rec =
  r_sec :: int
  r_frac :: int
  r_orig_len :: int
  r_payload :: bytes

text \<open>One record header and its payload off the front of the file; \<open>None\<close> at the end of it.\<close>

definition read_pcap_record :: "endian \<Rightarrow> bytes \<Rightarrow> (pcap_rec \<times> bytes) option res" where
  "read_pcap_record e fh =
     (let rec_hdr = take 16 fh; rest = drop 16 fh in
      if rec_hdr = [] then Inr None
      else if length rec_hdr \<noteq> 16 then Inl (ValueError ''packet record header is truncated'')
      else
        let u = (\<lambda>a b. un_int e (pyslice a b rec_hdr));
            incl_len = nat (u 8 12);
            payload = take incl_len rest
        in if length payload \<noteq> incl_len then Inl (ValueError ''packet payload is truncated'')
           else Inr (Some (\<lparr> r_sec = u 0 4, r_frac = u 4 8, r_orig_len = u 12 16,
                             r_payload = payload \<rparr>, drop incl_len rest)))"

record conv_state =
  pkt_count :: int
  prev_ts_ns :: "int option"
  prev_target_tick :: int
  first_ts_ns :: "int option"
  total_wire_bytes :: int
  max_frame_len :: int
  conv_out :: trace_out

definition conv_init :: conv_state where
  "conv_init = \<lparr> pkt_count = 0, prev_ts_ns = None, prev_target_tick = 0, first_ts_ns = None,
     total_wire_bytes = 0, max_frame_len = 0, conv_out = empty_trace \<rparr>"

text \<open>The body of the loop after a record has been read: gap, frame, descriptor, counters.\<close>

definition convert_packet :: "pcap_args \<Rightarrow> bool \<Rightarrow> pcap_rec \<Rightarrow> conv_state \<Rightarrow> conv_state res" where
  "convert_packet args ns_resolution r st =
     (let ts_ns = timestamp_to_ns (r_sec r) (r_frac r) ns_resolution;
          first = (case first_ts_ns st of None \<Rightarrow> ts_ns | Some f \<Rightarrow> f)
      in bind_res
        (case prev_ts_ns st of
           None \<Rightarrow> Inr (0, prev_target_tick st)
         | Some _ \<Rightarrow>
             let relative_ns = max 0 (ts_ns - first) in
             bind_res (py_round_div (relative_ns * pa_tick_hz args) 1000000000) (\<lambda>t.
             let target_tick = max (prev_target_tick st) t in
             Inr (target_tick - prev_target_tick st, target_tick)))
        (\<lambda>(gap_ticks, prev_target).
          let payload = r_payload r;
              frame0 = (if pa_keep_fcs args then payload else take (nat (r_orig_len r)) payload)
          in bind_res
            (if int (length frame0) < pa_min_frame args
             then bind_res (zeros (pa_min_frame args - int (length frame0))) (\<lambda>z. Inr (frame0 @ z))
             else Inr frame0)
            (\<lambda>frame.
              let frame_len = int (length frame) in
              if frame_len > 0xffff
              then Inl (ValueError (''frame too large for descriptor: '' @ show_int frame_len @ '' bytes''))
              else bind_res (emit_packet gap_ticks frame frame_len (conv_out st)) (\<lambda>out.
                Inr \<lparr> pkt_count = pkt_count st + 1,
                      prev_ts_ns = Some ts_ns,
                      prev_target_tick = prev_target,
                      first_ts_ns = Some first,
                      total_wire_bytes = total_wire_bytes st + frame_len,
                      max_frame_len = max (max_frame_len st) frame_len,
                      conv_out = out \<rparr>))))"

lemma read_pcap_record_shrinks:
  "read_pcap_record e fh = Inr (Some (r, rest)) \<Longrightarrow> length rest < length fh"
  by (auto simp: read_pcap_record_def Let_def split: if_splits)

function convert_loop :: "pcap_args \<Rightarrow> endian \<Rightarrow> bool \<Rightarrow> conv_state \<Rightarrow> bytes \<Rightarrow> conv_state res" where
  "convert_loop args e ns_resolution st fh =
     (case read_pcap_record e fh of
        Inl err \<Rightarrow> Inl err
      | Inr None \<Rightarrow> Inr st
      | Inr (Some (r, rest)) \<Rightarrow>
          bind_res (convert_packet args ns_resolution r st) (\<lambda>st'. convert_loop args e ns_resolution st' rest))"
  by pat_completeness auto
termination
  by (relation "measure (\<lambda>(args, e, ns, st, fh). length fh)") (auto dest: read_pcap_record_shrinks)

declare convert_loop.simps [simp del]

text \<open>The manifest's counters, and the whole script: files and manifest, or the exception.\<close>

record trace_manifest =
  m_tick_hz :: int
  m_packet_count :: int
  m_data_bytes_aligned :: int
  m_total_frame_bytes :: int
  m_max_frame_len :: int
  m_first_timestamp_ns :: "int option"
  m_pcap_info :: pcap_info

definition pcap2trace_main :: "pcap_args \<Rightarrow> bytes \<Rightarrow> (trace_out \<times> trace_manifest) res" where
  "pcap2trace_main args pcap =
     bind_res (read_global_header pcap) (\<lambda>(endian, ns_resolution, info, fh).
     bind_res (convert_loop args endian ns_resolution conv_init fh) (\<lambda>st.
     Inr (conv_out st,
       \<lparr> m_tick_hz = pa_tick_hz args, m_packet_count = pkt_count st,
         m_data_bytes_aligned = tr_words (conv_out st) * DATA_BEAT_BYTES,
         m_total_frame_bytes = total_wire_bytes st, m_max_frame_len = max_frame_len st,
         m_first_timestamp_ns = first_ts_ns st, m_pcap_info = info \<rparr>)))"

section \<open>The file a list of captured packets stands for\<close>

definition en_bytes :: "endian \<Rightarrow> nat \<Rightarrow> int \<Rightarrow> bytes" where
  "en_bytes e w v = (case e of Little \<Rightarrow> le_bytes w v | Big \<Rightarrow> be_bytes w v)"

definition pcap_magic :: "endian \<Rightarrow> bool \<Rightarrow> bytes" where
  "pcap_magic e ns = en_bytes e 4 (if ns then 0xa1b23c4d else 0xa1b2c3d4)"

definition enc_pcap_header :: "endian \<Rightarrow> bool \<Rightarrow> pcap_info \<Rightarrow> bytes" where
  "enc_pcap_header e ns i = pcap_magic e ns @ en_bytes e 2 (version_major i) @ en_bytes e 2 (version_minor i)
     @ en_bytes e 4 0 @ en_bytes e 4 0 @ en_bytes e 4 (snaplen i) @ en_bytes e 4 (network i)"

definition enc_pcap_record :: "endian \<Rightarrow> pcap_rec \<Rightarrow> bytes" where
  "enc_pcap_record e r = en_bytes e 4 (r_sec r) @ en_bytes e 4 (r_frac r)
     @ en_bytes e 4 (int (length (r_payload r))) @ en_bytes e 4 (r_orig_len r) @ r_payload r"

definition enc_pcap :: "endian \<Rightarrow> bool \<Rightarrow> pcap_info \<Rightarrow> pcap_rec list \<Rightarrow> bytes" where
  "enc_pcap e ns i rs = enc_pcap_header e ns i @ concat (map (enc_pcap_record e) rs)"

definition pcap_rec_valid :: "pcap_rec \<Rightarrow> bool" where
  "pcap_rec_valid r \<longleftrightarrow> 0 \<le> r_sec r \<and> r_sec r < 2 ^ 32 \<and> 0 \<le> r_frac r \<and> r_frac r < 2 ^ 32
     \<and> 0 \<le> r_orig_len r \<and> r_orig_len r < 2 ^ 32 \<and> length (r_payload r) < 2 ^ 32"

definition pcap_info_valid :: "pcap_info \<Rightarrow> bool" where
  "pcap_info_valid i \<longleftrightarrow> 0 \<le> version_major i \<and> version_major i < 2 ^ 16
     \<and> 0 \<le> version_minor i \<and> version_minor i < 2 ^ 16 \<and> 0 \<le> snaplen i \<and> snaplen i < 2 ^ 32
     \<and> 0 \<le> network i \<and> network i < 2 ^ 32"

lemma length_en_bytes [simp]: "length (en_bytes e w v) = w"
  by (cases e) (simp_all add: en_bytes_def)

lemma un_int_en_bytes [codec_simps]: "0 \<le> v \<Longrightarrow> v < 256 ^ w \<Longrightarrow> un_int e (en_bytes e w v) = v"
  by (cases e) (simp_all add: en_bytes_def un_int_def codec_simps)

lemma read_pcap_record_Nil [simp]: "read_pcap_record e [] = Inr None"
  by (simp add: read_pcap_record_def)

lemma read_pcap_record_enc:
  assumes "pcap_rec_valid r"
  shows "read_pcap_record e (enc_pcap_record e r @ rest) = Inr (Some (r, rest))"
proof -
  have "length (en_bytes e 4 v) = 4" for v by simp
  then have ne: "en_bytes e 4 v \<noteq> []" for v by (metis list.size(3) zero_neq_numeral)
  show ?thesis
    using assms ne
    by (simp add: read_pcap_record_def enc_pcap_record_def Let_def pyslice_def pcap_rec_valid_def codec_simps)
qed

interpretation pcap: record_loop "enc_pcap_record e" pcap_rec_valid "read_pcap_record e"
    "convert_packet args ns" "convert_loop args e ns"
  for e args ns
  by unfold_locales (simp_all add: read_pcap_record_enc convert_loop.simps [of args e ns])

lemma pcap_magic_values:
  "pcap_magic Little False = [0xd4, 0xc3, 0xb2, 0xa1]" "pcap_magic Big False = [0xa1, 0xb2, 0xc3, 0xd4]"
  "pcap_magic Little True = [0x4d, 0x3c, 0xb2, 0xa1]" "pcap_magic Big True = [0xa1, 0xb2, 0x3c, 0x4d]"
  by code_simp+

lemma read_global_header_enc:
  assumes "pcap_info_valid i"
  shows "read_global_header (enc_pcap_header e ns i @ rest) = Inr (e, ns, i, rest)"
proof -
  have "length (pcap_magic e ns) = 4" by (simp add: pcap_magic_def)
  then show ?thesis
    using assms pcap_magic_values
    by (cases e; cases ns)
      (simp_all add: read_global_header_def enc_pcap_header_def Let_def pyslice_def pcap_info_valid_def codec_simps)
qed


section \<open>The trace a capture becomes\<close>

definition rec_ns :: "bool \<Rightarrow> pcap_rec \<Rightarrow> int" where
  "rec_ns ns r = timestamp_to_ns (r_sec r) (r_frac r) ns"

definition frame_of :: "pcap_args \<Rightarrow> pcap_rec \<Rightarrow> bytes" where
  "frame_of args r =
     (let f = (if pa_keep_fcs args then r_payload r else take (nat (r_orig_len r)) (r_payload r))
      in f @ replicate (nat (pa_min_frame args - int (length f))) 0)"

text \<open>The tick of a packet \<open>rel\<close> nanoseconds after the first, before the monotone clamp.\<close>

definition tick_of :: "int \<Rightarrow> int \<Rightarrow> int" where
  "tick_of hz rel = round_fl (of_int (rel * hz) / of_int 1000000000)"

definition rel_tick :: "pcap_args \<Rightarrow> bool \<Rightarrow> pcap_rec \<Rightarrow> pcap_rec \<Rightarrow> int" where
  "rel_tick args ns r0 r = tick_of (pa_tick_hz args) (max 0 (rec_ns ns r - rec_ns ns r0))"

text \<open>Gaps are the increments of the running maximum of the ticks.\<close>

fun gaps_from :: "int \<Rightarrow> int list \<Rightarrow> int list" where
  "gaps_from p [] = []"
| "gaps_from p (t # ts) = (max p t - p) # gaps_from (max p t) ts"

fun conv_packets :: "pcap_args \<Rightarrow> bool \<Rightarrow> pcap_rec list \<Rightarrow> packet list" where
  "conv_packets args ns [] = []"
| "conv_packets args ns (r0 # rs) =
     (0, frame_of args r0) # zip (gaps_from 0 (map (rel_tick args ns r0) rs)) (map (frame_of args) rs)"

lemma length_gaps_from [simp]: "length (gaps_from p ts) = length ts"
  by (induction ts arbitrary: p) simp_all

lemma gaps_from_append:
  "gaps_from p (ts @ us) = gaps_from p ts @ gaps_from (p + sum_list (gaps_from p ts)) us"
  by (induction ts arbitrary: p) simp_all

lemma gaps_from_nonneg: "g \<in> set (gaps_from p ts) \<Longrightarrow> 0 \<le> g"
  by (induction ts arbitrary: p) auto

text \<open>The gaps telescope to the running maximum.\<close>

lemma sum_gaps_from: "p + sum_list (gaps_from p ts) = foldl max p ts"
  by (induction ts arbitrary: p) (simp_all add: add.assoc [symmetric])

lemma length_conv_packets [simp]: "length (conv_packets args ns rs) = length rs"
  by (cases rs) simp_all

lemma map_snd_conv_packets: "map snd (conv_packets args ns rs) = map (frame_of args) rs"
  by (cases rs) simp_all

lemma conv_packets_fst_nonneg: "p \<in> set (conv_packets args ns rs) \<Longrightarrow> 0 \<le> fst p"
  by (cases p; cases rs) (auto dest!: set_zip_leftD gaps_from_nonneg)

definition gap_sum :: "packet list \<Rightarrow> int" where
  "gap_sum ps = sum_list (map fst ps)"

lemma gap_sum_simps [simp]:
  "gap_sum [] = 0" "gap_sum (p # ps) = fst p + gap_sum ps" "gap_sum (ps @ qs) = gap_sum ps + gap_sum qs"
  by (simp_all add: gap_sum_def)

lemma conv_packets_single: "conv_packets args ns [r] = [(0, frame_of args r)]"
  by simp

lemma conv_packets_snoc:
  assumes "rs \<noteq> []"
  shows "conv_packets args ns (rs @ [r]) = conv_packets args ns rs
     @ [(max (gap_sum (conv_packets args ns rs)) (rel_tick args ns (hd rs) r)
          - gap_sum (conv_packets args ns rs), frame_of args r)]"
proof -
  obtain r0 rs' where rs: "rs = r0 # rs'" using assms by (cases rs) auto
  let ?ts = "map (rel_tick args ns r0) rs'"
  have "gap_sum (conv_packets args ns rs) = sum_list (gaps_from 0 ?ts)"
    by (simp add: rs gap_sum_def)
  then show ?thesis by (simp add: rs gaps_from_append zip_append)
qed

text \<open>The step in normal form: the padding never fails, the frame is \<open>frame_of\<close>.\<close>

lemma convert_packet_eq:
  "convert_packet args ns r st =
     bind_res
       (case prev_ts_ns st of None \<Rightarrow> Inr (0, prev_target_tick st)
        | Some _ \<Rightarrow> bind_res (py_round_div
             (max 0 (rec_ns ns r - (case first_ts_ns st of None \<Rightarrow> rec_ns ns r | Some f \<Rightarrow> f)) * pa_tick_hz args) 1000000000)
             (\<lambda>t. Inr (max (prev_target_tick st) t - prev_target_tick st, max (prev_target_tick st) t)))
       (\<lambda>(gap, prev_target).
          if 0xffff < int (length (frame_of args r))
          then Inl (ValueError (''frame too large for descriptor: ''
                 @ show_int (int (length (frame_of args r))) @ '' bytes''))
          else bind_res (emit_packet gap (frame_of args r) (int (length (frame_of args r))) (conv_out st)) (\<lambda>out.
            Inr \<lparr> pkt_count = pkt_count st + 1, prev_ts_ns = Some (rec_ns ns r),
                  prev_target_tick = prev_target,
                  first_ts_ns = Some (case first_ts_ns st of None \<Rightarrow> rec_ns ns r | Some f \<Rightarrow> f),
                  total_wire_bytes = total_wire_bytes st + int (length (frame_of args r)),
                  max_frame_len = max (max_frame_len st) (int (length (frame_of args r))),
                  conv_out = out \<rparr>))"
proof -
  let ?f = "if pa_keep_fcs args then r_payload r else take (nat (r_orig_len r)) (r_payload r)"
  have pad: "(if int (length ?f) < pa_min_frame args
      then bind_res (zeros (pa_min_frame args - int (length ?f))) (\<lambda>z. Inr (?f @ z)) else Inr ?f)
    = Inr (frame_of args r)"
    by (simp add: frame_of_def Let_def)
  show ?thesis
    unfolding convert_packet_def Let_def rec_ns_def [symmetric] pad bind_res_simps by (rule refl)
qed

text \<open>
  The simulation: the converter's state after the records \<open>rs\<close> is determined by the trace they
  become.  Its \<open>prev_target_tick\<close> is the sum of the gaps written so far.
\<close>

definition conv_rel :: "pcap_args \<Rightarrow> bool \<Rightarrow> pcap_rec list \<Rightarrow> conv_state \<Rightarrow> bool" where
  "conv_rel args ns rs st \<longleftrightarrow>
     (let ps = conv_packets args ns rs in
      trace_ok ps \<and> conv_out st = trace_of ps \<and> pkt_count st = int (length rs)
      \<and> prev_target_tick st = gap_sum ps
      \<and> total_wire_bytes st = sum_list (map (int \<circ> length \<circ> snd) ps)
      \<and> max_frame_len st = foldl max 0 (map (int \<circ> length \<circ> snd) ps)
      \<and> first_ts_ns st = (if rs = [] then None else Some (rec_ns ns (hd rs)))
      \<and> prev_ts_ns st = (if rs = [] then None else Some (rec_ns ns (last rs))))"

lemma conv_rel_init: "conv_rel args ns [] conv_init"
  by (simp add: conv_rel_def conv_init_def trace_of_Nil)

lemma conv_rel_step:
  assumes "conv_rel args ns rs st" and "convert_packet args ns r st = Inr st'"
  shows "conv_rel args ns (rs @ [r]) st'"
proof (cases "rs = []")
  case True
  with assms show ?thesis
    by (auto simp: conv_rel_def convert_packet_eq res_simps emit_packet_trace_of trace_ok_snoc [of "[]", simplified]
        split: if_splits)
next
  case False
  with assms show ?thesis
    by (auto simp: conv_rel_def convert_packet_eq res_simps emit_packet_trace_of conv_packets_snoc Let_def
        trace_ok_snoc rel_tick_def tick_of_def dest!: py_round_div_eq_Inr split: if_splits)
qed

lemma conv_rel_fold:
  "fold_res (convert_packet args ns) rs st = Inr st' \<Longrightarrow> conv_rel args ns done st
     \<Longrightarrow> conv_rel args ns (done @ rs) st'"
proof (induction rs arbitrary: st "done")
  case Nil
  then show ?case by simp
next
  case (Cons r rs)
  from Cons.prems(1) obtain st1 where "convert_packet args ns r st = Inr st1"
    "fold_res (convert_packet args ns) rs st1 = Inr st'" by (auto simp: res_simps)
  with Cons.IH [of st1 "done @ [r]"] conv_rel_step Cons.prems(2) show ?case by simp
qed

lemma convert_file:
  assumes "\<forall>r \<in> set rs. pcap_rec_valid r" and "pcap_info_valid i"
  shows "pcap2trace_main args (enc_pcap e ns i rs) =
     bind_res (fold_res (convert_packet args ns) rs conv_init) (\<lambda>st.
       Inr (conv_out st,
         \<lparr> m_tick_hz = pa_tick_hz args, m_packet_count = pkt_count st,
           m_data_bytes_aligned = tr_words (conv_out st) * 64,
           m_total_frame_bytes = total_wire_bytes st, m_max_frame_len = max_frame_len st,
           m_first_timestamp_ns = first_ts_ns st, m_pcap_info = i \<rparr>))"
  using assms
  by (simp add: pcap2trace_main_def enc_pcap_def read_global_header_enc pcap.loop_file)

section \<open>When the conversion succeeds\<close>

lemma rec_ns_bounds: "pcap_rec_valid r \<Longrightarrow> 0 \<le> rec_ns ns r \<and> rec_ns ns r < 2 ^ 32 * 1000001000"
  by (auto simp: pcap_rec_valid_def rec_ns_def timestamp_to_ns_def)

lemma rel_tick_bounds:
  assumes "pcap_rec_valid r0" "pcap_rec_valid r" "0 \<le> pa_tick_hz args" "pa_tick_hz args \<le> 2 ^ 30"
  shows "0 \<le> rel_tick args ns r0 r" and "rel_tick args ns r0 r \<le> 2 ^ 63"
    and "py_round_div (max 0 (rec_ns ns r - rec_ns ns r0) * pa_tick_hz args) 1000000000
      = Inr (rel_tick args ns r0 r)"
proof -
  let ?rel = "max 0 (rec_ns ns r - rec_ns ns r0)"
  let ?n = "?rel * pa_tick_hz args"
  let ?q = "of_int ?n / of_int 1000000000 :: rat"
  have rel: "0 \<le> ?rel" "?rel \<le> 2 ^ 32 * 1000001000"
    using rec_ns_bounds [OF assms(1), of ns] rec_ns_bounds [OF assms(2), of ns] by auto
  have "0 \<le> ?n" using rel(1) assms(3) by simp
  moreover have "?n \<le> 2 ^ 32 * 1000001000 * 2 ^ 30"
    using rel assms(3,4) by (intro mult_mono) simp_all
  ultimately have n: "0 \<le> ?n" "?n \<le> 2 ^ 63 * 1000000000" by simp_all
  have q0: "0 \<le> ?q" using n(1) by (simp only: of_int_0_le_iff zero_le_divide_iff) simp
  have "(of_int ?n :: rat) \<le> of_int (2 ^ 63 * 1000000000)" using n(2) by (simp only: of_int_le_iff)
  then have q: "?q \<le> 2 ^ 63" by (simp add: divide_le_eq)
  have q': "\<bar>?q\<bar> \<le> 2 ^ 1023"
  proof -
    have "(2 :: rat) ^ 63 \<le> 2 ^ 1023" by (rule power_increasing) simp_all
    with q q0 show ?thesis by linarith
  qed
  show "0 \<le> rel_tick args ns r0 r" unfolding rel_tick_def tick_of_def by (rule round_fl_nonneg [OF q0])
  show "rel_tick args ns r0 r \<le> 2 ^ 63" unfolding rel_tick_def tick_of_def by (rule round_fl_le_p2 [OF q])
  show "py_round_div ?n 1000000000 = Inr (rel_tick args ns r0 r)"
    unfolding rel_tick_def tick_of_def by (rule py_round_div_Inr [OF _ q']) simp
qed

definition pcap_fits :: "pcap_args \<Rightarrow> pcap_rec list \<Rightarrow> bool" where
  "pcap_fits args rs \<longleftrightarrow> 0 \<le> pa_tick_hz args \<and> pa_tick_hz args \<le> 2 ^ 30
     \<and> (\<forall>r \<in> set rs. pcap_rec_valid r \<and> length (frame_of args r) \<le> 65535)
     \<and> sum_list (map (beats \<circ> frame_of args) rs) < 2 ^ 32"

lemma total_beats_conv: "total_beats (conv_packets args ns rs) = sum_list (map (beats \<circ> frame_of args) rs)"
proof -
  have "total_beats (conv_packets args ns rs) = sum_list (map beats (map snd (conv_packets args ns rs)))"
    by (simp add: total_beats_def)
  then show ?thesis by (simp add: map_snd_conv_packets)
qed

lemma pcap_fits_snocD: "pcap_fits args (rs @ [r]) \<Longrightarrow> pcap_fits args rs"
proof -
  assume a: "pcap_fits args (rs @ [r])"
  have "0 \<le> beats (frame_of args r)" by (rule beats_nonneg)
  moreover have "sum_list (map (beats \<circ> frame_of args) (rs @ [r])) < 2 ^ 32"
    using a unfolding pcap_fits_def by blast
  ultimately have "sum_list (map (beats \<circ> frame_of args) rs) < 2 ^ 32"
    unfolding map_append sum_list_append list.map sum_list.Cons sum_list.Nil o_apply by linarith
  with a show ?thesis by (simp add: pcap_fits_def)
qed

lemma gap_sum_conv_nonneg: "0 \<le> gap_sum (conv_packets args ns rs)"
  unfolding gap_sum_def by (rule sum_list_nonneg) (auto dest: conv_packets_fst_nonneg)

lemma convert_packet_succeeds:
  assumes "conv_rel args ns rs st" and fits: "pcap_fits args (rs @ [r])"
  shows "\<exists>st'. convert_packet args ns r st = Inr st'"
proof -
  let ?ps = "conv_packets args ns rs"
  have w: "total_beats ?ps < 2 ^ 32"
    using pcap_fits_snocD [OF fits] by (simp add: total_beats_conv pcap_fits_def)
  have len: "length (frame_of args r) \<le> 65535" using fits by (simp add: pcap_fits_def)
  have emit: "emit_packet g (frame_of args r) (int (length (frame_of args r))) (trace_of ?ps)
      = Inr (trace_of (?ps @ [(g, frame_of args r)]))" if "0 \<le> g" "g < 2 ^ 64" for g
    using w len that by (simp add: emit_packet_trace_of packet_ok_def)
  show ?thesis
  proof (cases "rs = []")
    case True
    with assms(1) len emit [of 0] show ?thesis by (simp add: convert_packet_eq conv_rel_def)
  next
    case False
    then have "hd rs \<in> set rs" by simp
    then have v: "pcap_rec_valid (hd rs)" "pcap_rec_valid r"
      and hz: "0 \<le> pa_tick_hz args" "pa_tick_hz args \<le> 2 ^ 30"
      using fits by (auto simp: pcap_fits_def)
    note t = rel_tick_bounds [OF v hz, of ns]
    have "emit_packet (max (gap_sum ?ps) (rel_tick args ns (hd rs) r) - gap_sum ?ps) (frame_of args r)
        (int (length (frame_of args r))) (trace_of ?ps)
      = Inr (trace_of (?ps @ [(max (gap_sum ?ps) (rel_tick args ns (hd rs) r) - gap_sum ?ps, frame_of args r)]))"
      by (rule emit) (use t gap_sum_conv_nonneg [of args ns rs] in \<open>auto simp: max_def\<close>)
    with False assms(1) len t(3) show ?thesis by (simp add: convert_packet_eq conv_rel_def Let_def)
  qed
qed

lemma convert_succeeds: "pcap_fits args rs \<Longrightarrow> \<exists>st. fold_res (convert_packet args ns) rs conv_init = Inr st"
proof (induction rs rule: rev_induct)
  case Nil
  then show ?case by simp
next
  case (snoc r rs)
  from snoc.IH [OF pcap_fits_snocD [OF snoc.prems]]
  obtain st where st: "fold_res (convert_packet args ns) rs conv_init = Inr st" by blast
  have "conv_rel args ns rs st" using conv_rel_fold [OF st conv_rel_init] by simp
  from convert_packet_succeeds [OF this snoc.prems] st show ?case by (auto simp: fold_res_append)
qed

section \<open>The properties of the converter\<close>

lemma convert_result:
  assumes "\<forall>r \<in> set rs. pcap_rec_valid r" and "pcap_info_valid i"
    and "pcap2trace_main args (enc_pcap e ns i rs) = Inr (out, m)"
  shows "trace_ok (conv_packets args ns rs)" and "out = trace_of (conv_packets args ns rs)"
    and "m_packet_count m = int (length rs)" and "m_data_bytes_aligned m = tr_words out * 64"
    and "m_total_frame_bytes m = sum_list (map (int \<circ> length \<circ> frame_of args) rs)"
    and "m_first_timestamp_ns m = (if rs = [] then None else Some (rec_ns ns (hd rs)))"
    and "m_pcap_info m = i"
proof -
  from assms obtain st where st: "fold_res (convert_packet args ns) rs conv_init = Inr st"
    and out: "out = conv_out st" and m: "m = \<lparr> m_tick_hz = pa_tick_hz args, m_packet_count = pkt_count st,
           m_data_bytes_aligned = tr_words (conv_out st) * 64,
           m_total_frame_bytes = total_wire_bytes st, m_max_frame_len = max_frame_len st,
           m_first_timestamp_ns = first_ts_ns st, m_pcap_info = i \<rparr>"
    by (auto simp: convert_file res_simps)
  have rel: "conv_rel args ns rs st" using conv_rel_fold [OF st conv_rel_init] by simp
  have "map (int \<circ> length \<circ> snd) (conv_packets args ns rs)
      = map (int \<circ> length) (map snd (conv_packets args ns rs))" by simp
  also have "\<dots> = map (int \<circ> length \<circ> frame_of args) rs" by (simp add: map_snd_conv_packets)
  finally have lens: "map (int \<circ> length \<circ> snd) (conv_packets args ns rs) = map (int \<circ> length \<circ> frame_of args) rs" .
  from rel lens show "trace_ok (conv_packets args ns rs)" "out = trace_of (conv_packets args ns rs)"
    "m_packet_count m = int (length rs)" "m_data_bytes_aligned m = tr_words out * 64"
    "m_total_frame_bytes m = sum_list (map (int \<circ> length \<circ> frame_of args) rs)"
    "m_first_timestamp_ns m = (if rs = [] then None else Some (rec_ns ns (hd rs)))" "m_pcap_info m = i"
    by (simp_all add: conv_rel_def Let_def out m)
qed

definition demo_args :: pcap_args where
  "demo_args = \<lparr> pa_tick_hz = 300000000, pa_min_frame = 0, pa_keep_fcs = False \<rparr>"

definition demo_info :: pcap_info where
  "demo_info = \<lparr> version_major = 2, version_minor = 4, snaplen = 65535, network = 1 \<rparr>"

definition demo_recs :: "pcap_rec list" where
  "demo_recs =
     [\<lparr> r_sec = 1, r_frac = 5, r_orig_len = 3, r_payload = [1, 2, 3] \<rparr>,
      \<lparr> r_sec = 1, r_frac = 7, r_orig_len = 70, r_payload = replicate 70 9 \<rparr>]"

lemma demo_valid: "\<forall>r \<in> set demo_recs. pcap_rec_valid r" "pcap_info_valid demo_info"
  by (simp_all add: demo_recs_def demo_info_def pcap_rec_valid_def pcap_info_valid_def)

lemma demo_fits: "pcap_fits demo_args demo_recs"
  by (simp add: pcap_fits_def demo_args_def demo_recs_def frame_of_def pcap_rec_valid_def beats_def align_up_def)

lemma pcap2trace_converts:
  assumes "pcap_fits args rs" and "pcap_info_valid i"
  shows "\<exists>out m. pcap2trace_main args (enc_pcap e ns i rs) = Inr (out, m)
     \<and> trace_packets (tr_desc_file out) (tr_data_file out) = conv_packets args ns rs
     \<and> out = trace_of (conv_packets args ns rs) \<and> trace_ok (conv_packets args ns rs)"
proof -
  have v: "\<forall>r \<in> set rs. pcap_rec_valid r" using assms(1) by (simp add: pcap_fits_def)
  from convert_succeeds [OF assms(1), of ns]
  obtain st where "fold_res (convert_packet args ns) rs conv_init = Inr st" by blast
  then obtain out m where ok: "pcap2trace_main args (enc_pcap e ns i rs) = Inr (out, m)"
    by (simp add: convert_file [OF v assms(2)])
  note r = convert_result [OF v assms(2) ok]
  from ok r(1,2) show ?thesis by (auto simp: trace_packets_trace_of)
qed

text \<open>C7: A capture of well-formed records (header, byte order and timestamp resolution of any of the
  four classic kinds) whose frames fit a descriptor converts without an exception, and the two trace
  files, read back descriptor by descriptor, hold exactly the captured packets in order: each frame
  truncated and padded as the options ask, each gap the increment of the running maximum of the
  ticks; the file lengths and the manifest's counters agree with them.\<close>

theorem pcap2trace_roundtrip:
  assumes "pcap_fits args rs" and "pcap_info_valid i"
  shows "\<exists>out m. pcap2trace_main args (enc_pcap e ns i rs) = Inr (out, m)
     \<and> trace_packets (tr_desc_file out) (tr_data_file out) = conv_packets args ns rs
     \<and> length (tr_desc_file out) = 64 * length rs
     \<and> int (length (tr_data_file out)) = m_data_bytes_aligned m
     \<and> m_packet_count m = int (length rs)
     \<and> m_total_frame_bytes m = sum_list (map (int \<circ> length \<circ> frame_of args) rs)
     \<and> m_first_timestamp_ns m = (if rs = [] then None else Some (rec_ns ns (hd rs)))"
proof -
  have v: "\<forall>r \<in> set rs. pcap_rec_valid r" using assms(1) by (simp add: pcap_fits_def)
  from convert_succeeds [OF assms(1), of ns]
  obtain st where "fold_res (convert_packet args ns) rs conv_init = Inr st" by blast
  then obtain out m where ok: "pcap2trace_main args (enc_pcap e ns i rs) = Inr (out, m)"
    by (simp add: convert_file [OF v assms(2)])
  note r = convert_result [OF v assms(2) ok]
  have "int (length (tr_data_file out)) = m_data_bytes_aligned m"
    unfolding r(4) r(2) by (simp add: trace_of_def length_data_of)
  with ok r(1,3,5,6) show ?thesis
    unfolding r(2) by (auto simp: trace_packets_trace_of length_desc_file)
qed

theorem pcap2trace_roundtrip_witness:
  "\<exists>out m. pcap2trace_main demo_args (enc_pcap Big False demo_info demo_recs) = Inr (out, m)
     \<and> trace_packets (tr_desc_file out) (tr_data_file out) = [(0, [1, 2, 3]), (600, replicate 70 9)]"
proof -
  have "conv_packets demo_args False demo_recs = [(0, [1, 2, 3]), (600, replicate 70 9)]" by code_simp
  with pcap2trace_roundtrip [OF demo_fits demo_valid(2), of Big False] show ?thesis by auto
qed

lemma foldl_max_sorted: "sorted ts \<Longrightarrow> \<forall>t \<in> set ts. p \<le> t \<Longrightarrow> foldl max p ts = last (p # ts)"
  by (induction ts arbitrary: p) (auto simp: max_def)

lemma gap_sum_sorted:
  assumes "sorted (map (rel_tick args ns r0) rs)" and "\<forall>r \<in> set rs. 0 \<le> rel_tick args ns r0 r"
  shows "gap_sum (conv_packets args ns (r0 # rs)) = last (0 # map (rel_tick args ns r0) rs)"
proof -
  have "gap_sum (conv_packets args ns (r0 # rs)) = 0 + sum_list (gaps_from 0 (map (rel_tick args ns r0) rs))"
    by (simp add: gap_sum_def)
  also have "\<dots> = foldl max 0 (map (rel_tick args ns r0) rs)" by (rule sum_gaps_from)
  finally show ?thesis using foldl_max_sorted [of "map (rel_tick args ns r0) rs" 0] assms by simp
qed

lemma take_gaps_from: "take n (gaps_from p ts) = gaps_from p (take n ts)"
  by (induction ts arbitrary: p n) (auto simp: take_Cons' split: nat.splits)

lemma take_conv_packets: "take n (conv_packets args ns rs) = conv_packets args ns (take n rs)"
  by (cases rs; cases n) (simp_all add: take_zip take_map take_gaps_from)

lemma rel_tick_mono:
  assumes "0 \<le> pa_tick_hz args" and "rec_ns ns r \<le> rec_ns ns r'"
  shows "rel_tick args ns r0 r \<le> rel_tick args ns r0 r'"
proof -
  have "max 0 (rec_ns ns r - rec_ns ns r0) * pa_tick_hz args
      \<le> max 0 (rec_ns ns r' - rec_ns ns r0) * pa_tick_hz args"
    by (rule mult_right_mono) (use assms in auto)
  then show ?thesis
    unfolding rel_tick_def tick_of_def
    by (intro round_fl_mono divide_right_mono) (simp only: of_int_le_iff, simp)
qed

lemma sorted_rel_tick:
  "0 \<le> pa_tick_hz args \<Longrightarrow> sorted (map (rec_ns ns) rs) \<Longrightarrow> sorted (map (rel_tick args ns r0) rs)"
  by (induction rs) (auto intro: rel_tick_mono)

text \<open>The exact position of a packet on the tick grid, before any rounding.\<close>

definition exact_tick :: "pcap_args \<Rightarrow> bool \<Rightarrow> pcap_rec \<Rightarrow> pcap_rec \<Rightarrow> rat" where
  "exact_tick args ns r0 r = of_int ((rec_ns ns r - rec_ns ns r0) * pa_tick_hz args) / of_int 1000000000"

lemma rel_tick_error:
  assumes "0 \<le> pa_tick_hz args" and "rec_ns ns r0 \<le> rec_ns ns r"
  shows "\<bar>of_int (rel_tick args ns r0 r) - exact_tick args ns r0 r\<bar> \<le> 1 / 2 + exact_tick args ns r0 r / 2 ^ 53"
proof -
  have "(0 :: rat) \<le> of_int ((rec_ns ns r - rec_ns ns r0) * pa_tick_hz args)"
    using assms by (simp only: of_int_0_le_iff) simp
  then have "0 \<le> exact_tick args ns r0 r" unfolding exact_tick_def by (rule divide_nonneg_nonneg) simp
  moreover have "rel_tick args ns r0 r = round_fl (exact_tick args ns r0 r)"
    using assms(2) by (simp add: rel_tick_def tick_of_def exact_tick_def)
  ultimately show ?thesis using round_fl_error [of "exact_tick args ns r0 r"] by simp
qed

lemma gap_sum_take:
  assumes "0 \<le> pa_tick_hz args" and "sorted (map (rec_ns ns) rs)" and "k < length rs"
  shows "gap_sum (take (Suc k) (conv_packets args ns rs)) = rel_tick args ns (rs ! 0) (rs ! k)"
proof -
  obtain r0 rs' where rs: "rs = r0 # rs'" using assms(3) by (cases rs) auto
  have sorted': "sorted (map (rec_ns ns) (take k rs'))"
    using assms(2) by (simp add: rs sorted_wrt_take flip: take_map)
  have nn: "\<forall>r \<in> set (take k rs'). 0 \<le> rel_tick args ns r0 r"
  proof
    fix r assume "r \<in> set (take k rs')"
    then have "rec_ns ns r0 \<le> rec_ns ns r" using assms(2) by (auto simp: rs dest: in_set_takeD)
    then have "rel_tick args ns r0 r0 \<le> rel_tick args ns r0 r" by (rule rel_tick_mono [OF assms(1)])
    then show "0 \<le> rel_tick args ns r0 r" by (simp add: rel_tick_def tick_of_def)
  qed
  have "gap_sum (take (Suc k) (conv_packets args ns rs)) = last (0 # map (rel_tick args ns r0) (take k rs'))"
    using gap_sum_sorted [OF sorted_rel_tick [OF assms(1) sorted'] nn]
    unfolding rs take_conv_packets take_Suc_Cons .
  also have "\<dots> = rel_tick args ns r0 (rs ! k)"
  proof (cases k)
    case 0
    then show ?thesis by (simp add: rs rel_tick_def tick_of_def)
  next
    case (Suc j)
    then have "take k rs' \<noteq> []" "last (take k rs') = rs' ! j"
      using assms(3) by (auto simp: rs take_Suc_conv_app_nth)
    then show ?thesis using Suc by (simp add: rs last_map)
  qed
  finally show ?thesis by (simp add: rs)
qed

text \<open>C4: No drift.  In the trace of a capture with non-decreasing timestamps, the gaps of the first k + 1
  packets add up to the tick of packet k: the sum is within half a tick, plus the relative error
  2^-53 of the one float division, of the packet's exact offset from the first packet.  The error
  of a packet's send time does not grow with the number of packets before it.\<close>

theorem pcap2trace_no_drift:
  assumes "pcap_fits args rs" and "pcap_info_valid i"
    and "pcap2trace_main args (enc_pcap e ns i rs) = Inr (out, m)"
    and "sorted (map (rec_ns ns) rs)" and "k < length rs"
  shows "\<bar>of_int (gap_sum (take (Suc k) (trace_packets (tr_desc_file out) (tr_data_file out))))
       - exact_tick args ns (rs ! 0) (rs ! k)\<bar>
     \<le> 1 / 2 + exact_tick args ns (rs ! 0) (rs ! k) / 2 ^ 53"
proof -
  have v: "\<forall>r \<in> set rs. pcap_rec_valid r" and hz: "0 \<le> pa_tick_hz args"
    using assms(1) by (simp_all add: pcap_fits_def)
  note r = convert_result [OF v assms(2,3)]
  have "0 < length rs" using assms(5) by linarith
  then have "rec_ns ns (rs ! 0) \<le> rec_ns ns (rs ! k)"
    using sorted_nth_mono [OF assms(4), of 0 k] assms(5) by (simp add: nth_map)
  from rel_tick_error [OF hz this] show ?thesis
    unfolding r(2) trace_packets_trace_of [OF r(1)] gap_sum_take [OF hz assms(4,5)] .
qed

theorem pcap2trace_no_drift_witness:
  "\<exists>out m. pcap2trace_main demo_args (enc_pcap Little True demo_info demo_recs) = Inr (out, m)
     \<and> \<bar>of_int (gap_sum (take 2 (trace_packets (tr_desc_file out) (tr_data_file out)))) - 6 / 10\<bar>
         \<le> 1 / 2 + (6 / 10 :: rat) / 2 ^ 53"
proof -
  have v: "\<forall>r \<in> set demo_recs. pcap_rec_valid r" using demo_fits by (simp add: pcap_fits_def)
  from convert_succeeds [OF demo_fits, of True]
  obtain out m where ok: "pcap2trace_main demo_args (enc_pcap Little True demo_info demo_recs) = Inr (out, m)"
    by (auto simp: convert_file [OF v demo_valid(2)])
  have e: "exact_tick demo_args True (demo_recs ! 0) (demo_recs ! 1) = 6 / 10"
    by (simp add: demo_args_def demo_recs_def exact_tick_def rec_ns_def timestamp_to_ns_def)
  have "sorted (map (rec_ns True) demo_recs)" "1 < length demo_recs"
    by (simp_all add: demo_recs_def rec_ns_def timestamp_to_ns_def)
  from pcap2trace_no_drift [OF demo_fits demo_valid(2) ok this] ok show ?thesis
    unfolding e by (auto simp: numeral_2_eq_2)
qed

section \<open>Errors and options\<close>

lemma length_enc_pcap_record: "length (enc_pcap_record e r) = 16 + length (r_payload r)"
  by (simp add: enc_pcap_record_def)

lemma read_pcap_record_cut:
  assumes "pcap_rec_valid r" and "0 < n" and "n < length (enc_pcap_record e r)"
  shows "read_pcap_record e (take n (enc_pcap_record e r))
     = Inl (ValueError (if n < 16 then ''packet record header is truncated'' else ''packet payload is truncated''))"
proof (cases "n < 16")
  case True
  then have "length (take n (enc_pcap_record e r)) = n" using assms(3) by simp
  moreover from this have "take n (enc_pcap_record e r) \<noteq> []" using assms(2) by auto
  ultimately show ?thesis using True by (simp add: read_pcap_record_def Let_def)
next
  case False
  define hdr where "hdr = en_bytes e 4 (r_sec r) @ en_bytes e 4 (r_frac r)
     @ en_bytes e 4 (int (length (r_payload r))) @ en_bytes e 4 (r_orig_len r)"
  have hdr: "length hdr = 16" by (simp add: hdr_def)
  have cut: "take n (enc_pcap_record e r) = hdr @ take (n - 16) (r_payload r)"
    using False by (simp add: enc_pcap_record_def hdr_def)
  have "un_int e (pyslice 8 12 hdr) = int (length (r_payload r))"
    using assms(1) by (simp add: hdr_def pyslice_def pcap_rec_valid_def codec_simps)
  then show ?thesis
    using False assms(3) hdr unfolding cut
    by (auto simp: read_pcap_record_def Let_def length_enc_pcap_record)
qed

text \<open>C28: A capture cut anywhere inside its last record is rejected with the error of the part that is
  incomplete (record header, or payload), whatever well-formed records come before: no trace of a
  silently shortened capture is reported as a success.\<close>

theorem pcap2trace_truncated:
  assumes "pcap_fits args rs" and "pcap_info_valid i" and "pcap_rec_valid r"
    and "0 < n" and "n < length (enc_pcap_record e r)"
  shows "pcap2trace_main args (enc_pcap e ns i rs @ take n (enc_pcap_record e r))
     = Inl (ValueError (if n < 16 then ''packet record header is truncated'' else ''packet payload is truncated''))"
proof -
  have v: "\<forall>r \<in> set rs. pcap_rec_valid r" using assms(1) by (simp add: pcap_fits_def)
  from convert_succeeds [OF assms(1), of ns]
  obtain st where st: "fold_res (convert_packet args ns) rs conv_init = Inr st" by blast
  have "convert_loop args e ns st (take n (enc_pcap_record e r))
    = Inl (ValueError (if n < 16 then ''packet record header is truncated'' else ''packet payload is truncated''))"
    by (simp add: convert_loop.simps [of args e ns st] read_pcap_record_cut [OF assms(3-5)])
  then show ?thesis
    by (simp add: pcap2trace_main_def enc_pcap_def read_global_header_enc [OF assms(2)]
        pcap.loop_records [OF v] st)
qed

theorem pcap2trace_truncated_witness:
  "pcap2trace_main demo_args (enc_pcap Little False demo_info demo_recs @ take 18 (enc_pcap_record Little (demo_recs ! 0)))
     = Inl (ValueError ''packet payload is truncated'')"
proof -
  have "pcap_rec_valid (demo_recs ! 0)" "18 < length (enc_pcap_record Little (demo_recs ! 0))"
    using demo_valid by (simp_all add: demo_recs_def length_enc_pcap_record)
  from pcap2trace_truncated [OF demo_fits demo_valid(2) this(1) _ this(2)] show ?thesis by simp
qed

text \<open>The option \<^verbatim>\<open>--keep-fcs\<close> changes nothing on a capture whose records hold at most the
  original length: the truncation it switches off never removes a byte there, so the four FCS bytes
  of a capture that has them stay in the frame with and without the option.\<close>

theorem pcap2trace_keep_fcs_no_effect:
  assumes "\<forall>r \<in> set rs. pcap_rec_valid r \<and> int (length (r_payload r)) \<le> r_orig_len r"
    and "pcap_info_valid i"
  shows "pcap2trace_main (args\<lparr>pa_keep_fcs := True\<rparr>) (enc_pcap e ns i rs)
       = pcap2trace_main (args\<lparr>pa_keep_fcs := False\<rparr>) (enc_pcap e ns i rs)"
proof -
  have v: "\<forall>r \<in> set rs. pcap_rec_valid r" using assms(1) by blast
  have step: "convert_packet (args\<lparr>pa_keep_fcs := True\<rparr>) ns r st
      = convert_packet (args\<lparr>pa_keep_fcs := False\<rparr>) ns r st" if "r \<in> set rs" for r st
  proof -
    have "length (r_payload r) \<le> nat (r_orig_len r)" using assms(1) that by force
    then have t: "take (nat (r_orig_len r)) (r_payload r) = r_payload r" by simp
    have fr: "frame_of (args\<lparr>pa_keep_fcs := True\<rparr>) r = frame_of (args\<lparr>pa_keep_fcs := False\<rparr>) r"
      by (simp add: frame_of_def t)
    have hz: "pa_tick_hz (args\<lparr>pa_keep_fcs := b\<rparr>) = pa_tick_hz args" for b by simp
    show ?thesis unfolding convert_packet_eq fr hz by (rule refl)
  qed
  have "fold_res (convert_packet (args\<lparr>pa_keep_fcs := True\<rparr>) ns) rs st
      = fold_res (convert_packet (args\<lparr>pa_keep_fcs := False\<rparr>) ns) rs st" for st
    by (rule fold_res_cong) (rule step)
  then show ?thesis by (simp add: convert_file [OF v assms(2)])
qed

theorem pcap2trace_keep_fcs_no_effect_witness:
  "pcap2trace_main (demo_args\<lparr>pa_keep_fcs := True\<rparr>) (enc_pcap Little False demo_info demo_recs)
     = pcap2trace_main (demo_args\<lparr>pa_keep_fcs := False\<rparr>) (enc_pcap Little False demo_info demo_recs)"
  by (rule pcap2trace_keep_fcs_no_effect [OF _ demo_valid(2)]) (use demo_valid in \<open>simp add: demo_recs_def\<close>)

end
