(* ===== verification/SynthTrace.thy ===== *)
theory SynthTrace
  imports TraceFormat Complex_Main
begin

text \<open>
  software/gen_synthetic_trace.py: a trace of equal frames, either with a fixed gap or paced to a
  wire rate.  The rate is a \<^verbatim>\<open>Fraction\<close>, so the pacing is exact rational arithmetic; its
  lowest-terms numerator and denominator are \<open>quotient_of\<close>.
\<close>

section \<open>The script\<close>

record synth_args =
  sy_packet_count :: int
  sy_frame_len :: int
  sy_gap_ticks :: int
  sy_wire_rate_gbps :: "rat option"
  sy_overhead :: int
  sy_tick_hz :: int
  sy_seed :: int

definition make_frame :: "int \<Rightarrow> int \<Rightarrow> int \<Rightarrow> bytes" where
  "make_frame index frame_len seed = map (\<lambda>i. byte_of (seed + index * 17 + int i)) [0..<nat frame_len]"

record synth_state =
  ss_out :: trace_out
  ss_total_frame_bytes :: int
  ss_prev_tick :: int
  ss_gap_min :: "int option"
  ss_gap_max :: "int option"

definition synth_init :: synth_state where
  "synth_init = \<lparr> ss_out = empty_trace, ss_total_frame_bytes = 0, ss_prev_tick = 0,
     ss_gap_min = None, ss_gap_max = None \<rparr>"

definition paced_tick :: "synth_args \<Rightarrow> rat \<Rightarrow> int \<Rightarrow> int" where
  "paced_tick args bps pkt_idx =
     (let (num, den) = quotient_of bps;
          wire_bits = (sy_frame_len args + sy_overhead args) * 8;
          target_numerator = pkt_idx * wire_bits * sy_tick_hz args * den;
          target_denominator = num
      in (target_numerator + target_denominator div 2) div target_denominator)"

definition synth_packet :: "synth_args \<Rightarrow> rat option \<Rightarrow> nat \<Rightarrow> synth_state \<Rightarrow> synth_state res" where
  "synth_packet args wire_rate_bps pkt_idx st =
     (let (gap_ticks, prev_tick) =
            (case wire_rate_bps of
               None \<Rightarrow> (sy_gap_ticks args, ss_prev_tick st)
             | Some bps \<Rightarrow>
                 let target_tick = paced_tick args bps (int pkt_idx)
                 in (target_tick - ss_prev_tick st, target_tick))
      in bind_res (emit_packet gap_ticks (make_frame (int pkt_idx) (sy_frame_len args) (sy_seed args))
                     (sy_frame_len args) (ss_out st)) (\<lambda>out.
         Inr \<lparr> ss_out = out,
               ss_total_frame_bytes = ss_total_frame_bytes st + sy_frame_len args,
               ss_prev_tick = prev_tick,
               ss_gap_min = Some (case ss_gap_min st of None \<Rightarrow> gap_ticks | Some g \<Rightarrow> min g gap_ticks),
               ss_gap_max = Some (case ss_gap_max st of None \<Rightarrow> gap_ticks | Some g \<Rightarrow> max g gap_ticks) \<rparr>))"

definition wire_rate_bps :: "synth_args \<Rightarrow> rat option res" where
  "wire_rate_bps args =
     (case sy_wire_rate_gbps args of
        None \<Rightarrow> Inr None
      | Some gbps \<Rightarrow> if gbps * 1000000000 \<le> 0 then Inl (SystemExit ''--wire-rate-gbps must be positive'')
                     else Inr (Some (gbps * 1000000000)))"

definition gen_synthetic_trace_main :: "synth_args \<Rightarrow> synth_state res" where
  "gen_synthetic_trace_main args =
     (if sy_packet_count args \<le> 0 then Inl (SystemExit ''--packet-count must be positive'')
      else if sy_frame_len args \<le> 0 \<or> sy_frame_len args > 0xFFFF
      then Inl (SystemExit ''--frame-len must be in the range 1..65535'')
      else if sy_overhead args < 0 then Inl (SystemExit ''--wire-overhead-bytes must be non-negative'')
      else bind_res (wire_rate_bps args) (\<lambda>bps.
        fold_res (synth_packet args bps) [0..<nat (sy_packet_count args)] synth_init))"

section \<open>The schedule\<close>

text \<open>The exact interval between two packets at the wire rate, in ticks.\<close>

definition wire_step :: "synth_args \<Rightarrow> rat \<Rightarrow> rat" where
  "wire_step args bps = of_int ((sy_frame_len args + sy_overhead args) * 8 * sy_tick_hz args) / bps"

lemma paced_tick_floor:
  assumes "0 < bps"
  obtains c where "0 \<le> c" "c \<le> 1 / 2" "1 / 2 \<le> c + 1 / (2 * of_int (fst (quotient_of bps)))"
    and "\<And>i. paced_tick args bps i = \<lfloor>of_int i * wire_step args bps + c\<rfloor>"
proof -
  obtain num den where q: "quotient_of bps = (num, den)" by (cases "quotient_of bps")
  have den: "0 < den" using quotient_of_denom_pos [OF q] .
  have bps: "bps = of_int num / of_int den" using quotient_of_div [OF q] .
  have num: "0 < num"
  proof -
    have "0 < (of_int num :: rat)" using assms den unfolding bps by (simp add: zero_less_divide_iff)
    then show ?thesis by simp
  qed
  let ?c = "of_int (num div 2) / of_int num :: rat"
  have half: "2 * (num div 2) \<le> num" "num \<le> 2 * (num div 2) + 1" by presburger+
  have r: "2 * (of_int (num div 2) :: rat) \<le> of_int num" "(of_int num :: rat) \<le> 2 * of_int (num div 2) + 1"
    using half by linarith+
  have n0: "0 < (of_int num :: rat)" using num by simp
  show thesis
  proof (rule that [of ?c])
    show "0 \<le> ?c" using num by (intro divide_nonneg_nonneg) (simp_all add: pos_imp_zdiv_nonneg_iff)
    show "?c \<le> 1 / 2" using r(1) n0 by (simp add: field_simps)
    show "1 / 2 \<le> ?c + 1 / (2 * of_int (fst (quotient_of bps)))" using r(2) n0 by (simp add: q field_simps)
    fix i
    have "of_int i * wire_step args bps
        = of_int (i * ((sy_frame_len args + sy_overhead args) * 8) * sy_tick_hz args * den) / of_int num"
      unfolding wire_step_def bps using n0 den by (simp add: field_simps)
    then have "of_int i * wire_step args bps + ?c
        = of_int (i * ((sy_frame_len args + sy_overhead args) * 8) * sy_tick_hz args * den + num div 2) / of_int num"
      by (simp add: add_divide_distrib)
    then show "paced_tick args bps i = \<lfloor>of_int i * wire_step args bps + ?c\<rfloor>"
      by (simp only: paced_tick_def q Let_def prod.case floor_divide_of_int_eq)
  qed
qed

lemma paced_tick_0: "0 < bps \<Longrightarrow> paced_tick args bps 0 = 0"
proof -
  assume "0 < bps"
  then obtain c where "0 \<le> c" "c \<le> 1 / 2" "\<And>i. paced_tick args bps i = \<lfloor>of_int i * wire_step args bps + c\<rfloor>"
    using paced_tick_floor by metis
  then show ?thesis by (simp add: floor_eq_iff)
qed

lemma abs_le_halfI: "2 * x \<le> y \<Longrightarrow> - y \<le> 2 * x \<Longrightarrow> \<bar>x\<bar> \<le> y / 2" for x y :: rat
  by linarith

lemma nearest_div:
  assumes "0 < d"
  shows "\<bar>of_int ((n + d div 2) div d) - of_int n / (of_int d :: rat)\<bar> \<le> 1 / 2"
proof -
  define t where "t = (n + d div 2) div d"
  define r where "r = (n + d div 2) mod d"
  define h where "h = d div 2"
  define m where "m = t * d"
  have "m + r = n + h" by (simp add: t_def r_def h_def m_def)
  moreover have "0 \<le> r" "r < d" using assms by (simp_all add: r_def)
  moreover have "2 * h \<le> d" "d \<le> 2 * h + 1" unfolding h_def by presburger+
  ultimately have "2 * (m - n) \<le> d" "- d \<le> 2 * (m - n)" by (simp_all add: algebra_simps)
  then have "2 * (t * d - n) \<le> d" "- d \<le> 2 * (t * d - n)" by (simp_all add: m_def)
  then have "of_int (2 * (t * d - n)) \<le> (of_int d :: rat)" "of_int (- d) \<le> (of_int (2 * (t * d - n)) :: rat)"
    by (simp_all only: of_int_le_iff)
  then have "\<bar>of_int t * of_int d - of_int n :: rat\<bar> \<le> of_int d / 2"
    unfolding of_int_mult of_int_diff of_int_minus of_int_numeral by (rule abs_le_halfI)
  moreover have "of_int t - of_int n / of_int d = (of_int t * of_int d - of_int n) / (of_int d :: rat)"
    using assms by (simp add: field_simps)
  ultimately show ?thesis using assms by (simp add: abs_divide divide_le_eq flip: t_def)
qed

text \<open>Each target is a nearest tick, and two neighbours differ by the interval rounded down or up.\<close>

lemma paced_tick_nearest:
  assumes "0 < bps"
  shows "\<bar>of_int (paced_tick args bps i) - of_int i * wire_step args bps\<bar> \<le> 1 / 2"
proof -
  obtain num den where q: "quotient_of bps = (num, den)" by (cases "quotient_of bps")
  have bps: "bps = of_int num / of_int den" and den: "0 < den"
    using quotient_of_div [OF q] quotient_of_denom_pos [OF q] by auto
  have num: "0 < num" using assms den by (simp add: bps zero_less_divide_iff)
  let ?n = "i * ((sy_frame_len args + sy_overhead args) * 8) * sy_tick_hz args * den"
  have t: "paced_tick args bps i = (?n + num div 2) div num" by (simp add: paced_tick_def q Let_def)
  have x: "of_int i * wire_step args bps = of_int ?n / of_int num"
    unfolding wire_step_def bps using den num by (simp add: field_simps)
  show ?thesis unfolding t x by (rule nearest_div [OF num])
qed

lemma floor_step: "\<lfloor>a + s\<rfloor> - \<lfloor>a\<rfloor> = \<lfloor>s\<rfloor> \<or> \<lfloor>a + s\<rfloor> - \<lfloor>a\<rfloor> = \<lceil>s\<rceil>" for a s :: rat
proof -
  have a: "of_int \<lfloor>a\<rfloor> \<le> a" "a < of_int \<lfloor>a\<rfloor> + 1" by linarith+
  show ?thesis
  proof (cases "s = of_int \<lfloor>s\<rfloor>")
    case True
    then obtain z where "s = of_int z" by blast
    then show ?thesis by simp
  next
    case False
    then have "\<lceil>s\<rceil> = \<lfloor>s\<rfloor> + 1" by (simp add: ceiling_altdef)
    moreover have "\<lfloor>a + s\<rfloor> = \<lfloor>a\<rfloor> + \<lfloor>s\<rfloor> \<or> \<lfloor>a + s\<rfloor> = \<lfloor>a\<rfloor> + \<lfloor>s\<rfloor> + 1" by linarith
    ultimately show ?thesis by linarith
  qed
qed

lemma paced_tick_increment:
  assumes "0 < bps"
  shows "paced_tick args bps (i + 1) - paced_tick args bps i \<in> {\<lfloor>wire_step args bps\<rfloor>, \<lceil>wire_step args bps\<rceil>}"
proof -
  obtain c where c: "\<And>i. paced_tick args bps i = \<lfloor>of_int i * wire_step args bps + c\<rfloor>"
    using paced_tick_floor [OF assms] by metis
  have "paced_tick args bps (i + 1) = \<lfloor>(of_int i * wire_step args bps + c) + wire_step args bps\<rfloor>"
    unfolding c by (simp add: algebra_simps)
  then show ?thesis using floor_step [of "of_int i * wire_step args bps + c" "wire_step args bps"] c [of i]
    by simp
qed

section \<open>The trace that is written\<close>

definition synth_gap :: "synth_args \<Rightarrow> rat option \<Rightarrow> nat \<Rightarrow> int" where
  "synth_gap args bps i = (case bps of None \<Rightarrow> sy_gap_ticks args
     | Some b \<Rightarrow> increments (\<lambda>i. paced_tick args b (int i)) i)"

definition synth_pk :: "synth_args \<Rightarrow> rat option \<Rightarrow> nat \<Rightarrow> packet" where
  "synth_pk args bps i = (synth_gap args bps i, make_frame (int i) (sy_frame_len args) (sy_seed args))"

definition synth_upd :: "synth_args \<Rightarrow> rat option \<Rightarrow> nat \<Rightarrow> synth_state \<Rightarrow> trace_out \<Rightarrow> synth_state" where
  "synth_upd args bps i st out = \<lparr> ss_out = out,
     ss_total_frame_bytes = ss_total_frame_bytes st + sy_frame_len args,
     ss_prev_tick = (case bps of None \<Rightarrow> 0 | Some b \<Rightarrow> paced_tick args b (int i)),
     ss_gap_min = Some (case ss_gap_min st of None \<Rightarrow> synth_gap args bps i | Some g \<Rightarrow> min g (synth_gap args bps i)),
     ss_gap_max = Some (case ss_gap_max st of None \<Rightarrow> synth_gap args bps i | Some g \<Rightarrow> max g (synth_gap args bps i)) \<rparr>"

definition synth_inv :: "synth_args \<Rightarrow> rat option \<Rightarrow> nat \<Rightarrow> synth_state \<Rightarrow> bool" where
  "synth_inv args bps n st \<longleftrightarrow> 0 < sy_frame_len args
     \<and> ss_prev_tick st = (case bps of None \<Rightarrow> 0 | Some b \<Rightarrow> if n = 0 then 0 else paced_tick args b (int (n - 1)))
     \<and> ss_total_frame_bytes st = int n * sy_frame_len args
     \<and> ss_gap_min st = (if n = 0 then None else Some (Min (synth_gap args bps ` {..<n})))
     \<and> ss_gap_max st = (if n = 0 then None else Some (Max (synth_gap args bps ` {..<n})))"

lemma length_make_frame [simp]: "length (make_frame i n sd) = nat n"
  by (simp add: make_frame_def)

lemma synth_packet_step:
  assumes "synth_inv args bps i st"
  shows "synth_packet args bps i st =
     (case emit_packet (fst (synth_pk args bps i)) (snd (synth_pk args bps i))
             (int (length (snd (synth_pk args bps i)))) (ss_out st) of
        Inl e \<Rightarrow> Inl StructError | Inr out' \<Rightarrow> Inr (synth_upd args bps i st out'))"
proof -
  let ?f = "make_frame (int i) (sy_frame_len args) (sy_seed args)"
  have len: "int (length ?f) = sy_frame_len args" using assms by (simp add: synth_inv_def)
  have err: "emit_packet g ?f (sy_frame_len args) (ss_out st) = Inl e \<Longrightarrow> e = StructError" for g e
    using emit_packet_eq_Inl [of g ?f "ss_out st" e] unfolding len by simp
  have pair: "(case bps of None \<Rightarrow> (sy_gap_ticks args, ss_prev_tick st)
       | Some bps \<Rightarrow> let target_tick = paced_tick args bps (int i)
            in (target_tick - ss_prev_tick st, target_tick))
     = (synth_gap args bps i, case bps of None \<Rightarrow> 0 | Some b \<Rightarrow> paced_tick args b (int i))"
    using assms by (cases bps; cases i) (simp_all add: synth_inv_def synth_gap_def increments_def Let_def)
  have pk: "fst (synth_pk args bps i) = synth_gap args bps i" "snd (synth_pk args bps i) = ?f"
    by (simp_all add: synth_pk_def)
  show ?thesis
    unfolding synth_packet_def pair unfolding pk len Let_def prod.case
    by (cases "emit_packet (synth_gap args bps i) ?f (sy_frame_len args) (ss_out st)")
      (auto simp: synth_upd_def dest: err)
qed

lemma Min_Max_lessThan_Suc:
  assumes "0 < (i :: nat)"
  shows "Min ((f :: nat \<Rightarrow> int) ` {..<Suc i}) = min (f i) (Min (f ` {..<i}))"
    and "Max ((f :: nat \<Rightarrow> int) ` {..<Suc i}) = max (f i) (Max (f ` {..<i}))"
proof -
  have "f ` {..<i} \<noteq> {}" using assms by (simp add: lessThan_empty_iff)
  then have "Min (insert (f i) (f ` {..<i})) = min (f i) (Min (f ` {..<i}))"
    "Max (insert (f i) (f ` {..<i})) = max (f i) (Max (f ` {..<i}))"
    by (intro Min_insert Max_insert; simp)+
  then show "Min (f ` {..<Suc i}) = min (f i) (Min (f ` {..<i}))"
    "Max (f ` {..<Suc i}) = max (f i) (Max (f ` {..<i}))"
    by (simp_all only: lessThan_Suc image_insert)
qed

lemma synth_inv_upd:
  assumes "synth_inv args bps i st"
  shows "synth_inv args bps (Suc i) (synth_upd args bps i st out)"
  using assms
  by (cases "i = 0")
    (auto simp: synth_inv_def synth_upd_def Min_Max_lessThan_Suc lessThan_Suc [of 0] min.commute max.commute algebra_simps split: option.splits)

lemma synth_upd_out [simp]: "ss_out (synth_upd args bps i st out) = out"
  by (simp add: synth_upd_def)

interpretation synth: trace_writer "synth_pk args bps" "synth_packet args bps" ss_out
    "synth_upd args bps" "synth_inv args bps" StructError
  for args bps
  by unfold_locales (simp_all add: synth_packet_step synth_inv_upd)

lemma synth_inv_init: "0 < sy_frame_len args \<Longrightarrow> synth_inv args bps 0 synth_init"
  by (simp add: synth_inv_def synth_init_def split: option.splits)

lemma synth_out_init [simp]: "ss_out synth_init = empty_trace"
  by (simp add: synth_init_def)

lemma gen_synthetic_trace_Inr:
  assumes "gen_synthetic_trace_main args = Inr st"
  obtains bps where "wire_rate_bps args = Inr bps" and "0 < sy_packet_count args"
    and "ss_out st = trace_of (map (synth_pk args bps) [0..<nat (sy_packet_count args)])"
    and "trace_ok (map (synth_pk args bps) [0..<nat (sy_packet_count args)])"
    and "synth_inv args bps (nat (sy_packet_count args)) st"
proof -
  from assms obtain bps where c: "0 < sy_packet_count args" "0 < sy_frame_len args"
    and b: "wire_rate_bps args = Inr bps"
    and f: "fold_res (synth_packet args bps) [0..<nat (sy_packet_count args)] synth_init = Inr st"
    by (auto simp: gen_synthetic_trace_main_def res_simps split: if_splits)
  from synth.write_loop_Inr [OF synth_inv_init [OF c(2)] synth_out_init f] that [OF b c(1)] show thesis
    by blast
qed

lemma wire_rate_bps_Some:
  "wire_rate_bps args = Inr (Some b) \<longleftrightarrow> (\<exists>g. sy_wire_rate_gbps args = Some g \<and> 0 < b \<and> b = g * 1000000000)"
  by (auto simp: wire_rate_bps_def split: option.splits if_splits)

text \<open>The conditions under which every field fits.\<close>

definition synth_fits :: "synth_args \<Rightarrow> bool" where
  "synth_fits args \<longleftrightarrow> 0 < sy_packet_count args \<and> 0 < sy_frame_len args \<and> sy_frame_len args \<le> 65535
     \<and> 0 \<le> sy_overhead args \<and> sy_packet_count args * (align_up (sy_frame_len args) 64 div 64) < 2 ^ 32
     \<and> (case sy_wire_rate_gbps args of
          None \<Rightarrow> 0 \<le> sy_gap_ticks args \<and> sy_gap_ticks args < 2 ^ 64
        | Some g \<Rightarrow> 0 < g \<and> 0 \<le> sy_tick_hz args \<and> wire_step args (g * 1000000000) \<le> 2 ^ 63)"

lemma synth_gap_paced:
  assumes "0 < b"
  shows "synth_gap args (Some b) 0 = 0"
    and "0 < i \<Longrightarrow> synth_gap args (Some b) i \<in> {\<lfloor>wire_step args b\<rfloor>, \<lceil>wire_step args b\<rceil>}"
proof -
  show "synth_gap args (Some b) 0 = 0" using paced_tick_0 [OF assms] by (simp add: synth_gap_def increments_def)
  assume "0 < i"
  then obtain j where i: "i = Suc j" by (cases i) auto
  show "synth_gap args (Some b) i \<in> {\<lfloor>wire_step args b\<rfloor>, \<lceil>wire_step args b\<rceil>}"
    using paced_tick_increment [OF assms, of args "int j"]
    by (simp add: i synth_gap_def increments_def algebra_simps)
qed

lemma synth_gap_bounds:
  assumes "synth_fits args" and "wire_rate_bps args = Inr bps"
  shows "0 \<le> synth_gap args bps i \<and> synth_gap args bps i < 2 ^ 64"
proof (cases bps)
  case None
  with assms show ?thesis
    by (auto simp: synth_fits_def synth_gap_def wire_rate_bps_def split: option.splits if_splits)
next
  case (Some b)
  then obtain g where g: "sy_wire_rate_gbps args = Some g" and b: "0 < b" "b = g * 1000000000"
    using assms(2) by (auto simp: wire_rate_bps_Some)
  have hz: "0 \<le> sy_tick_hz args" and step: "wire_step args b \<le> 2 ^ 63"
    and bits: "0 \<le> (sy_frame_len args + sy_overhead args) * 8"
    using assms(1) by (auto simp: synth_fits_def g b(2))
  have "0 \<le> wire_step args b"
    unfolding wire_step_def using mult_nonneg_nonneg [OF bits hz] b(1)
    by (intro divide_nonneg_pos) (simp_all only: of_int_0_le_iff)
  then have fl: "0 \<le> \<lfloor>wire_step args b\<rfloor>" "0 \<le> \<lceil>wire_step args b\<rceil>" by simp_all
  have "wire_step args b \<le> of_int (2 ^ 63)" using step by simp
  then have "\<lceil>wire_step args b\<rceil> \<le> 2 ^ 63" by (simp only: ceiling_le_iff)
  moreover have "\<lfloor>wire_step args b\<rfloor> \<le> \<lceil>wire_step args b\<rceil>" by linarith
  moreover have "(2 :: int) ^ 63 < 2 ^ 64" by simp
  ultimately have "0 \<le> \<lfloor>wire_step args b\<rfloor> \<and> \<lfloor>wire_step args b\<rfloor> < 2 ^ 64"
    "0 \<le> \<lceil>wire_step args b\<rceil> \<and> \<lceil>wire_step args b\<rceil> < 2 ^ 64" using fl by linarith+
  then show ?thesis
    using synth_gap_paced [OF b(1), where args = args] unfolding Some insert_iff empty_iff
    by (cases "i = 0") (simp, metis neq0_conv)
qed

lemma synth_trace_ok:
  assumes "synth_fits args" and "wire_rate_bps args = Inr bps"
  shows "trace_ok (map (synth_pk args bps) [0..<nat (sy_packet_count args)])"
proof (rule trace_okI)
  have len: "0 < sy_frame_len args" "sy_frame_len args \<le> 65535" and cnt: "0 < sy_packet_count args"
    and w: "sy_packet_count args * (align_up (sy_frame_len args) 64 div 64) < 2 ^ 32"
    using assms(1) by (simp_all add: synth_fits_def)
  show "\<forall>p \<in> set (map (synth_pk args bps) [0..<nat (sy_packet_count args)]). packet_ok p"
    using synth_gap_bounds [OF assms] len by (auto simp: packet_ok_def synth_pk_def)
  have "beats (make_frame i (sy_frame_len args) sd) = align_up (sy_frame_len args) 64 div 64" for i sd
    using len by (simp add: beats_def)
  then have "total_beats (map (synth_pk args bps) [0..<n]) = int n * (align_up (sy_frame_len args) 64 div 64)" for n
    by (induction n) (simp_all add: total_beats_def synth_pk_def algebra_simps)
  with w cnt show "total_beats (map (synth_pk args bps) [0..<nat (sy_packet_count args)]) < 2 ^ 32"
    by simp
qed

section \<open>The properties of the generator\<close>

definition demo_synth :: synth_args where
  "demo_synth = \<lparr> sy_packet_count = 3, sy_frame_len = 66, sy_gap_ticks = 0, sy_wire_rate_gbps = Some 10,
     sy_overhead = 24, sy_tick_hz = 300000000, sy_seed = 0x5A \<rparr>"

lemma demo_synth_fits: "synth_fits demo_synth"
  by (simp add: synth_fits_def demo_synth_def align_up_def wire_step_def)

text \<open>C29: Synthetic trace.  With arguments whose fields fit, gen_synthetic_trace ends without an exception
  and its two files, read back, hold packet_count packets: frame i is the documented byte pattern of
  the frame length, and the gaps are the fixed gap, or the increments of the paced target ticks; the
  manifest's smallest and largest gap and byte total are those of the packets written.\<close>

theorem gen_synthetic_trace_roundtrip:
  assumes "synth_fits args" and "wire_rate_bps args = Inr bps" and "n = nat (sy_packet_count args)"
  shows "\<exists>st. gen_synthetic_trace_main args = Inr st
     \<and> trace_packets (tr_desc_file (ss_out st)) (tr_data_file (ss_out st))
         = map (\<lambda>i. (synth_gap args bps i, make_frame (int i) (sy_frame_len args) (sy_seed args))) [0..<n]
     \<and> ss_gap_min st = Some (Min (synth_gap args bps ` {..<n}))
     \<and> ss_gap_max st = Some (Max (synth_gap args bps ` {..<n}))
     \<and> ss_total_frame_bytes st = int n * sy_frame_len args"
proof -
  note ok = synth_trace_ok [OF assms(1,2)]
  have len: "0 < sy_frame_len args" using assms(1) by (simp add: synth_fits_def)
  from synth.write_loop_ok [OF synth_inv_init [OF len] synth_out_init ok]
  obtain st where st: "fold_res (synth_packet args bps) [0..<nat (sy_packet_count args)] synth_init = Inr st" by blast
  note r = synth.write_loop_Inr [OF synth_inv_init [OF len] synth_out_init st]
  have "gen_synthetic_trace_main args = Inr st"
    using assms(1,2) st by (simp add: gen_synthetic_trace_main_def synth_fits_def)
  moreover have "n \<noteq> 0" using assms(1,3) by (simp add: synth_fits_def)
  moreover have "trace_packets (tr_desc_file (ss_out st)) (tr_data_file (ss_out st))
      = map (synth_pk args bps) [0..<n]"
    unfolding r(2) assms(3) by (rule trace_packets_trace_of [OF ok])
  ultimately show ?thesis using r(3) by (auto simp: assms(3) synth_inv_def synth_pk_def)
qed

theorem gen_synthetic_trace_roundtrip_witness:
  "\<exists>st. gen_synthetic_trace_main demo_synth = Inr st
     \<and> trace_packets (tr_desc_file (ss_out st)) (tr_data_file (ss_out st))
         = map (\<lambda>i. (synth_gap demo_synth (Some 10000000000) i, make_frame (int i) 66 0x5A)) [0, 1, 2]
     \<and> ss_gap_max st = Some 22"
proof -
  have b: "wire_rate_bps demo_synth = Inr (Some 10000000000)" by (simp add: wire_rate_bps_def demo_synth_def)
  have "synth_gap demo_synth (Some 10000000000) 0 = 0" "synth_gap demo_synth (Some 10000000000) 1 = 22"
    "synth_gap demo_synth (Some 10000000000) 2 = 21" by code_simp+
  moreover have "{..<3 :: nat} = {0, 1, 2}" by auto
  ultimately have g: "synth_gap demo_synth (Some 10000000000) ` {..<3} = {0, 22, 21}" by simp
  have l: "[0..<3] = [0, 1, 2]" by (simp add: upt_rec)
  have "nat (sy_packet_count demo_synth) = 3" "sy_frame_len demo_synth = 66" "sy_seed demo_synth = 0x5A"
    by (simp_all add: demo_synth_def)
  with gen_synthetic_trace_roundtrip [OF demo_synth_fits b refl] show ?thesis
    by (auto simp add: g l)
qed

text \<open>C30: Exact pacing.  When the generator paces to a wire rate, the gaps of the first k + 1 packets add up
  to a nearest tick of k times the exact interval (wire bits times tick rate over bit rate): the
  error is at most half a tick for every k, with no float and no accumulation, and every gap after
  the first is the interval rounded down or rounded up.\<close>

theorem gen_synthetic_trace_paced:
  assumes "gen_synthetic_trace_main args = Inr st" and "sy_wire_rate_gbps args = Some g"
    and "k < nat (sy_packet_count args)"
    and "ps = trace_packets (tr_desc_file (ss_out st)) (tr_data_file (ss_out st))"
  shows "\<bar>of_int (sum_list (map fst (take (Suc k) ps))) - of_nat k * wire_step args (g * 1000000000)\<bar> \<le> 1 / 2
     \<and> (0 < k \<longrightarrow> fst (ps ! k) \<in> {\<lfloor>wire_step args (g * 1000000000)\<rfloor>, \<lceil>wire_step args (g * 1000000000)\<rceil>})"
proof -
  let ?n = "nat (sy_packet_count args)"
  from assms(1) obtain bps where r: "wire_rate_bps args = Inr bps"
    "ss_out st = trace_of (map (synth_pk args bps) [0..<?n])" "trace_ok (map (synth_pk args bps) [0..<?n])"
    by (rule gen_synthetic_trace_Inr)
  let ?b = "g * 1000000000"
  have b: "bps = Some ?b" "0 < ?b"
    using r(1) assms(2) by (auto simp: wire_rate_bps_def split: if_splits)
  have ps: "ps = map (synth_pk args (Some ?b)) [0..<?n]"
    unfolding assms(4) r(2) b(1) [symmetric] by (rule trace_packets_trace_of [OF r(3)])
  have "map fst (take (Suc k) ps) = map (increments (\<lambda>i. paced_tick args ?b (int i))) [0..<Suc k]"
    using assms(3) by (simp add: ps take_map take_upt synth_pk_def synth_gap_def o_def del: upt_Suc)
  then have "\<bar>of_int (sum_list (map fst (take (Suc k) ps))) - of_nat k * wire_step args ?b\<bar> \<le> 1 / 2"
    using paced_tick_nearest [OF b(2), of args "int k"] by (simp add: sum_increments del: upt_Suc)
  moreover have "fst (ps ! k) \<in> {\<lfloor>wire_step args ?b\<rfloor>, \<lceil>wire_step args ?b\<rceil>}" if "0 < k"
    using synth_gap_paced(2) [OF b(2) that, of args] assms(3) by (simp add: ps synth_pk_def)
  ultimately show ?thesis by blast
qed

theorem gen_synthetic_trace_paced_witness:
  "\<exists>st. gen_synthetic_trace_main demo_synth = Inr st
     \<and> \<bar>of_int (sum_list (map fst (take 3 (trace_packets (tr_desc_file (ss_out st)) (tr_data_file (ss_out st)))))) - 43.2\<bar>
       \<le> (1 / 2 :: rat)"
proof -
  have b: "wire_rate_bps demo_synth = Inr (Some 10000000000)" by (simp add: wire_rate_bps_def demo_synth_def)
  have len: "0 < sy_frame_len demo_synth" by (simp add: demo_synth_def)
  from synth.write_loop_ok [OF synth_inv_init [OF len] synth_out_init synth_trace_ok [OF demo_synth_fits b]]
  obtain st where "fold_res (synth_packet demo_synth (Some 10000000000)) [0..<nat (sy_packet_count demo_synth)] synth_init
      = Inr st" by blast
  then have st: "gen_synthetic_trace_main demo_synth = Inr st"
    using demo_synth_fits b by (simp add: gen_synthetic_trace_main_def synth_fits_def)
  have "sy_wire_rate_gbps demo_synth = Some 10" "2 < nat (sy_packet_count demo_synth)"
    by (simp_all add: demo_synth_def)
  note paced = gen_synthetic_trace_paced [OF st this refl, THEN conjunct1]
  have w: "of_nat 2 * wire_step demo_synth (10 * 1000000000) = 43.2" by (simp add: demo_synth_def wire_step_def)
  have "Suc 2 = 3" by simp
  from st paced [unfolded w this] show ?thesis by blast
qed

end
