(* ===== verification/PatternTrace.thy ===== *)
theory PatternTrace
  imports TraceFormat PyText
begin

text \<open>
  The traces of the preload tests: preload_stress_test.py (one frame length and gap),
  preload_mixed_test.py and replay_precision_suite.py (a repeating pattern of both).  All three use
  the frame bytes of preload_stress_test.make_frame.
\<close>

section \<open>Cases and patterns on the command line\<close>

definition parse_case :: "string \<Rightarrow> (int \<times> int) res" where
  "parse_case value =
     (if CHR '':'' \<notin> set value then Inl (ArgumentTypeError ''case must be frame_len:gap_ticks'')
      else let (frame_s, gap_s) = split_first (CHR '':'') value in
        bind_res (int_auto frame_s) (\<lambda>frame_len.
        bind_res (int_auto gap_s) (\<lambda>gap_ticks.
        if frame_len \<le> 0 \<or> frame_len > 0xFFFF then Inl (ArgumentTypeError ''frame_len must be in 1..65535'')
        else if gap_ticks < 0 then Inl (ArgumentTypeError ''gap_ticks must be non-negative'')
        else Inr (frame_len, gap_ticks))))"

definition parse_pattern :: "string \<Rightarrow> (int \<times> int) list res" where
  "parse_pattern value =
     bind_res (fold_res (\<lambda>item out.
         let item = strip item
         in if item = [] then Inr out else bind_res (parse_case item) (\<lambda>c. Inr (out @ [c])))
       (split_on (CHR '','') value) []) (\<lambda>out.
     if out = [] then Inl (ArgumentTypeError ''pattern must contain at least one frame_len:gap_ticks item'')
     else Inr out)"

definition show_case :: "int \<times> int \<Rightarrow> string" where
  "show_case c = show_int (fst c) @ '':'' @ show_int (snd c)"

definition show_pattern :: "(int \<times> int) list \<Rightarrow> string" where
  "show_pattern pattern = join '','' (map show_case pattern)"

section \<open>Frames\<close>

definition pst_make_frame :: "int \<Rightarrow> int \<Rightarrow> bytes" where
  "pst_make_frame packet_index frame_len =
     (let header = [0x02, 0x00, 0x00, 0x00, byte_of (drop_bit 8 packet_index), byte_of packet_index,
                    0x02, 0x00, 0x00, 0x01, byte_of (drop_bit 8 packet_index), byte_of packet_index,
                    0x08, 0x00];
          payload = map (\<lambda>i. byte_of (packet_index * 17 + int i * 3 + drop_bit 4 packet_index))
                      [0..<nat (max 0 (frame_len - int (length header)))]
      in py_prefix frame_len (header @ payload))"

lemma length_pst_make_frame: "0 \<le> n \<Longrightarrow> int (length (pst_make_frame i n)) = n"
  by (simp add: pst_make_frame_def Let_def)

section \<open>preload_stress_test.make_trace\<close>

definition pst_packet :: "int \<Rightarrow> int \<Rightarrow> nat \<Rightarrow> trace_out \<Rightarrow> trace_out res" where
  "pst_packet frame_len gap_ticks pkt_idx out =
     emit_packet gap_ticks (pst_make_frame (int pkt_idx) frame_len) frame_len out"

definition pst_make_trace :: "int \<Rightarrow> int \<Rightarrow> int \<Rightarrow> (trace_out \<times> int \<times> int) res" where
  "pst_make_trace packet_count frame_len gap_ticks =
     bind_res (fold_res (pst_packet frame_len gap_ticks) [0..<nat packet_count] empty_trace) (\<lambda>out.
     Inr (out, packet_count * int DESC_BYTES, tr_words out * DATA_BEAT_BYTES))"

section \<open>preload_mixed_test.make_mixed_trace\<close>

record mixed_state =
  mx_out :: trace_out
  mx_payload_bytes :: int
  mx_expected_ticks :: int

definition mixed_init :: mixed_state where
  "mixed_init = \<lparr> mx_out = empty_trace, mx_payload_bytes = 0, mx_expected_ticks = 0 \<rparr>"

definition pattern_at :: "(int \<times> int) list \<Rightarrow> nat \<Rightarrow> (int \<times> int) res" where
  "pattern_at pattern pkt_idx =
     (if pattern = [] then Inl ZeroDivisionError else Inr (pattern ! (pkt_idx mod length pattern)))"

definition mixed_packet :: "(int \<times> int) list \<Rightarrow> nat \<Rightarrow> mixed_state \<Rightarrow> mixed_state res" where
  "mixed_packet pattern pkt_idx st =
     bind_res (pattern_at pattern pkt_idx) (\<lambda>(frame_len, gap_ticks).
     bind_res (emit_packet gap_ticks (pst_make_frame (int pkt_idx) frame_len) frame_len (mx_out st)) (\<lambda>out.
     Inr \<lparr> mx_out = out, mx_payload_bytes = mx_payload_bytes st + frame_len,
           mx_expected_ticks = mx_expected_ticks st + gap_ticks \<rparr>))"

definition make_mixed_trace :: "int \<Rightarrow> (int \<times> int) list \<Rightarrow> (mixed_state \<times> int \<times> int) res" where
  "make_mixed_trace packet_count pattern =
     bind_res (fold_res (mixed_packet pattern) [0..<nat packet_count] mixed_init) (\<lambda>st.
     Inr (st, packet_count * int DESC_BYTES, tr_words (mx_out st) * DATA_BEAT_BYTES))"

section \<open>replay_precision_suite.make_trace\<close>

definition to_bytes :: "nat \<Rightarrow> int \<Rightarrow> bytes res" where
  "to_bytes w v = (if 0 \<le> v \<and> v < 256 ^ w then Inr (le_bytes w v) else Inl OverflowError)"

record suite_state =
  su_out :: trace_out
  su_total_frame_bytes :: int
  su_max_frame_len :: int

definition suite_init :: suite_state where
  "suite_init = \<lparr> su_out = empty_trace, su_total_frame_bytes = 0, su_max_frame_len = 0 \<rparr>"

definition suite_packet :: "(int \<times> int) list \<Rightarrow> nat \<Rightarrow> suite_state \<Rightarrow> suite_state res" where
  "suite_packet pattern pkt_idx st =
     bind_res (pattern_at pattern pkt_idx) (\<lambda>(frame_len, gap_ticks).
     bind_res (pack_fields to_bytes [(8, gap_ticks), (4, tr_words (su_out st)), (2, frame_len), (2, 0)]) (\<lambda>desc.
     bind_res (zeros (int DESC_BYTES - int (length desc))) (\<lambda>desc_pad.
     let frame = pst_make_frame (int pkt_idx) frame_len;
         padded_len = align_up frame_len DATA_BEAT_BYTES in
     bind_res (zeros (padded_len - frame_len)) (\<lambda>data_pad.
     Inr \<lparr> su_out = \<lparr> tr_desc_file = tr_desc_file (su_out st) @ desc @ desc_pad,
                       tr_data_file = tr_data_file (su_out st) @ frame @ data_pad,
                       tr_words = tr_words (su_out st) + padded_len div DATA_BEAT_BYTES \<rparr>,
           su_total_frame_bytes = su_total_frame_bytes st + frame_len,
           su_max_frame_len = max (su_max_frame_len st) frame_len \<rparr>))))"

definition suite_make_trace :: "int \<Rightarrow> (int \<times> int) list \<Rightarrow> suite_state res" where
  "suite_make_trace packet_count pattern =
     fold_res (suite_packet pattern) [0..<nat packet_count] suite_init"

section \<open>The packets of a pattern\<close>

definition pattern_pk :: "(int \<times> int) list \<Rightarrow> nat \<Rightarrow> packet" where
  "pattern_pk pattern i =
     (let (frame_len, gap) = pattern ! (i mod length pattern) in (gap, pst_make_frame (int i) frame_len))"

definition pattern_ok :: "(int \<times> int) list \<Rightarrow> bool" where
  "pattern_ok pattern \<longleftrightarrow> pattern \<noteq> [] \<and> (\<forall>(l, g) \<in> set pattern. 0 < l \<and> l \<le> 65535 \<and> 0 \<le> g)"

lemma pattern_ok_nth:
  assumes "pattern_ok pattern" and "pattern ! (i mod length pattern) = (l, g)"
  shows "0 < l" "l \<le> 65535" "0 \<le> g"
proof -
  have "pattern \<noteq> []" using assms(1) by (simp add: pattern_ok_def)
  then have "(l, g) \<in> set pattern" unfolding assms(2) [symmetric] by (intro nth_mem) simp
  then show "0 < l" "l \<le> 65535" "0 \<le> g" using assms(1) by (auto simp: pattern_ok_def)
qed

lemma pattern_pk_len:
  assumes "pattern_ok pattern" and "pattern ! (i mod length pattern) = (l, g)"
  shows "pattern_pk pattern i = (g, pst_make_frame (int i) l)" "int (length (pst_make_frame (int i) l)) = l"
  using pattern_ok_nth [OF assms] by (simp_all add: pattern_pk_def assms(2) length_pst_make_frame)

lemma to_bytes_eq: "to_bytes w v = (case pack_le w v of Inl e \<Rightarrow> Inl OverflowError | Inr b \<Rightarrow> Inr b)"
  by (simp add: to_bytes_def pack_le_def)

lemma pack_to_bytes:
  "pack_fields to_bytes fs = (case pack_fields pack_le fs of Inl e \<Rightarrow> Inl OverflowError | Inr b \<Rightarrow> Inr b)"
proof (induction fs)
  case Nil
  then show ?case by simp
next
  case (Cons f fs)
  then show ?case by (cases f) (auto simp: to_bytes_eq bind_res_def split: sum.splits)
qed

lemma emit_packet_to_bytes:
  assumes "int (length f) = l"
  shows "bind_res (pack_fields to_bytes [(8, g), (4, tr_words out), (2, l), (2, 0)]) (\<lambda>desc.
     bind_res (zeros (int DESC_BYTES - int (length desc))) (\<lambda>desc_pad.
     bind_res (zeros (align_up l DATA_BEAT_BYTES - l)) (\<lambda>data_pad.
     F \<lparr> tr_desc_file = tr_desc_file out @ desc @ desc_pad, tr_data_file = tr_data_file out @ f @ data_pad,
         tr_words = tr_words out + align_up l DATA_BEAT_BYTES div DATA_BEAT_BYTES \<rparr>)))
   = (case emit_packet g f l out of Inl e \<Rightarrow> Inl OverflowError | Inr out' \<Rightarrow> F out')"
proof -
  have "length desc = 16" if "pack_QIHH g w l 0 = Inr desc" for w desc
    using that by (auto simp: pack_QIHH_eq split: if_splits)
  moreover have pf: "pack_fields to_bytes [(8, g), (4, tr_words out), (2, l), (2, 0)]
     = (case pack_QIHH g (tr_words out) l 0 of Inl e \<Rightarrow> Inl OverflowError | Inr b \<Rightarrow> Inr b)"
    unfolding pack_QIHH_def by (rule pack_to_bytes)
  ultimately show ?thesis
    using align_up_ge [of 64 l] unfolding pf
    by (cases "pack_QIHH g (tr_words out) l 0") (simp_all add: emit_packet_def Let_def)
qed

section \<open>The writers\<close>

lemma pst_packet_step:
  assumes "0 \<le> frame_len"
  shows "pst_packet frame_len gap i out =
     (case emit_packet gap (pst_make_frame (int i) frame_len) (int (length (pst_make_frame (int i) frame_len))) out of
        Inl e \<Rightarrow> Inl StructError | Inr out' \<Rightarrow> Inr out')"
proof -
  note l = length_pst_make_frame [OF assms, of "int i"]
  have "emit_packet gap (pst_make_frame (int i) frame_len) frame_len out = Inl e \<Longrightarrow> e = StructError" for e
    using emit_packet_eq_Inl [of gap "pst_make_frame (int i) frame_len" out e] unfolding l by simp
  then show ?thesis unfolding pst_packet_def l by (auto split: sum.splits)
qed

interpretation pst: trace_writer "\<lambda>i. (gap, pst_make_frame (int i) frame_len)" "pst_packet frame_len gap"
    "\<lambda>out. out" "\<lambda>i out out'. out'" "\<lambda>i out. 0 \<le> frame_len" StructError
  for frame_len gap
  by unfold_locales (simp_all add: pst_packet_step)

definition mixed_upd :: "(int \<times> int) list \<Rightarrow> nat \<Rightarrow> mixed_state \<Rightarrow> trace_out \<Rightarrow> mixed_state" where
  "mixed_upd pattern i st out = \<lparr> mx_out = out,
     mx_payload_bytes = mx_payload_bytes st + int (length (snd (pattern_pk pattern i))),
     mx_expected_ticks = mx_expected_ticks st + fst (pattern_pk pattern i) \<rparr>"

definition mixed_inv :: "(int \<times> int) list \<Rightarrow> nat \<Rightarrow> mixed_state \<Rightarrow> bool" where
  "mixed_inv pattern n st \<longleftrightarrow> pattern_ok pattern
     \<and> mx_payload_bytes st = sum_list (map (int \<circ> length \<circ> snd) (map (pattern_pk pattern) [0..<n]))
     \<and> mx_expected_ticks st = sum_list (map fst (map (pattern_pk pattern) [0..<n]))"

lemma mixed_packet_step:
  assumes "pattern_ok pattern"
  shows "mixed_packet pattern i st =
     (case emit_packet (fst (pattern_pk pattern i)) (snd (pattern_pk pattern i))
         (int (length (snd (pattern_pk pattern i)))) (mx_out st) of
        Inl e \<Rightarrow> Inl StructError | Inr out \<Rightarrow> Inr (mixed_upd pattern i st out))"
proof -
  obtain l g where lg: "pattern ! (i mod length pattern) = (l, g)" by (meson surj_pair)
  note pk = pattern_pk_len [OF assms lg]
  have at: "pattern_at pattern i = Inr (l, g)" using assms lg by (simp add: pattern_at_def pattern_ok_def)
  have "emit_packet g (pst_make_frame (int i) l) l (mx_out st) = Inl e \<Longrightarrow> e = StructError" for e
    using emit_packet_eq_Inl [of g "pst_make_frame (int i) l" "mx_out st" e] unfolding pk(2) by simp
  then show ?thesis
    by (auto simp: mixed_packet_def at pk mixed_upd_def bind_res_def split: sum.splits)
qed

interpretation mixed: trace_writer "pattern_pk pattern" "mixed_packet pattern" mx_out
    "mixed_upd pattern" "mixed_inv pattern" StructError
  for pattern
  by unfold_locales (simp_all add: mixed_packet_step mixed_inv_def mixed_upd_def)

definition suite_upd :: "(int \<times> int) list \<Rightarrow> nat \<Rightarrow> suite_state \<Rightarrow> trace_out \<Rightarrow> suite_state" where
  "suite_upd pattern i st out = \<lparr> su_out = out,
     su_total_frame_bytes = su_total_frame_bytes st + int (length (snd (pattern_pk pattern i))),
     su_max_frame_len = max (su_max_frame_len st) (int (length (snd (pattern_pk pattern i)))) \<rparr>"

lemma suite_packet_step:
  assumes "pattern_ok pattern"
  shows "suite_packet pattern i st =
     (case emit_packet (fst (pattern_pk pattern i)) (snd (pattern_pk pattern i))
         (int (length (snd (pattern_pk pattern i)))) (su_out st) of
        Inl e \<Rightarrow> Inl OverflowError | Inr out \<Rightarrow> Inr (suite_upd pattern i st out))"
proof -
  obtain l g where lg: "pattern ! (i mod length pattern) = (l, g)" by (meson surj_pair)
  note pk = pattern_pk_len [OF assms lg]
  have at: "pattern_at pattern i = Inr (l, g)" using assms lg by (simp add: pattern_at_def pattern_ok_def)
  show ?thesis
    unfolding suite_packet_def at Let_def bind_res_simps prod.case
      emit_packet_to_bytes [OF pk(2), where F = "\<lambda>out'. Inr \<lparr> su_out = out',
         su_total_frame_bytes = su_total_frame_bytes st + l,
         su_max_frame_len = max (su_max_frame_len st) l \<rparr>"]
    by (simp add: pk suite_upd_def split: sum.splits)
qed

interpretation suite: trace_writer "pattern_pk pattern" "suite_packet pattern" su_out
    "suite_upd pattern" "\<lambda>n st. pattern_ok pattern" OverflowError
  for pattern
  by unfold_locales (simp_all add: suite_packet_step suite_upd_def)

lemma mixed_init_inv: "pattern_ok pattern \<Longrightarrow> mixed_inv pattern 0 mixed_init"
  by (simp add: mixed_inv_def mixed_init_def)

lemma init_outs [simp]: "mx_out mixed_init = empty_trace" "su_out suite_init = empty_trace"
  by (simp_all add: mixed_init_def suite_init_def)

text \<open>What fits: gaps below 2^64 and fewer than 2^32 beats in all.\<close>

definition pattern_fits :: "int \<Rightarrow> (int \<times> int) list \<Rightarrow> bool" where
  "pattern_fits n pattern \<longleftrightarrow> pattern_ok pattern \<and> (\<forall>(l, g) \<in> set pattern. g < 2 ^ 64)
     \<and> n * 1024 < 2 ^ 32"

lemma pattern_trace_ok:
  assumes "pattern_fits n pattern"
  shows "trace_ok (map (pattern_pk pattern) [0..<nat n])"
proof (rule trace_okI)
  have ok: "pattern_ok pattern" "pattern \<noteq> []" using assms by (simp_all add: pattern_fits_def pattern_ok_def)
  have each: "packet_ok (pattern_pk pattern i) \<and> length (snd (pattern_pk pattern i)) \<le> 65535" for i
  proof -
    obtain l g where lg: "pattern ! (i mod length pattern) = (l, g)" by (meson surj_pair)
    have "(l, g) \<in> set pattern" unfolding lg [symmetric] using ok(2) by (intro nth_mem) simp
    then have "g < 2 ^ 64" using assms by (auto simp: pattern_fits_def)
    with pattern_ok_nth [OF ok(1) lg] pattern_pk_len [OF ok(1) lg] show ?thesis
      by (simp add: packet_ok_def)
  qed
  then show "\<forall>p \<in> set (map (pattern_pk pattern) [0..<nat n]). packet_ok p" by simp
  have "\<forall>p \<in> set (map (pattern_pk pattern) [0..<nat n]). beats (snd p) \<le> 1024"
    using each beats_bound by simp
  from total_beats_bound [OF this] assms
  show "total_beats (map (pattern_pk pattern) [0..<nat n]) < 2 ^ 32"
    by (auto simp: pattern_fits_def split: if_splits)
qed

text \<open>The files the two generators write.\<close>

lemma make_mixed_trace_files:
  assumes "pattern_fits n pattern" and "0 \<le> n"
  shows "\<exists>st. make_mixed_trace n pattern
       = Inr (st, int (length (tr_desc_file (mx_out st))), int (length (tr_data_file (mx_out st))))
     \<and> mx_out st = trace_of (map (pattern_pk pattern) [0..<nat n]) \<and> mixed_inv pattern (nat n) st"
proof -
  have ok: "pattern_ok pattern" using assms(1) by (simp add: pattern_fits_def)
  note init = mixed_init_inv [OF ok] init_outs(1)
  obtain st where st: "fold_res (mixed_packet pattern) [0..<nat n] mixed_init = Inr st"
    using mixed.write_loop_ok [OF init pattern_trace_ok [OF assms(1)]] by blast
  note r = mixed.write_loop_Inr [OF init st]
  have "int (length (tr_desc_file (mx_out st))) = n * 64"
    using assms(2) by (simp add: r(2) length_desc_file)
  moreover have "int (length (tr_data_file (mx_out st))) = tr_words (mx_out st) * 64"
    by (simp add: r(2) trace_of_def length_data_of)
  ultimately show ?thesis using r by (intro exI [of _ st]) (simp add: make_mixed_trace_def st)
qed

lemma pst_make_trace_sizes:
  assumes "pst_make_trace n frame_len gap = Inr (out, ds, dd)" and "0 \<le> frame_len" and "0 \<le> n"
  shows "ds = int (length (tr_desc_file out))" and "dd = int (length (tr_data_file out))"
proof -
  have out: "fold_res (pst_packet frame_len gap) [0..<nat n] empty_trace = Inr out" "ds = n * 64" "dd = tr_words out * 64"
    using assms(1) by (auto simp: pst_make_trace_def res_simps)
  note r = pst.write_loop_Inr [OF assms(2) refl out(1)]
  show "ds = int (length (tr_desc_file out))" using assms(3) by (simp add: out(2) r(2) length_desc_file)
  show "dd = int (length (tr_data_file out))" by (simp add: out(3) r(2) trace_of_def length_data_of)
qed

lemma pst_make_trace_files:
  assumes "pattern_fits n [(frame_len, gap)]" and "0 \<le> n"
  shows "\<exists>out. pst_make_trace n frame_len gap = Inr (out, int (length (tr_desc_file out)), int (length (tr_data_file out)))
     \<and> out = trace_of (map (\<lambda>i. (gap, pst_make_frame (int i) frame_len)) [0..<nat n])
     \<and> trace_ok (map (\<lambda>i. (gap, pst_make_frame (int i) frame_len)) [0..<nat n])"
proof -
  let ?ps = "map (\<lambda>i. (gap, pst_make_frame (int i) frame_len)) [0..<nat n]"
  have pk: "pattern_pk [(frame_len, gap)] = (\<lambda>i. (gap, pst_make_frame (int i) frame_len))"
    by (rule ext) (simp add: pattern_pk_def)
  have tr: "trace_ok ?ps" using pattern_trace_ok [OF assms(1)] unfolding pk .
  have z: "0 \<le> frame_len" using assms(1) by (auto simp: pattern_fits_def pattern_ok_def)
  obtain out where out: "fold_res (pst_packet frame_len gap) [0..<nat n] empty_trace = Inr out"
    using pst.write_loop_ok [OF z refl tr] by blast
  note r = pst.write_loop_Inr [OF z refl out]
  have "int (length (tr_desc_file out)) = n * 64"
    using assms(2) by (simp add: r(2) length_desc_file)
  moreover have "int (length (tr_data_file out)) = tr_words out * 64"
    by (simp add: r(2) trace_of_def length_data_of)
  ultimately show ?thesis using r tr by (intro exI [of _ out]) (simp add: pst_make_trace_def out)
qed

section \<open>Properties\<close>

definition demo_pattern :: "(int \<times> int) list" where
  "demo_pattern = [(64, 3), (1518, 38)]"

lemma demo_pattern_fits: "pattern_fits 5 demo_pattern" "pattern_ok demo_pattern"
  by (simp_all add: pattern_fits_def pattern_ok_def demo_pattern_def)

text \<open>C31: Mixed trace.  For a legal pattern whose gaps fit 64 bits and at most 4194303 packets, the mixed
  generator ends without an exception; its files, read back, hold the pattern repeated in order with
  the documented frame bytes, the sizes it returns are the file sizes (they are what
  configure_and_start programs as the trace size), and the expected ticks it later compares with
  the hardware's tick counter are the sum of the gaps in the file.\<close>

theorem make_mixed_trace_correct:
  assumes "pattern_fits n pattern" and "0 \<le> n"
  shows "\<exists>st. make_mixed_trace n pattern
       = Inr (st, int (length (tr_desc_file (mx_out st))), int (length (tr_data_file (mx_out st))))
     \<and> trace_packets (tr_desc_file (mx_out st)) (tr_data_file (mx_out st))
         = map (\<lambda>i. let (l, g) = pattern ! (i mod length pattern) in (g, pst_make_frame (int i) l)) [0..<nat n]
     \<and> mx_expected_ticks st
         = sum_list (map fst (trace_packets (tr_desc_file (mx_out st)) (tr_data_file (mx_out st))))
     \<and> mx_payload_bytes st = sum_list (map (int \<circ> length \<circ> snd)
           (trace_packets (tr_desc_file (mx_out st)) (tr_data_file (mx_out st))))"
proof -
  obtain st where st: "make_mixed_trace n pattern
       = Inr (st, int (length (tr_desc_file (mx_out st))), int (length (tr_data_file (mx_out st))))"
    "mx_out st = trace_of (map (pattern_pk pattern) [0..<nat n])" "mixed_inv pattern (nat n) st"
    using make_mixed_trace_files [OF assms] by blast
  have "trace_packets (tr_desc_file (mx_out st)) (tr_data_file (mx_out st)) = map (pattern_pk pattern) [0..<nat n]"
    unfolding st(2) by (rule trace_packets_trace_of [OF pattern_trace_ok [OF assms(1)]])
  with st(1,3) show ?thesis
    by (intro exI [of _ st]) (simp add: mixed_inv_def pattern_pk_def [abs_def])
qed

theorem make_mixed_trace_correct_witness:
  "\<exists>st. make_mixed_trace 5 demo_pattern
       = Inr (st, int (length (tr_desc_file (mx_out st))), int (length (tr_data_file (mx_out st))))
     \<and> mx_expected_ticks st
         = sum_list (map fst (trace_packets (tr_desc_file (mx_out st)) (tr_data_file (mx_out st))))"
  using make_mixed_trace_correct [OF demo_pattern_fits(1)] by auto

text \<open>C32: The three generators agree.  For a legal pattern, the struct.pack writer of
  preload_mixed_test and the int.to_bytes writer of replay_precision_suite produce the same two
  files, or both raise; and preload_stress_test's make_trace is the one-element pattern.\<close>

theorem pattern_generators_agree:
  assumes "pattern_ok pattern" and "0 < frame_len" and "frame_len \<le> 65535" and "0 \<le> gap"
  shows "(case suite_make_trace n pattern of Inl e \<Rightarrow> None | Inr st \<Rightarrow> Some (su_out st))
       = (case make_mixed_trace n pattern of Inl e \<Rightarrow> None | Inr (st, ds, dd) \<Rightarrow> Some (mx_out st))
     \<and> pst_make_trace n frame_len gap
       = (case make_mixed_trace n [(frame_len, gap)] of Inl e \<Rightarrow> Inl e | Inr (st, ds, dd) \<Rightarrow> Inr (mx_out st, ds, dd))"
proof
  let ?ps = "map (pattern_pk pattern) [0..<nat n]"
  note s = suite.write_loop [where pattern = pattern, OF assms(1) init_outs(2), of "nat n"]
  note m = mixed.write_loop [OF mixed_init_inv [OF assms(1)] init_outs(1), of "nat n"]
  show "(case suite_make_trace n pattern of Inl e \<Rightarrow> None | Inr st \<Rightarrow> Some (su_out st))
       = (case make_mixed_trace n pattern of Inl e \<Rightarrow> None | Inr (st, ds, dd) \<Rightarrow> Some (mx_out st))"
    using s m by (cases "trace_ok ?ps") (auto simp: suite_make_trace_def make_mixed_trace_def)
next
  let ?p = "[(frame_len, gap)]"
  have ok: "pattern_ok ?p" using assms(2-4) by (simp add: pattern_ok_def)
  have pk: "pattern_pk ?p = (\<lambda>i. (gap, pst_make_frame (int i) frame_len))"
    by (rule ext) (simp add: pattern_pk_def)
  have z: "0 \<le> frame_len" using assms(2) by simp
  note m = mixed.write_loop [OF mixed_init_inv [OF ok] init_outs(1), of "nat n", unfolded pk]
  note s = pst.write_loop [where frame_len = frame_len and gap = gap, OF z refl, of "nat n"]
  show "pst_make_trace n frame_len gap
       = (case make_mixed_trace n ?p of Inl e \<Rightarrow> Inl e | Inr (st, ds, dd) \<Rightarrow> Inr (mx_out st, ds, dd))"
    using s m by (cases "trace_ok (map (\<lambda>i. (gap, pst_make_frame (int i) frame_len)) [0..<nat n])")
      (auto simp: pst_make_trace_def make_mixed_trace_def)
qed

theorem pattern_generators_agree_witness:
  "(case suite_make_trace 5 demo_pattern of Inl e \<Rightarrow> None | Inr st \<Rightarrow> Some (su_out st))
     = (case make_mixed_trace 5 demo_pattern of Inl e \<Rightarrow> None | Inr (st, ds, dd) \<Rightarrow> Some (mx_out st))"
  using pattern_generators_agree [OF demo_pattern_fits(2), of 1 0 5] by simp

lemma parse_case_show:
  assumes "0 < l" "l \<le> 65535" "0 \<le> g"
  shows "parse_case (show_case (l, g)) = Inr (l, g)"
proof -
  have "CHR '':'' \<notin> set (show_int l)" using show_int_no_sep [of l "CHR '':''"] assms by auto
  then have "split_first (CHR '':'') (show_case (l, g)) = (show_int l, show_int g)"
    by (simp add: show_case_def split_first_append)
  moreover have "CHR '':'' \<in> set (show_case (l, g))" by (simp add: show_case_def)
  ultimately show ?thesis using assms by (simp add: parse_case_def int_auto_show_int)
qed

text \<open>The pattern text round-trips.  The text preload_mixed_test reports for a legal pattern
  (\<open>len:gap\<close> items joined by commas) is parsed by its own \<^verbatim>\<open>--pattern\<close> option back to
  that pattern, so a reported run can be repeated from its report.\<close>

theorem parse_show_pattern:
  assumes "pattern_ok pattern"
  shows "parse_pattern (show_pattern pattern) = Inr pattern"
proof -
  have chars: "c \<in> set (show_case x) \<Longrightarrow> x \<in> set pattern \<Longrightarrow> c \<noteq> CHR '','' \<and> \<not> is_space c" for c x
    using assms show_int_no_sep [of "fst x" c] show_int_no_sep [of "snd x" c]
    by (cases x) (auto simp: show_case_def pattern_ok_def is_space_def)
  have split: "split_on (CHR '','') (show_pattern pattern) = map show_case pattern"
    unfolding show_pattern_def using assms chars by (intro split_on_join) (auto simp: pattern_ok_def)
  have strips: "strip (show_case x) = show_case x" if "x \<in> set pattern" for x
    using chars that by (intro strip_id) blast
  have "fold_res (\<lambda>item out. let item = strip item
         in if item = [] then Inr out else bind_res (parse_case item) (\<lambda>c. Inr (out @ [c])))
       (map show_case xs) acc = Inr (acc @ xs)" if "set xs \<subseteq> set pattern" for xs acc
    using that
  proof (induction xs arbitrary: acc)
    case Nil
    then show ?case by simp
  next
    case (Cons x xs)
    then obtain l g where x: "x = (l, g)" and "x \<in> set pattern" by (cases x) auto
    then have "parse_case (show_case x) = Inr x" "show_case x \<noteq> []"
      using assms by (auto simp: pattern_ok_def parse_case_show) (simp add: show_case_def)
    with Cons show ?case by (simp add: strips)
  qed
  from this [of pattern "[]"] show ?thesis using assms
    by (simp add: parse_pattern_def split pattern_ok_def)
qed

theorem parse_show_pattern_witness: "parse_pattern ''64:3,1518:38'' = Inr demo_pattern"
proof -
  have "show_pattern demo_pattern = ''64:3,1518:38''" by code_simp
  with parse_show_pattern [OF demo_pattern_fits(2)] show ?thesis by simp
qed

end
