(* ===== verification/SynthPcap.thy ===== *)
theory SynthPcap
  imports Pcap2Trace PyText
begin

text \<open>
  software/gen_synthetic_pcap.py: deterministic Ethernet/IPv4/UDP traffic as a nanosecond capture.
  The random generator is the argument \<open>draw\<close>: its i-th call is the i-th
  \<^verbatim>\<open>rng.randrange(0, 256)\<close>, one per packet.
\<close>

unbundle bit_operations_syntax

section \<open>The Internet checksum\<close>

fun checksum_loop :: "int \<Rightarrow> bytes \<Rightarrow> int" where
  "checksum_loop acc (hi # lo # rest) =
     (let tot = acc + (push_bit 8 (uint hi) OR uint lo)
      in checksum_loop ((tot AND 0xFFFF) + drop_bit 16 tot) rest)"
| "checksum_loop acc _ = acc"

definition checksum :: "bytes \<Rightarrow> int" where
  "checksum data =
     (let data = (if odd (length data) then data @ [0] else data)
      in NOT (checksum_loop 0 data) AND 0xFFFF)"

section \<open>Frames\<close>

definition payload_pattern :: "int \<Rightarrow> int \<Rightarrow> int \<Rightarrow> bytes" where
  "payload_pattern seed packet_index len =
     map (\<lambda>idx. byte_of (seed + packet_index * 17 + int idx * 31)) [0..<nat len]"

record synth_pcap_args =
  gp_packet_count :: int
  gp_frame_len :: int
  gp_gap_ns :: "int option"
  gp_gap_ticks :: "int option"
  gp_tick_hz :: int
  gp_src_mac :: bytes
  gp_dst_mac :: bytes
  gp_src_ip :: int
  gp_dst_ip :: int
  gp_src_port :: int
  gp_dst_port :: int
  gp_vary_flow :: bool

definition parse_int16 :: "string \<Rightarrow> int option" where
  "parse_int16 value =
     (let s = strip value;
          (neg, t) = (case s of [] \<Rightarrow> (False, [])
             | c # cs \<Rightarrow> if c = CHR ''-'' then (True, cs) else if c = CHR ''+'' then (False, cs) else (False, s));
          digits = (case t of z # c # cs \<Rightarrow>
                        if z = CHR ''0'' \<and> (c = CHR ''x'' \<or> c = CHR ''X'') then skip_underscore cs else t
                    | _ \<Rightarrow> t)
      in case parse_digits 16 digits of None \<Rightarrow> None | Some v \<Rightarrow> Some (if neg then - int v else int v))"

definition parse_mac :: "string \<Rightarrow> bytes res" where
  "parse_mac value =
     (let parts = split_on (CHR '':'') value; err = ArgumentTypeError (''invalid MAC address: '' @ value) in
      if length parts \<noteq> 6 then Inl err
      else fold_res (\<lambda>part out. case parse_int16 part of None \<Rightarrow> Inl err
             | Some v \<Rightarrow> if 0 \<le> v \<and> v < 256 then Inr (out @ [byte_of v]) else Inl err) parts [])"

definition flow_of :: "synth_pcap_args \<Rightarrow> int \<Rightarrow> int \<times> int \<times> int \<times> int" where
  "flow_of args packet_index =
     (if gp_vary_flow args
      then (gp_src_ip args + (packet_index AND 0xFFFF),
            gp_dst_ip args + ((packet_index * 3) AND 0xFFFF),
            1024 + (gp_src_port args + packet_index) mod (65535 - 1024),
            1024 + (gp_dst_port args + packet_index * 7) mod (65535 - 1024))
      else (gp_src_ip args, gp_dst_ip args, gp_src_port args, gp_dst_port args))"

definition ip_header_of :: "int \<Rightarrow> int \<Rightarrow> int \<Rightarrow> int \<Rightarrow> bytes res" where
  "ip_header_of ip_total_len packet_index src_ip dst_ip =
     bind_res (pack_fields pack_be
       [(1, 0x45), (1, 0), (2, ip_total_len), (2, packet_index AND 0xFFFF), (2, 0x4000),
        (1, 64), (1, 17), (2, 0), (4, src_ip), (4, dst_ip)]) (\<lambda>ip_header.
     bind_res (pack_be 2 (checksum ip_header)) (\<lambda>ip_sum.
     Inr (take 10 ip_header @ ip_sum @ drop 12 ip_header)))"

definition udp_header_of :: "int \<Rightarrow> int \<Rightarrow> int \<Rightarrow> int \<Rightarrow> int \<Rightarrow> bytes \<Rightarrow> bytes res" where
  "udp_header_of src_ip dst_ip src_port dst_port udp_len udp_payload =
     bind_res (pack_fields pack_be [(2, src_port), (2, dst_port), (2, udp_len), (2, 0)]) (\<lambda>udp_header.
     bind_res (pack_fields pack_be [(4, src_ip), (4, dst_ip), (1, 0), (1, 17), (2, udp_len)]) (\<lambda>pseudo.
     let udp_sum = checksum (pseudo @ udp_header @ udp_payload);
         udp_sum = (if udp_sum = 0 then 0xFFFF else udp_sum)
     in pack_fields pack_be [(2, src_port), (2, dst_port), (2, udp_len), (2, udp_sum)]))"

definition pcap_make_frame :: "synth_pcap_args \<Rightarrow> (nat \<Rightarrow> int) \<Rightarrow> nat \<Rightarrow> bytes res" where
  "pcap_make_frame args draw packet_index =
     (if gp_frame_len args < 60 then Inl (ValueError ''--frame-len must be at least 60 bytes'')
      else if gp_frame_len args > 0xFFFF
      then Inl (ValueError ''--frame-len must fit the 16-bit replay descriptor length'')
      else if gp_frame_len args < 14 + 20 + 8 then Inl (ValueError ''--frame-len must be at least 42 bytes'')
      else
        let (src_ip, dst_ip, src_port, dst_port) = flow_of args (int packet_index);
            udp_payload_len = gp_frame_len args - 14 - 20 - 8;
            udp_payload = payload_pattern (draw packet_index) (int packet_index) udp_payload_len;
            udp_len = 8 + udp_payload_len;
            ip_total_len = 20 + udp_len
        in bind_res (ip_header_of ip_total_len (int packet_index) src_ip dst_ip) (\<lambda>ip_header.
           bind_res (udp_header_of src_ip dst_ip src_port dst_port udp_len udp_payload) (\<lambda>udp_header.
           bind_res (pack_be 2 0x0800) (\<lambda>ethertype.
           let frame = (gp_dst_mac args @ gp_src_mac args @ ethertype) @ ip_header @ udp_header @ udp_payload
           in if int (length frame) < 60
              then bind_res (zeros (60 - int (length frame))) (\<lambda>pad. Inr (frame @ pad))
              else Inr frame))))"

definition timestamp_from_index :: "int \<Rightarrow> int \<Rightarrow> int \<times> int" where
  "timestamp_from_index packet_index gap_ns =
     (let ts_ns = packet_index * gap_ns in (ts_ns div 1000000000, ts_ns mod 1000000000))"

section \<open>The file\<close>

definition gap_ns_of :: "synth_pcap_args \<Rightarrow> int res" where
  "gap_ns_of args =
     (case gp_gap_ns args of
        Some g \<Rightarrow> Inr g
      | None \<Rightarrow> (case gp_gap_ticks args of
            None \<Rightarrow> Inr 0
          | Some t \<Rightarrow> py_round_div (t * 1000000000) (gp_tick_hz args)))"

definition pcap_packet :: "synth_pcap_args \<Rightarrow> (nat \<Rightarrow> int) \<Rightarrow> int \<Rightarrow> nat \<Rightarrow> bytes \<Rightarrow> bytes res" where
  "pcap_packet args draw gap_ns packet_index fh =
     bind_res (pcap_make_frame args draw packet_index) (\<lambda>frame.
     let (ts_sec, ts_nsec) = timestamp_from_index (int packet_index) gap_ns in
     bind_res (pack_fields pack_le [(4, ts_sec), (4, ts_nsec), (4, int (length frame)), (4, int (length frame))]) (\<lambda>hdr.
     Inr (fh @ hdr @ frame)))"

definition gen_synthetic_pcap_main :: "synth_pcap_args \<Rightarrow> (nat \<Rightarrow> int) \<Rightarrow> bytes res" where
  "gen_synthetic_pcap_main args draw =
     (if gp_packet_count args \<le> 0 then Inl (SystemExit ''--packet-count must be positive'')
      else bind_res (gap_ns_of args) (\<lambda>gap_ns.
        if gap_ns < 0 then Inl (SystemExit ''--gap-ns must be non-negative'')
        else bind_res (pack_fields pack_le [(4, 0xA1B23C4D), (2, 2), (2, 4), (4, 0), (4, 0), (4, 0xFFFF), (4, 1)]) (\<lambda>hdr.
          fold_res (pcap_packet args draw gap_ns) [0..<nat (gp_packet_count args)] hdr)))"

section \<open>Ones' complement sums\<close>

text \<open>The 16-bit words of a byte string, and their sum; the folded sum is its residue modulo 65535.\<close>

fun word_sum :: "bytes \<Rightarrow> int" where
  "word_sum (hi # lo # rest) = 256 * uint hi + uint lo + word_sum rest"
| "word_sum [hi] = 256 * uint hi"
| "word_sum [] = 0"

definition fold_sum :: "int \<Rightarrow> int" where
  "fold_sum s = (if s = 0 then 0 else (s - 1) mod 65535 + 1)"

lemma word_value: "push_bit 8 (uint (hi :: byte)) OR uint (lo :: byte) = 256 * uint hi + uint lo"
proof -
  have "push_bit 8 (uint hi) AND uint lo = 0"
  proof (rule bit_eqI)
    fix n
    have "bit (uint lo) n \<Longrightarrow> n < 8"
      using bit_uint_iff [of lo n] by simp
    then show "bit (push_bit 8 (uint hi) AND uint lo) n = bit (0 :: int) n"
      by (auto simp: bit_and_iff bit_push_bit_iff)
  qed
  then have "push_bit 8 (uint hi) OR uint lo = push_bit 8 (uint hi) + uint lo"
    by (simp add: disjunctive_add_eq_or)
  then show ?thesis by (simp add: push_bit_eq_mult)
qed

lemma and_ffff: "x AND 0xFFFF = x mod (65536 :: int)"
proof -
  have "take_bit 16 x = x AND mask 16" by (rule take_bit_eq_mask)
  then show ?thesis by (simp add: take_bit_eq_mod mask_eq_exp_minus_1)
qed

lemma fold_step:
  fixes t w :: int
  assumes "0 \<le> t" and "t \<le> 65535" and "0 \<le> w" and "w \<le> 65535"
  shows "((t + w) AND 0xFFFF) + drop_bit 16 (t + w) = (if t + w < 65536 then t + w else t + w - 65535)"
proof -
  have a: "(t + w) AND 0xFFFF = (t + w) mod 65536"
    by (rule and_ffff)
  have d: "drop_bit 16 (t + w) = (t + w) div 65536" by (simp add: drop_bit_eq_div)
  show ?thesis
  proof (cases "t + w < 65536")
    case True
    with assms show ?thesis unfolding a d by simp
  next
    case False
    then have "(t + w) div 65536 = 1" using assms by (simp add: div_pos_geq)
    moreover from this have "(t + w) mod 65536 = t + w - 65536" using mult_div_mod_eq [of 65536 "t + w"] by linarith
    ultimately show ?thesis using False unfolding a d by simp
  qed
qed

lemma fold_sum_bounds: "0 \<le> s \<Longrightarrow> 0 \<le> fold_sum s \<and> fold_sum s \<le> 65535"
  using pos_mod_bound [of 65535 "s - 1"] pos_mod_sign [of 65535 "s - 1"] by (auto simp: fold_sum_def)

lemma fold_sum_add:
  assumes "0 \<le> s" and "0 \<le> w" and "w \<le> 65535"
  shows "(if fold_sum s + w < 65536 then fold_sum s + w else fold_sum s + w - 65535) = fold_sum (s + w)"
proof (cases "s = 0 \<or> w = 0")
  case True
  with assms fold_sum_bounds [OF assms(1)] show ?thesis by (auto simp: fold_sum_def)
next
  case False
  define m where "m = (s - 1) mod 65535"
  have m: "0 \<le> m" "m < 65535" by (simp_all add: m_def)
  have s: "fold_sum s = m + 1" using False by (simp add: fold_sum_def m_def)
  have "fold_sum (s + w) = (s - 1 + w) mod 65535 + 1" using assms False by (simp add: fold_sum_def algebra_simps)
  also have "(s - 1 + w) mod 65535 = (m + w) mod 65535" by (simp add: m_def mod_simps)
  also have "\<dots> = (if m + w < 65535 then m + w else m + w - 65535)"
  proof (cases "m + w < 65535")
    case True
    then have "(m + w) mod 65535 = m + w" using m assms(2) by (intro mod_pos_pos_trivial) simp_all
    with True show ?thesis by simp
  next
    case False
    then have "(m + w - 65535) mod 65535 = m + w - 65535" using m assms(3) by (intro mod_pos_pos_trivial) simp_all
    with False show ?thesis by (simp only: minus_mod_self2 if_False)
  qed
  finally show ?thesis unfolding s by auto
qed

lemma word_sum_nonneg: "0 \<le> word_sum bs"
  by (induction bs rule: word_sum.induct) simp_all

lemma checksum_loop_fold:
  "even (length bs) \<Longrightarrow> 0 \<le> s \<Longrightarrow> checksum_loop (fold_sum s) bs = fold_sum (s + word_sum bs)"
proof (induction "fold_sum s" bs arbitrary: s rule: checksum_loop.induct)
  case (1 hi lo rest)
  let ?w = "256 * uint hi + uint lo"
  have w: "0 \<le> ?w" "?w \<le> 65535" using uint_byte_bounds [of hi] uint_byte_bounds [of lo] by linarith+
  have f: "0 \<le> fold_sum s" "fold_sum s \<le> 65535" using fold_sum_bounds [OF 1(3)] by simp_all
  have step: "((fold_sum s + ?w) AND 0xFFFF) + drop_bit 16 (fold_sum s + ?w) = fold_sum (s + ?w)"
    unfolding fold_step [OF f w] by (rule fold_sum_add [OF 1(3) w])
  have "checksum_loop (fold_sum (s + ?w)) rest = fold_sum (s + ?w + word_sum rest)"
    by (rule 1(1)) (use 1(2,3) w step in \<open>simp_all add: word_value\<close>)
  then show ?case by (simp add: word_value step Let_def add.assoc)
qed (simp_all)

lemma word_sum_append: "even (length a) \<Longrightarrow> word_sum (a @ b) = word_sum a + word_sum b"
  by (induction a rule: word_sum.induct) simp_all

lemma word_sum_pad: "odd (length a) \<Longrightarrow> word_sum (a @ [0]) = word_sum a"
  by (induction a rule: word_sum.induct) simp_all

lemma checksum_eq: "checksum bs = 65535 - fold_sum (word_sum bs)"
proof -
  let ?d = "if odd (length bs) then bs @ [0] else bs"
  have "checksum_loop (fold_sum 0) ?d = fold_sum (0 + word_sum ?d)"
    by (rule checksum_loop_fold) simp_all
  then have l: "checksum_loop 0 ?d = fold_sum (word_sum bs)"
    by (simp add: fold_sum_def word_sum_pad)
  have b: "0 \<le> fold_sum (word_sum bs)" "fold_sum (word_sum bs) \<le> 65535"
    using fold_sum_bounds [OF word_sum_nonneg] by simp_all
  have "NOT x AND 0xFFFF = 65535 - x" if "0 \<le> x" "x \<le> 65535" for x :: int
  proof -
    have "NOT x = - x - 1" by (simp add: not_int_def)
    then have "NOT x AND 0xFFFF = (- x - 1) mod 65536" by (simp only: and_ffff)
    also have "\<dots> = (65535 - x) mod 65536" using mod_add_self2 [of "- x - 1" 65536] by (simp add: algebra_simps)
    also have "\<dots> = 65535 - x" using that by (intro mod_pos_pos_trivial) simp_all
    finally show ?thesis .
  qed
  from this [OF b] show ?thesis unfolding checksum_def Let_def l .
qed

lemma fold_sum_complement:
  assumes "0 \<le> s"
  shows "fold_sum (s + (65535 - fold_sum s)) = 65535"
proof (cases "s = 0")
  case True
  then show ?thesis by (simp add: fold_sum_def)
next
  case False
  define k where "k = (s - 1) div 65535"
  define m where "m = (s - 1) mod 65535"
  have "s - 1 = 65535 * k + m" by (simp add: k_def m_def)
  moreover have "fold_sum s = m + 1" using False by (simp add: fold_sum_def m_def)
  ultimately have e: "s + (65535 - fold_sum s) = 65535 * (k + 1)" by (simp add: algebra_simps)
  have "0 \<le> k" using assms False by (simp add: k_def pos_imp_zdiv_nonneg_iff)
  then have "65535 * (k + 1) \<noteq> 0" by simp
  moreover have "(65535 * (k + 1) - 1) mod 65535 = (65534 + k * 65535) mod 65535" by (simp add: algebra_simps)
  then have "(65535 * (k + 1) - 1) mod 65535 = 65534" by (simp only: mod_mult_self1, simp)
  ultimately have "fold_sum (65535 * (k + 1)) = 65535" unfolding fold_sum_def by (simp only: if_False)
  then show ?thesis unfolding e .
qed

lemma word_sum_be2: "0 \<le> c \<Longrightarrow> c < 65536 \<Longrightarrow> word_sum (be_bytes 2 c) = c"
proof -
  assume c: "0 \<le> c" "c < 65536"
  have "be_bytes 2 c = [word_of_int (c div 256), word_of_int c]" by (simp add: be_bytes_def numeral_2_eq_2)
  then have "word_sum (be_bytes 2 c) = 256 * (c div 256 mod 256) + c mod 256" by (simp add: uint_word_of_int)
  moreover have "c div 256 mod 256 = c div 256"
  proof (rule mod_pos_pos_trivial)
    define q where "q = c div 256"
    define r where "r = c mod 256"
    have "256 * q + r = c" "0 \<le> r" "r < 256" by (simp_all add: q_def r_def)
    then have "0 \<le> q" "q < 256" using c by linarith+
    then show "0 \<le> c div 256" "c div 256 < 256" by (simp_all add: q_def)
  qed
  ultimately show ?thesis by simp
qed

text \<open>Putting the checksum (or, for UDP, \<open>0xFFFF\<close> for zero) in place of its zero field makes the sum check.\<close>

lemma checksum_verifies:
  assumes "even (length a)" and "c = checksum (a @ be_bytes 2 0 @ b)"
  shows "checksum (a @ be_bytes 2 (if udp \<and> c = 0 then 0xFFFF else c) @ b) = 0"
proof -
  define s where "s = word_sum (a @ be_bytes 2 0 @ b)"
  have s0: "0 \<le> s" by (simp add: s_def word_sum_nonneg)
  have c: "c = 65535 - fold_sum s" using assms(2) by (simp add: checksum_eq s_def)
  have cb: "0 \<le> c" "c < 65536" using fold_sum_bounds [OF s0] by (simp_all add: c)
  have put: "word_sum (a @ be_bytes 2 v @ b) = s + v" if "0 \<le> v" "v < 65536" for v
    using assms(1) that word_sum_be2 [OF that] word_sum_be2 [of 0] by (simp add: s_def word_sum_append)
  show ?thesis
  proof (cases "udp \<and> c = 0")
    case True
    then have "fold_sum s = 65535" by (simp add: c)
    then have "s \<noteq> 0" by (auto simp: fold_sum_def)
    then have "fold_sum (s + 65535) = fold_sum s"
      using s0 mod_add_self2 [of "s - 1" 65535] by (simp add: fold_sum_def algebra_simps)
    then have "fold_sum (s + 65535) = 65535" using \<open>fold_sum s = 65535\<close> by simp
    then show ?thesis using True put [of 65535] by (simp add: checksum_eq)
  next
    case False
    then show ?thesis using put [OF cb] fold_sum_complement [OF s0] by (auto simp: checksum_eq c)
  qed
qed

section \<open>Well-formed frames\<close>

lemma pack_be_eq_Inr: "pack_be w v = Inr bs \<longleftrightarrow> 0 \<le> v \<and> v < 256 ^ w \<and> bs = be_bytes w v"
  by (auto simp: pack_be_def)

lemma ip_header_of_Inr:
  assumes "ip_header_of n i src dst = Inr h"
  shows "length h = 20" and "checksum h = 0"
    and "pyslice 2 4 h = be_bytes 2 n" and "pyslice 12 20 h = be_bytes 4 src @ be_bytes 4 dst"
proof -
  let ?a = "be_bytes 1 0x45 @ be_bytes 1 0 @ be_bytes 2 n @ be_bytes 2 (i AND 0xFFFF) @ be_bytes 2 0x4000
    @ be_bytes 1 64 @ be_bytes 1 17"
  let ?b = "be_bytes 4 src @ be_bytes 4 dst"
  let ?c = "checksum (?a @ be_bytes 2 0 @ ?b)"
  have h: "h = ?a @ be_bytes 2 ?c @ ?b"
    using assms by (auto simp: ip_header_of_def res_simps pack_be_eq_Inr)
  show "length h = 20" by (simp add: h)
  have "even (length ?a)" by simp
  from checksum_verifies [OF this refl, where b = ?b and udp = False] show "checksum h = 0" by (simp only: h simp_thms if_False)
  show "pyslice 2 4 h = be_bytes 2 n" "pyslice 12 20 h = be_bytes 4 src @ be_bytes 4 dst"
    by (simp_all add: h pyslice_def)
qed

lemma udp_header_of_Inr:
  assumes "udp_header_of src dst sp dp n payload = Inr h"
  shows "length h = 8" and "pyslice 4 6 h = be_bytes 2 n"
    and "checksum ((be_bytes 4 src @ be_bytes 4 dst @ [0, 17] @ be_bytes 2 n) @ h @ payload) = 0"
proof -
  let ?ps = "be_bytes 4 src @ be_bytes 4 dst @ be_bytes 1 0 @ be_bytes 1 17 @ be_bytes 2 n"
  let ?u = "be_bytes 2 sp @ be_bytes 2 dp @ be_bytes 2 n"
  let ?c = "checksum ((?ps @ ?u) @ be_bytes 2 0 @ payload)"
  have h: "h = ?u @ be_bytes 2 (if True \<and> ?c = 0 then 0xFFFF else ?c)"
    using assms by (auto simp: udp_header_of_def res_simps pack_be_eq_Inr Let_def)
  show "length h = 8" "pyslice 4 6 h = be_bytes 2 n" by (simp_all add: h pyslice_def)
  have "even (length (?ps @ ?u))" by simp
  note v = checksum_verifies [OF this refl, where b = payload and udp = True]
  have one: "be_bytes 1 0 = [0]" "be_bytes 1 17 = [17]" by (simp_all add: be_bytes_def)
  from v show "checksum ((be_bytes 4 src @ be_bytes 4 dst @ [0, 17] @ be_bytes 2 n) @ h @ payload) = 0"
    unfolding h by (simp only: one append_assoc append_Cons append_Nil)
qed

lemma length_payload_pattern [simp]: "length (payload_pattern sd i n) = nat n"
  by (simp add: payload_pattern_def)

definition macs_ok :: "synth_pcap_args \<Rightarrow> bool" where
  "macs_ok args \<longleftrightarrow> length (gp_src_mac args) = 6 \<and> length (gp_dst_mac args) = 6"

lemma pcap_make_frame_Inr:
  assumes "pcap_make_frame args draw i = Inr frame" and "macs_ok args"
  obtains ip udp payload src dst sp dp where
    "60 \<le> gp_frame_len args" "gp_frame_len args \<le> 0xFFFF"
    "frame = gp_dst_mac args @ gp_src_mac args @ [8, 0] @ ip @ udp @ payload"
    "ip_header_of (gp_frame_len args - 14) (int i) src dst = Inr ip"
    "udp_header_of src dst sp dp (gp_frame_len args - 34) payload = Inr udp"
    "int (length payload) = gp_frame_len args - 42"
proof -
  obtain src dst sp dp where f: "flow_of args (int i) = (src, dst, sp, dp)" by (cases "flow_of args (int i)")
  let ?n = "gp_frame_len args"
  have n: "60 \<le> ?n" "?n \<le> 0xFFFF"
    using assms(1) by (auto simp: pcap_make_frame_def split: if_splits)
  let ?pl = "payload_pattern (draw i) (int i) (?n - 14 - 20 - 8)"
  have len: "int (length ?pl) = ?n - 42" using n by simp
  have arith: "8 + (?n - 14 - 20 - 8) = ?n - 34" "20 + (?n - 34) = ?n - 14" by simp_all
  have c: "\<not> ?n < 60" "\<not> ?n > 0xFFFF" "\<not> ?n < 14 + 20 + 8" using n by simp_all
  note m = assms(1) [unfolded pcap_make_frame_def f Let_def prod.case arith if_not_P [OF c(1)] if_not_P [OF c(2)] if_not_P [OF c(3)]]
  from m obtain ip udp et where h: "ip_header_of (?n - 14) (int i) src dst = Inr ip"
    "udp_header_of src dst sp dp (?n - 34) ?pl = Inr udp" "pack_be 2 0x0800 = Inr et"
    and fr: "(if int (length ((gp_dst_mac args @ gp_src_mac args @ et) @ ip @ udp @ ?pl)) < 60
        then bind_res (zeros (60 - int (length ((gp_dst_mac args @ gp_src_mac args @ et) @ ip @ udp @ ?pl))))
          (\<lambda>pad. Inr (((gp_dst_mac args @ gp_src_mac args @ et) @ ip @ udp @ ?pl) @ pad))
        else Inr ((gp_dst_mac args @ gp_src_mac args @ et) @ ip @ udp @ ?pl)) = Inr frame"
    unfolding bind_res_eq_Inr by blast
  have "be_bytes 2 0x0800 = [8, 0]" by code_simp
  then have et: "et = [8, 0]" using h(3) by (simp add: pack_be_eq_Inr)
  have "int (length ((gp_dst_mac args @ gp_src_mac args @ et) @ ip @ udp @ ?pl)) = ?n"
    using assms(2) len ip_header_of_Inr(1) [OF h(1)] udp_header_of_Inr(1) [OF h(2)] by (simp add: macs_ok_def et)
  with fr n(1) have "frame = gp_dst_mac args @ gp_src_mac args @ [8, 0] @ ip @ udp @ ?pl" by (simp add: et)
  from that [OF n this h(1,2) len] show thesis .
qed

lemma pcap_make_frame_checks:
  assumes "pcap_make_frame args draw i = Inr frame" and "macs_ok args"
  shows "int (length frame) = gp_frame_len args
     \<and> pyslice 12 14 frame = [8, 0]
     \<and> be_int (pyslice 16 18 frame) = gp_frame_len args - 14
     \<and> checksum (pyslice 14 34 frame) = 0
     \<and> checksum ((pyslice 26 34 frame @ [0, 17] @ pyslice 38 40 frame) @ drop 34 frame) = 0"
proof -
  from pcap_make_frame_Inr [OF assms] obtain ip udp payload src dst sp dp where
    n: "60 \<le> gp_frame_len args" "gp_frame_len args \<le> 0xFFFF"
    and fr: "frame = gp_dst_mac args @ gp_src_mac args @ [8, 0] @ ip @ udp @ payload"
    and ip: "ip_header_of (gp_frame_len args - 14) (int i) src dst = Inr ip"
    and udp: "udp_header_of src dst sp dp (gp_frame_len args - 34) payload = Inr udp"
    and pl: "int (length payload) = gp_frame_len args - 42" by blast
  note I = ip_header_of_Inr [OF ip] and U = udp_header_of_Inr [OF udp]
  define pre where "pre = gp_dst_mac args @ gp_src_mac args @ [8, 0]"
  have pre: "length pre = 14" using assms(2) by (simp add: pre_def macs_ok_def)
  have fr': "frame = pre @ ip @ udp @ payload" by (simp add: fr pre_def)
  have at: "pyslice (14 + a) (14 + b) frame = pyslice a b ip" if "b \<le> 20" for a b
    using that pre I(1) by (simp add: fr' pyslice_append2 pyslice_append1)
  have s1: "pyslice 16 18 frame = be_bytes 2 (gp_frame_len args - 14)" using at [of 4 2] I(3) by simp
  have s2: "pyslice 14 34 frame = ip" using at [of 20 0] I(1) by (simp add: pyslice_def)
  have s3: "pyslice 26 34 frame = be_bytes 4 src @ be_bytes 4 dst" using at [of 20 12] I(4) by simp
  have s4: "drop 34 frame = udp @ payload" using pre I(1) by (simp add: fr')
  have "pyslice 38 40 frame = pyslice 4 6 udp"
    using pre I(1) U(1) by (simp add: fr' pyslice_append2 pyslice_append1)
  then have s5: "pyslice 38 40 frame = be_bytes 2 (gp_frame_len args - 34)" using U(2) by simp
  have s6: "pyslice 12 14 frame = [8, 0]" using assms(2) by (simp add: fr pyslice_def macs_ok_def)
  have "int (length frame) = gp_frame_len args" using pre I(1) U(1) pl by (simp add: fr')
  moreover have "be_int (be_bytes 2 (gp_frame_len args - 14)) = gp_frame_len args - 14"
    using n by (intro be_int_be_bytes) simp_all
  ultimately show ?thesis using I(2) U(3) unfolding s1 s2 s3 s4 s5 s6 by simp
qed

text \<open>C16: Generated packets are valid.  Every frame gen_synthetic_pcap makes has the requested length, the
  IPv4 ethertype, an IPv4 total length that covers the rest of the frame, an IPv4 header whose
  Internet checksum verifies, and a UDP datagram whose checksum verifies with the pseudo header a
  receiver builds from the frame itself; this holds for odd lengths and for the all-ones
  representation of a zero UDP checksum as well.\<close>

theorem generated_frame_valid:
  assumes "pcap_make_frame args draw i = Inr frame" and "macs_ok args"
  shows "int (length frame) = gp_frame_len args
     \<and> pyslice 12 14 frame = [8, 0]
     \<and> be_int (pyslice 16 18 frame) = gp_frame_len args - 14
     \<and> checksum (pyslice 14 34 frame) = 0
     \<and> checksum ((pyslice 26 34 frame @ [0, 17] @ pyslice 38 40 frame) @ drop 34 frame) = 0"
  by (rule pcap_make_frame_checks [OF assms])

definition demo_pcap_args :: synth_pcap_args where
  "demo_pcap_args = \<lparr> gp_packet_count = 3, gp_frame_len = 61, gp_gap_ns = Some 127, gp_gap_ticks = None,
     gp_tick_hz = 300000000, gp_src_mac = [2, 0, 0, 0, 0, 1], gp_dst_mac = [2, 0, 0, 0, 0, 2],
     gp_src_ip = 0xC6120001, gp_dst_ip = 0xC6130001, gp_src_port = 12345, gp_dst_port = 443, gp_vary_flow = True \<rparr>"

definition demo_draw :: "nat \<Rightarrow> int" where
  "demo_draw i = 200"

definition demo_frame :: bytes where
  "demo_frame = projr (pcap_make_frame demo_pcap_args demo_draw 1)"

lemma demo_frame_ok: "pcap_make_frame demo_pcap_args demo_draw 1 = Inr demo_frame"
proof -
  have "isl (pcap_make_frame demo_pcap_args demo_draw 1) = False" by code_simp
  then show ?thesis by (simp add: demo_frame_def)
qed

theorem generated_frame_valid_witness:
  "length demo_frame = 61 \<and> checksum (pyslice 14 34 demo_frame) = 0"
proof -
  have "macs_ok demo_pcap_args" "gp_frame_len demo_pcap_args = 61" by (simp_all add: macs_ok_def demo_pcap_args_def)
  with generated_frame_valid [OF demo_frame_ok] show ?thesis by simp
qed

section \<open>The capture as input of pcap2trace\<close>

definition gen_info :: pcap_info where
  "gen_info = \<lparr> version_major = 2, version_minor = 4, snaplen = 0xFFFF, network = 1 \<rparr>"

definition gen_rec :: "synth_pcap_args \<Rightarrow> (nat \<Rightarrow> int) \<Rightarrow> int \<Rightarrow> nat \<Rightarrow> pcap_rec" where
  "gen_rec args draw g i =
     (let f = projr (pcap_make_frame args draw i) in
      \<lparr> r_sec = (int i * g) div 1000000000, r_frac = (int i * g) mod 1000000000,
        r_orig_len = int (length f), r_payload = f \<rparr>)"

lemma pcap_packet_Inr:
  assumes "pcap_packet args draw g i fh = Inr fh'" and "macs_ok args"
  shows "\<exists>frame. pcap_make_frame args draw i = Inr frame" and "pcap_rec_valid (gen_rec args draw g i)"
    and "fh' = fh @ enc_pcap_record Little (gen_rec args draw g i)"
proof -
  from assms(1) obtain frame where f: "pcap_make_frame args draw i = Inr frame"
    by (auto simp: pcap_packet_def bind_res_eq_Inr)
  then show "\<exists>frame. pcap_make_frame args draw i = Inr frame" by blast
  note v = pcap_make_frame_checks [OF f assms(2)]
  have "gp_frame_len args \<le> 0xFFFF" using f by (auto simp: pcap_make_frame_def split: if_splits)
  then have len: "int (length frame) \<le> 0xFFFF" using v by simp
  from assms(1) f show "pcap_rec_valid (gen_rec args draw g i)"
    and "fh' = fh @ enc_pcap_record Little (gen_rec args draw g i)"
    using len
    by (auto simp: pcap_packet_def timestamp_from_index_def Let_def res_simps pack_le_eq_Inr gen_rec_def
        pcap_rec_valid_def enc_pcap_record_def en_bytes_def)
qed

lemma gen_synthetic_pcap_Inr:
  assumes "gen_synthetic_pcap_main args draw = Inr file" and "macs_ok args" and "gap_ns_of args = Inr g"
  defines "n \<equiv> nat (gp_packet_count args)"
  shows "0 \<le> g" and "file = enc_pcap Little True gen_info (map (gen_rec args draw g) [0..<n])"
    and "\<forall>i < n. (\<exists>frame. pcap_make_frame args draw i = Inr frame) \<and> pcap_rec_valid (gen_rec args draw g i)"
proof -
  show g: "0 \<le> g" using assms(1,3) by (auto simp: gen_synthetic_pcap_main_def split: if_splits)
  have "pack_fields pack_le [(4, 0xA1B23C4D), (2, 2), (2, 4), (4, 0), (4, 0), (4, 0xFFFF), (4, 1)]
      = Inr (enc_pcap_header Little True gen_info)"
    by (simp add: pack_le_def enc_pcap_header_def pcap_magic_def en_bytes_def gen_info_def)
  with assms(1,3) have f: "fold_res (pcap_packet args draw g) [0..<n] (enc_pcap_header Little True gen_info) = Inr file"
    by (auto simp: gen_synthetic_pcap_main_def n_def simp del: pack_fields.simps split: if_splits)
  have "fold_res (pcap_packet args draw g) [0..<k] hdr = Inr out \<Longrightarrow>
     out = hdr @ concat (map (enc_pcap_record Little) (map (gen_rec args draw g) [0..<k]))
     \<and> (\<forall>i < k. (\<exists>frame. pcap_make_frame args draw i = Inr frame) \<and> pcap_rec_valid (gen_rec args draw g i))" for k hdr out
  proof (induction k arbitrary: out)
    case 0
    then show ?case by simp
  next
    case (Suc k)
    then obtain mid where "fold_res (pcap_packet args draw g) [0..<k] hdr = Inr mid" "pcap_packet args draw g k mid = Inr out"
      by (auto simp: fold_res_append res_simps simp del: fold_res.simps)
    with Suc.IH [OF this(1)] pcap_packet_Inr [OF this(2) assms(2)] show ?case by (auto simp: less_Suc_eq)
  qed
  from this [OF f] show "file = enc_pcap Little True gen_info (map (gen_rec args draw g) [0..<n])"
    "\<forall>i < n. (\<exists>frame. pcap_make_frame args draw i = Inr frame) \<and> pcap_rec_valid (gen_rec args draw g i)"
    by (simp_all add: enc_pcap_def)
qed

text \<open>C15: From synthetic capture to trace.  Let gen_synthetic_pcap write a capture of fewer than \<open>2^22\<close> packets
  (so that every data offset fits 32 bits) with six-byte MAC addresses, and let pcap2trace run with a tick
  rate between 0 and \<open>2^30\<close> and a minimum frame length of at most 60 (so that it pads nothing).  Then
  pcap2trace converts the file without an exception; the trace holds the generated frames unchanged and
  in order, and packet k is scheduled at the tick of k times the nanosecond gap, measured from the first
  packet, so the trace does not drift from the capture up to its last packet.\<close>

theorem generated_pcap_to_trace:
  assumes "gen_synthetic_pcap_main args draw = Inr file" and "macs_ok args" and "gap_ns_of args = Inr g"
    and "0 \<le> pa_tick_hz pargs" and "pa_tick_hz pargs \<le> 2 ^ 30" and "pa_min_frame pargs \<le> 60"
    and "gp_packet_count args < 2 ^ 22" and "k < nat (gp_packet_count args)"
  shows "\<exists>out m. pcap2trace_main pargs file = Inr (out, m)
     \<and> length (trace_packets (tr_desc_file out) (tr_data_file out)) = nat (gp_packet_count args)
     \<and> pcap_make_frame args draw k = Inr (snd (trace_packets (tr_desc_file out) (tr_data_file out) ! k))
     \<and> gap_sum (take (Suc k) (trace_packets (tr_desc_file out) (tr_data_file out)))
         = tick_of (pa_tick_hz pargs) (int k * g)"
proof -
  let ?n = "nat (gp_packet_count args)"
  let ?rs = "map (gen_rec args draw g) [0..<?n]"
  note gen = gen_synthetic_pcap_Inr [OF assms(1-3)]
  have ns: "rec_ns True (gen_rec args draw g i) = int i * g" for i
    by (simp add: rec_ns_def timestamp_to_ns_def gen_rec_def Let_def)
  have frame: "frame_of pargs (gen_rec args draw g i) = projr (pcap_make_frame args draw i)
      \<and> length (frame_of pargs (gen_rec args draw g i)) \<le> 65535" if "i < ?n" for i
  proof -
    from gen(3) that obtain f where f: "pcap_make_frame args draw i = Inr f" by blast
    have "int (length f) = gp_frame_len args" using pcap_make_frame_checks [OF f assms(2)] by blast
    moreover have "60 \<le> gp_frame_len args" "gp_frame_len args \<le> 0xFFFF"
      using f by (auto simp: pcap_make_frame_def split: if_splits)
    ultimately show ?thesis using assms(6) by (simp add: frame_of_def gen_rec_def f Let_def)
  qed
  have "sum_list (map (beats \<circ> frame_of pargs) ?rs) \<le> int (length ?rs) * 1024"
  proof -
    have "\<forall>p \<in> set (map (\<lambda>r. (0, frame_of pargs r)) ?rs). beats (snd p) \<le> 1024"
      using frame [THEN conjunct2] beats_bound by auto
    from total_beats_bound [OF this] show ?thesis by (simp add: total_beats_def o_def)
  qed
  moreover have "int (length ?rs) * 1024 < 2 ^ 32" using assms(7) by simp
  ultimately have "sum_list (map (beats \<circ> frame_of pargs) ?rs) < 2 ^ 32" by (rule le_less_trans)
  then have fits: "pcap_fits pargs ?rs" using gen(3) frame [THEN conjunct2] assms(4,5) by (auto simp: pcap_fits_def)
  have info: "pcap_info_valid gen_info" by (simp add: pcap_info_valid_def gen_info_def)
  from pcap2trace_converts [OF fits info, of Little True] obtain out m where
    r: "pcap2trace_main pargs file = Inr (out, m)"
      "trace_packets (tr_desc_file out) (tr_data_file out) = conv_packets pargs True ?rs"
    unfolding gen(2) by blast
  have "sorted (map (rec_ns True) ?rs)"
    using gen(1) by (auto simp: sorted_iff_nth_mono ns intro: mult_right_mono)
  then have gaps: "gap_sum (take (Suc k) (conv_packets pargs True ?rs)) = rel_tick pargs True (?rs ! 0) (?rs ! k)"
    by (rule gap_sum_take [OF assms(4)]) (use assms(8) in simp)
  have "rel_tick pargs True (?rs ! 0) (?rs ! k) = tick_of (pa_tick_hz pargs) (int k * g)"
    using assms(8) gen(1) by (simp add: rel_tick_def ns)
  moreover have "snd (conv_packets pargs True ?rs ! k) = frame_of pargs (?rs ! k)"
    using arg_cong [OF map_snd_conv_packets [of pargs True ?rs], of "\<lambda>xs. xs ! k"] assms(8) by simp
  ultimately show ?thesis using r gaps frame [OF assms(8)] gen(3) assms(8) by auto
qed

lemma fold_res_isr:
  "(\<And>i s. i < n \<Longrightarrow> \<exists>t. f i s = Inr t) \<Longrightarrow> \<exists>t. fold_res f [0..<n] s = Inr t"
proof (induction n)
  case 0
  then show ?case by simp
next
  case (Suc n)
  then obtain t where "fold_res f [0..<n] s = Inr t" using less_Suc_eq by auto
  moreover obtain u where "f n t = Inr u" using Suc.prems [of n t] by auto
  ultimately show ?case by (simp add: fold_res_append del: fold_res.simps)
qed

theorem generated_pcap_to_trace_witness:
  "\<exists>file out m. gen_synthetic_pcap_main demo_pcap_args demo_draw = Inr file
     \<and> pcap2trace_main demo_args file = Inr (out, m)
     \<and> gap_sum (take 3 (trace_packets (tr_desc_file out) (tr_data_file out))) = 76"
proof -
  have frames: "\<not> isl (pcap_make_frame demo_pcap_args demo_draw i)" if "i \<in> {0, 1, 2}" for i
    using that by (elim insertE emptyE) (simp only:; code_simp)+
  have step: "\<exists>t. pcap_packet demo_pcap_args demo_draw 127 i s = Inr t" if i: "i < 3" for i s
  proof -
    obtain f where f: "pcap_make_frame demo_pcap_args demo_draw i = Inr f"
      using frames [of i] i by (cases "pcap_make_frame demo_pcap_args demo_draw i") (auto simp: numeral_3_eq_3 less_Suc_eq)
    have "macs_ok demo_pcap_args" "gp_frame_len demo_pcap_args = 61" by (simp_all add: macs_ok_def demo_pcap_args_def)
    with pcap_make_frame_checks [OF f] have "length f = 61" by simp
    moreover have "int i * 127 div 1000000000 = 0" "int i * 127 mod 1000000000 = int i * 127" using i by simp_all
    ultimately show ?thesis by (simp add: pcap_packet_def f timestamp_from_index_def pack_le_def)
  qed
  have all: "\<exists>t. fold_res (pcap_packet demo_pcap_args demo_draw 127) [0..<3] hdr = Inr t" for hdr
    by (rule fold_res_isr) (rule step)
  have "gap_ns_of demo_pcap_args = Inr 127" "gp_packet_count demo_pcap_args = 3"
    by (simp_all add: demo_pcap_args_def gap_ns_of_def)
  then obtain out_file where out_file: "gen_synthetic_pcap_main demo_pcap_args demo_draw = Inr out_file"
    using all by (auto simp: gen_synthetic_pcap_main_def pack_le_def)
  have args: "macs_ok demo_pcap_args" "gap_ns_of demo_pcap_args = Inr 127" "0 \<le> pa_tick_hz demo_args"
    "pa_tick_hz demo_args \<le> 2 ^ 30" "pa_min_frame demo_args \<le> 60" "gp_packet_count demo_pcap_args < 2 ^ 22"
    "2 < nat (gp_packet_count demo_pcap_args)"
    by (simp_all add: macs_ok_def demo_pcap_args_def demo_args_def gap_ns_of_def)
  have "tick_of (pa_tick_hz demo_args) (int 2 * 127) = 76" by code_simp
  with generated_pcap_to_trace [OF out_file args] out_file show ?thesis by (auto simp: numeral_3_eq_3)
qed

text \<open>
  The tick option is rounded to whole nanoseconds once, before it is multiplied by the packet index:
  at 300 MHz a gap of 38 ticks becomes 127 ns, and packet 100 lands on tick 3810 instead of 3800.
\<close>

lemma gap_ticks_option_drifts:
  "gap_ns_of (demo_pcap_args\<lparr> gp_gap_ns := None, gp_gap_ticks := Some 38 \<rparr>) = Inr 127
   \<and> tick_of 300000000 (100 * 127) = 3810 \<and> 100 * 38 = (3800 :: int)"
proof -
  have "py_round_div 38000000000 300000000 = Inr (round_fl (of_int 38000000000 / of_int 300000000))"
    by (rule py_round_div_Inr) simp_all
  moreover have "round_fl (of_int 38000000000 / of_int 300000000) = 127" by code_simp
  ultimately have "py_round_div 38000000000 300000000 = Inr 127" by simp
  moreover have "tick_of 300000000 12700 = 3810" by code_simp
  ultimately show ?thesis by (simp add: gap_ns_of_def demo_pcap_args_def)
qed

end
