(* ===== verification/TraceToStream.thy ===== *)
theory TraceToStream
  imports TraceFormat
begin

text \<open>
  software/trace_to_stream.py: descriptor and data file become one stream of records, each a 64-byte
  header (the descriptor with the data offset cleared) followed by the padded frame.  The theory also
  has the stream's own specification, \<open>enc_stream\<close>, which the stripe tool and the ring loader read.
\<close>

section \<open>The script\<close>

record tts_state =
  ts_out :: bytes
  ts_stream_bytes :: int
  ts_total_frame_bytes :: int

definition tts_init :: tts_state where
  "tts_init = \<lparr> ts_out = [], ts_stream_bytes = 0, ts_total_frame_bytes = 0 \<rparr>"

definition truncated_payload_msg :: "int \<Rightarrow> int \<Rightarrow> int \<Rightarrow> int \<Rightarrow> string" where
  "truncated_payload_msg pkt_idx need off got =
     ''payload for packet '' @ show_int pkt_idx @ '' is truncated: need '' @ show_int need
       @ '' bytes at offset '' @ show_int off @ '', got '' @ show_int got"

definition tts_packet :: "bytes \<Rightarrow> bytes \<Rightarrow> nat \<Rightarrow> tts_state \<Rightarrow> tts_state res" where
  "tts_packet desc_bytes data_bytes pkt_idx st =
     (let desc = pyslice (pkt_idx * DESC_BYTES) ((pkt_idx + 1) * DESC_BYTES) desc_bytes;
          d = unpack_QIHH (take 16 desc);
          payload_offset = d_data_word_offset d * DATA_BEAT_BYTES;
          payload_len_aligned = align_up (d_frame_len d) DATA_BEAT_BYTES;
          payload = pyslice (nat payload_offset) (nat (payload_offset + payload_len_aligned)) data_bytes
      in if int (length payload) \<noteq> payload_len_aligned
         then Inl (SystemExit (truncated_payload_msg (int pkt_idx) payload_len_aligned payload_offset (int (length payload))))
         else bind_res (pack_QIHH (d_gap_ticks d) 0 (d_frame_len d) (d_flags d)) (\<lambda>packed.
           let header = packed @ replicate (DESC_BYTES - length packed) 0 in
           Inr \<lparr> ts_out = ts_out st @ header @ payload,
                 ts_stream_bytes = ts_stream_bytes st + int DESC_BYTES + payload_len_aligned,
                 ts_total_frame_bytes = ts_total_frame_bytes st + d_frame_len d \<rparr>))"

definition trace_to_stream_main :: "bytes \<Rightarrow> bytes \<Rightarrow> (tts_state \<times> int) res" where
  "trace_to_stream_main desc_bytes data_bytes =
     (if length desc_bytes mod DESC_BYTES \<noteq> 0
      then Inl (SystemExit (''descriptor file size must be a multiple of 64: '' @ show_int (int (length desc_bytes))))
      else let packet_count = length desc_bytes div DESC_BYTES in
        bind_res (fold_res (tts_packet desc_bytes data_bytes) [0..<packet_count] tts_init) (\<lambda>st.
        Inr (st, int packet_count)))"

section \<open>The stream of a list of packets\<close>

definition enc_record :: "packet \<Rightarrow> bytes" where
  "enc_record p = enc_desc \<lparr> d_gap_ticks = fst p, d_data_word_offset = 0,
     d_frame_len = int (length (snd p)), d_flags = 0 \<rparr> @ pad_frame (snd p)"

definition enc_stream :: "packet list \<Rightarrow> bytes" where
  "enc_stream ps = concat (map enc_record ps)"

lemma length_enc_record: "int (length (enc_record p)) = 64 + beats (snd p) * 64"
  by (simp add: enc_record_def length_pad_frame)

lemma length_enc_stream: "int (length (enc_stream ps)) = 64 * (int (length ps) + total_beats ps)"
proof (induction ps)
  case Nil
  then show ?case by (simp add: enc_stream_def total_beats_def)
next
  case (Cons p ps)
  then show ?case using length_enc_record [of p] by (simp add: enc_stream_def total_beats_def)
qed

text \<open>The record of packet \<open>i\<close> of a well-formed trace.\<close>

lemma pyslice_data_of:
  assumes "i < length ps"
  shows "pyslice (nat (total_beats (take i ps) * 64)) (nat (total_beats (take i ps) * 64 + beats (snd (ps ! i)) * 64))
           (data_of ps) = pad_frame (snd (ps ! i))"
proof -
  have off: "nat (total_beats (take i ps) * 64) = length (data_of (take i ps))"
    using length_data_of [of "take i ps"] by simp
  have len: "nat (total_beats (take i ps) * 64 + beats (snd (ps ! i)) * 64)
      = length (data_of (take i ps)) + length (pad_frame (snd (ps ! i)))"
    using length_data_of [of "take i ps"] length_pad_frame [of "snd (ps ! i)"] by linarith
  show ?thesis
    unfolding off len data_of_split [OF assms] by (simp add: pyslice_append2 pyslice_0)
qed

lemma tts_packet_trace_of:
  assumes "trace_ok ps" and "i < length ps"
  shows "tts_packet (tr_desc_file (trace_of ps)) (data_of ps) i st =
     Inr \<lparr> ts_out = ts_out st @ enc_record (ps ! i),
           ts_stream_bytes = ts_stream_bytes st + int (length (enc_record (ps ! i))),
           ts_total_frame_bytes = ts_total_frame_bytes st + int (length (snd (ps ! i))) \<rparr>"
proof -
  let ?f = "snd (ps ! i)"
  have d: "unpack_QIHH (take 16 (pyslice (i * 64) ((i + 1) * 64) (tr_desc_file (trace_of ps))))
      = packet_desc (total_beats (take i ps)) (ps ! i)"
    using desc_at_trace_of [OF assms] by (simp add: desc_at_def unpack_QIHH_take16 add.commute)
  have b: "align_up (int (length ?f)) 64 = beats ?f * 64" by (simp add: beats_def align_up_div_mult)
  have "desc_valid \<lparr> d_gap_ticks = fst (ps ! i), d_data_word_offset = 0, d_frame_len = int (length ?f), d_flags = 0 \<rparr>"
    using assms by (auto simp: trace_ok_def packet_ok_def desc_valid_def)
  then show ?thesis
    unfolding tts_packet_def Let_def d
    by (simp add: packet_desc_def b pyslice_data_of [OF assms(2)] length_pad_frame pack_QIHH_eq
        enc_record_def enc_desc_def)
qed

lemma trace_to_stream_converts:
  assumes "trace_ok ps"
  shows "\<exists>st. trace_to_stream_main (tr_desc_file (trace_of ps)) (tr_data_file (trace_of ps)) = Inr (st, int (length ps))
     \<and> ts_out st = enc_stream ps
     \<and> ts_stream_bytes st = int (length (ts_out st))
     \<and> ts_total_frame_bytes st = sum_list (map (int \<circ> length \<circ> snd) ps)"
proof -
  have data: "tr_data_file (trace_of ps) = data_of ps" by (simp add: trace_of_def)
  have "n \<le> length ps \<Longrightarrow> fold_res (tts_packet (tr_desc_file (trace_of ps)) (data_of ps)) [0..<n] tts_init
     = Inr \<lparr> ts_out = enc_stream (take n ps), ts_stream_bytes = int (length (enc_stream (take n ps))),
             ts_total_frame_bytes = sum_list (map (int \<circ> length \<circ> snd) (take n ps)) \<rparr>" for n
  proof (induction n)
    case 0
    then show ?case by (simp add: tts_init_def enc_stream_def)
  next
    case (Suc n)
    then show ?case
      by (simp add: fold_res_append tts_packet_trace_of [OF assms] take_Suc_conv_app_nth enc_stream_def
          del: fold_res.simps)
  qed
  from this [of "length ps"] show ?thesis
    by (simp add: trace_to_stream_main_def length_desc_file data)
qed

text \<open>C9: Stream conversion.  A well-formed trace (descriptor and data files of packets whose fields fit)
  converts without an exception to the stream of the same packets: per packet its header with the
  gap, the frame length and a cleared data offset, then the padded frame; the byte counts in the
  manifest are those of the file.\<close>

theorem trace_to_stream_correct:
  assumes "trace_ok ps"
  shows "\<exists>st. trace_to_stream_main (tr_desc_file (trace_of ps)) (tr_data_file (trace_of ps)) = Inr (st, int (length ps))
     \<and> ts_out st = enc_stream ps
     \<and> ts_stream_bytes st = int (length (ts_out st))
     \<and> ts_total_frame_bytes st = sum_list (map (int \<circ> length \<circ> snd) ps)"
  using assms by (rule trace_to_stream_converts)

theorem trace_to_stream_correct_witness:
  "\<exists>st. trace_to_stream_main (tr_desc_file (trace_of [(0, [1, 2]), (7, [3])])) (tr_data_file (trace_of [(0, [1, 2]), (7, [3])]))
       = Inr (st, 2) \<and> ts_out st = enc_stream [(0, [1, 2]), (7, [3])]"
proof -
  have "trace_ok [(0, [1, 2]), (7, [3])]"
    by (rule trace_okI) (simp_all add: packet_ok_def total_beats_def beats_def align_up_def)
  from trace_to_stream_correct [OF this] show ?thesis by auto
qed

end
