(* ===== verification/StreamStripe.thy ===== *)
theory StreamStripe
  imports TraceToStream PyText
begin

text \<open>
  software/stream_stripe.py: a stream file is cut into record-aligned blocks, dealt round robin to
  the lanes, as one file per block or as one container file per lane.  The file system is a map from
  path to contents; the state carries it together with the script's variables.
\<close>

section \<open>Paths and blocks\<close>

record stripe_args =
  sa_lane_dirs :: "string list"
  sa_block_bytes :: int
  sa_override_gap :: "int option"
  sa_container_files :: bool
  sa_force :: bool

record block_info =
  bk_block_id :: nat
  bk_lane :: nat
  bk_path :: string
  bk_bytes :: int
  bk_packets :: int
  bk_first_packet :: int
  bk_file_offset :: int

record stripe_state =
  sp_fs :: "string \<rightharpoonup> bytes"
  sp_blocks :: "block_info list"
  sp_packet_count :: int
  sp_stream_bytes :: int
  sp_total_frame_bytes :: int
  sp_block_id :: nat
  sp_first_packet :: int
  sp_block_packets :: int
  sp_block_bytes :: int
  sp_container_offsets :: "int list"
  sp_block_path :: string
  sp_block_offset :: int

definition block_path_for :: "string list \<Rightarrow> nat \<Rightarrow> string" where
  "block_path_for lane_dirs block_id =
     lane_dirs ! (block_id mod length lane_dirs) @ ''/block_'' @ pad_left 8 (CHR ''0'') (show_int (int block_id)) @ ''.bin''"

definition container_path_for :: "string list \<Rightarrow> nat \<Rightarrow> string" where
  "container_path_for lane_dirs lane = lane_dirs ! lane @ ''/lane_'' @ show_int (int lane) @ ''.bin''"

definition open_block :: "string list \<Rightarrow> nat \<Rightarrow> bool \<Rightarrow> (string \<rightharpoonup> bytes) \<Rightarrow> (string \<times> (string \<rightharpoonup> bytes)) res" where
  "open_block lane_dirs block_id force fs =
     (let path = block_path_for lane_dirs block_id in
      if path \<in> dom fs \<and> \<not> force
      then Inl (SystemExit (''refusing to overwrite existing block file: '' @ path))
      else Inr (path, fs(path \<mapsto> [])))"

definition open_containers :: "stripe_args \<Rightarrow> (string \<rightharpoonup> bytes) \<Rightarrow> (string \<rightharpoonup> bytes) res" where
  "open_containers args fs =
     fold_res (\<lambda>lane fs.
         let path = container_path_for (sa_lane_dirs args) lane in
         if path \<in> dom fs \<and> \<not> sa_force args
         then Inl (SystemExit (''refusing to overwrite existing container file: '' @ path))
         else Inr (fs(path \<mapsto> [])))
       [0..<length (sa_lane_dirs args)] fs"

section \<open>The loop\<close>

definition start_block :: "stripe_args \<Rightarrow> nat \<Rightarrow> stripe_state \<Rightarrow> stripe_state res" where
  "start_block args next_block_id st =
     (let lane = next_block_id mod length (sa_lane_dirs args) in
      if sa_container_files args
      then Inr (st\<lparr> sp_block_path := container_path_for (sa_lane_dirs args) lane,
                    sp_block_offset := sp_container_offsets st ! lane \<rparr>)
      else bind_res (open_block (sa_lane_dirs args) next_block_id (sa_force args) (sp_fs st)) (\<lambda>(path, fs).
           Inr (st\<lparr> sp_fs := fs, sp_block_path := path, sp_block_offset := 0 \<rparr>)))"

definition finish_block :: "stripe_args \<Rightarrow> stripe_state \<Rightarrow> stripe_state" where
  "finish_block args st =
     (let lane = sp_block_id st mod length (sa_lane_dirs args) in
      if sp_block_packets st = 0 then st
      else (if sa_container_files args
            then st\<lparr> sp_container_offsets :=
                       (sp_container_offsets st)[lane := sp_container_offsets st ! lane + sp_block_bytes st] \<rparr>
            else st)
           \<lparr> sp_blocks := sp_blocks st @
               [\<lparr> bk_block_id = sp_block_id st, bk_lane = lane, bk_path = sp_block_path st,
                  bk_bytes = sp_block_bytes st, bk_packets = sp_block_packets st,
                  bk_first_packet = sp_first_packet st, bk_file_offset = sp_block_offset st \<rparr>] \<rparr>)"

text \<open>One record off the front of the stream: header, frame length and padded payload.\<close>

definition read_stream_record :: "bytes \<Rightarrow> ((bytes \<times> int \<times> bytes) \<times> bytes) option res" where
  "read_stream_record src =
     (let header = take 64 src; rest = drop 64 src in
      if header = [] then Inr None
      else if length header \<noteq> 64 then Inl (SystemExit ''stream file ends with a partial 64-byte header'')
      else
        let frame_len = d_frame_len (unpack_QIHH (take 16 header));
            payload_len = align_up frame_len DATA_BEAT_BYTES;
            payload = take (nat payload_len) rest
        in if int (length payload) \<noteq> payload_len
           then Inl (SystemExit (''short payload: need '' @ show_int payload_len @ '' bytes, got ''
                                 @ show_int (int (length payload))))
           else Inr (Some ((header, frame_len, payload), drop (nat payload_len) rest)))"

definition override_gap :: "int option \<Rightarrow> bytes \<Rightarrow> bytes res" where
  "override_gap g header =
     (case g of None \<Rightarrow> Inr header
      | Some gap \<Rightarrow> bind_res (pack_le 8 gap) (\<lambda>b. Inr (b @ drop 8 header)))"

definition stripe_record :: "stripe_args \<Rightarrow> bytes \<times> int \<times> bytes \<Rightarrow> stripe_state \<Rightarrow> stripe_state res" where
  "stripe_record args = (\<lambda>(header, frame_len, payload) st.
     let record_len = DATA_BEAT_BYTES + align_up frame_len DATA_BEAT_BYTES in
     bind_res (override_gap (sa_override_gap args) header) (\<lambda>header.
     bind_res
       (if sp_block_packets st \<noteq> 0 \<and> sp_block_bytes st + record_len > sa_block_bytes args
        then let st = finish_block args st
             in start_block args (sp_block_id st + 1)
                  (st\<lparr> sp_block_id := sp_block_id st + 1, sp_first_packet := sp_packet_count st,
                       sp_block_packets := 0, sp_block_bytes := 0 \<rparr>)
        else Inr st) (\<lambda>st.
     Inr (st\<lparr> sp_fs := (sp_fs st)(sp_block_path st \<mapsto>
                 (case sp_fs st (sp_block_path st) of None \<Rightarrow> [] | Some c \<Rightarrow> c) @ header @ payload),
              sp_block_packets := sp_block_packets st + 1,
              sp_block_bytes := sp_block_bytes st + record_len,
              sp_packet_count := sp_packet_count st + 1,
              sp_stream_bytes := sp_stream_bytes st + record_len,
              sp_total_frame_bytes := sp_total_frame_bytes st + frame_len \<rparr>))))"

lemma read_stream_record_shrinks:
  "read_stream_record src = Inr (Some (r, rest)) \<Longrightarrow> length rest < length src"
  by (auto simp: read_stream_record_def Let_def split: if_splits)

function stripe_loop :: "stripe_args \<Rightarrow> stripe_state \<Rightarrow> bytes \<Rightarrow> stripe_state res" where
  "stripe_loop args st src =
     (case read_stream_record src of
        Inl err \<Rightarrow> Inl err
      | Inr None \<Rightarrow> Inr st
      | Inr (Some (r, rest)) \<Rightarrow> bind_res (stripe_record args r st) (\<lambda>st'. stripe_loop args st' rest))"
  by pat_completeness auto
termination
  by (relation "measure (\<lambda>(args, st, src). length src)") (auto dest: read_stream_record_shrinks)

declare stripe_loop.simps [simp del]

definition stripe_init :: "stripe_args \<Rightarrow> (string \<rightharpoonup> bytes) \<Rightarrow> stripe_state" where
  "stripe_init args fs = \<lparr> sp_fs = fs, sp_blocks = [], sp_packet_count = 0, sp_stream_bytes = 0,
     sp_total_frame_bytes = 0, sp_block_id = 0, sp_first_packet = 0, sp_block_packets = 0,
     sp_block_bytes = 0, sp_container_offsets = replicate (length (sa_lane_dirs args)) 0,
     sp_block_path = [], sp_block_offset = 0 \<rparr>"

definition stripe_main :: "stripe_args \<Rightarrow> bytes \<Rightarrow> (string \<rightharpoonup> bytes) \<Rightarrow> stripe_state res" where
  "stripe_main args src fs =
     (if length (sa_lane_dirs args) < 2
      then Inl (SystemExit ''use at least two --lane-dir values for SSD striping'')
      else if sa_block_bytes args < 64 then Inl (SystemExit ''--block-bytes must be at least 64'')
      else if sa_block_bytes args mod 64 \<noteq> 0 then Inl (SystemExit ''--block-bytes must be a 64-byte multiple'')
      else bind_res (if sa_container_files args then open_containers args fs else Inr fs) (\<lambda>fs.
        bind_res (start_block args 0 (stripe_init args fs)) (\<lambda>st.
        bind_res (stripe_loop args st src) (\<lambda>st.
        let st = (if sp_block_packets st \<noteq> 0 then finish_block args st
                  else if \<not> sa_container_files args then st\<lparr> sp_fs := (sp_fs st)(sp_block_path st := None) \<rparr>
                  else st)
        in if sp_packet_count st = 0 then Inl (SystemExit ''stream file has no packet records'')
           else Inr st))))"

section \<open>Every block and lane has its own file\<close>

lemma block_path_inject: "block_path_for dirs i = block_path_for dirs j \<Longrightarrow> i = j"
proof -
  let ?n = "\<lambda>i. pad_left 8 (CHR ''0'') (show_base 10 i)"
  have b: "basename (block_path_for dirs i) = ''block_'' @ ?n i @ ''.bin''" for i
  proof -
    have eq: "block_path_for dirs i = dirs ! (i mod length dirs) @ ''/'' @ (''block_'' @ ?n i @ ''.bin'')"
      by (simp add: block_path_for_def show_int_def)
    have slash: "CHR ''/'' \<notin> set (''block_'' @ ?n i @ ''.bin'')"
      using show_base_no_slash [of 10 i] set_pad_left [of 8 "CHR ''0''" "show_base 10 i"] by auto
    show ?thesis unfolding eq by (rule basename_append [OF slash])
  qed
  assume "block_path_for dirs i = block_path_for dirs j"
  then have "?n i = ?n j" using b [of i] b [of j] by simp
  then have "Some i = Some j" unfolding parse_digits_pad [of 8 i, symmetric] parse_digits_pad [of 8 j, symmetric] by (rule arg_cong)
  then show ?thesis by (rule option.inject [THEN iffD1])
qed

lemma container_path_inject: "container_path_for dirs i = container_path_for dirs j \<Longrightarrow> i = j"
proof -
  have b: "basename (container_path_for dirs i) = ''lane_'' @ show_int (int i) @ ''.bin''" for i
  proof -
    have eq: "container_path_for dirs i = dirs ! i @ ''/'' @ (''lane_'' @ show_int (int i) @ ''.bin'')"
      by (simp add: container_path_for_def)
    have slash: "CHR ''/'' \<notin> set (''lane_'' @ show_int (int i) @ ''.bin'')"
      using show_base_no_slash [of 10 i] by (simp add: show_int_def)
    show ?thesis unfolding eq by (rule basename_append [OF slash])
  qed
  assume "container_path_for dirs i = container_path_for dirs j"
  then have "show_int (int i) = show_int (int j)" using b [of i] b [of j] by simp
  then show ?thesis by (auto dest: show_int_inject)
qed

section \<open>The records of the stream\<close>

definition stream_rec_valid :: "bytes \<times> int \<times> bytes \<Rightarrow> bool" where
  "stream_rec_valid = (\<lambda>(h, l, p). length h = 64 \<and> l = d_frame_len (unpack_QIHH (take 16 h))
     \<and> int (length p) = align_up l 64)"

definition rec_of :: "packet \<Rightarrow> bytes \<times> int \<times> bytes" where
  "rec_of p = (enc_desc \<lparr> d_gap_ticks = fst p, d_data_word_offset = 0, d_frame_len = int (length (snd p)), d_flags = 0 \<rparr>,
     int (length (snd p)), pad_frame (snd p))"

lemma read_stream_record_enc:
  assumes "stream_rec_valid r"
  shows "read_stream_record ((case r of (h, l, p) \<Rightarrow> h @ p) @ rest) = Inr (Some (r, rest))"
proof -
  obtain h l p where r: "r = (h, l, p)" by (cases r)
  with assms have v: "length h = 64" "l = d_frame_len (unpack_QIHH (take 16 h))" "int (length p) = align_up l 64"
    by (simp_all add: stream_rec_valid_def)
  have "h \<noteq> []" using v(1) by auto
  moreover have "nat (align_up l 64) = length p" using v(3) by simp
  ultimately show ?thesis using v by (simp add: read_stream_record_def r Let_def)
qed

interpretation stripe: record_loop "\<lambda>(h, l, p). h @ p" stream_rec_valid read_stream_record
    "stripe_record args" "stripe_loop args"
  for args
proof unfold_locales
  show "read_stream_record [] = Inr None" by (simp add: read_stream_record_def)
  show "stream_rec_valid r \<Longrightarrow> read_stream_record ((case r of (h, l, p) \<Rightarrow> h @ p) @ rest) = Inr (Some (r, rest))"
    for r rest by (rule read_stream_record_enc)
qed (rule stripe_loop.simps)

lemma enc_record_rec_of: "enc_record p = (case rec_of p of (h, l, q) \<Rightarrow> h @ q)"
  by (simp add: enc_record_def rec_of_def)

lemma packet_desc_valid:
  "packet_ok p \<Longrightarrow> desc_valid \<lparr> d_gap_ticks = fst p, d_data_word_offset = 0, d_frame_len = int (length (snd p)), d_flags = 0 \<rparr>"
  by (simp add: packet_ok_def desc_valid_def)

lemma rec_of_valid: "packet_ok p \<Longrightarrow> stream_rec_valid (rec_of p)"
  by (simp add: stream_rec_valid_def rec_of_def unpack_QIHH_take16 unpack_enc_desc packet_desc_valid
      length_pad_frame beats_def align_up_div_mult)

lemma enc_stream_recs: "enc_stream ps = concat (map (\<lambda>(h, l, p). h @ p) (map rec_of ps))"
proof -
  have "enc_record = (\<lambda>(h, l, p). h @ p) \<circ> rec_of" by (rule ext) (simp add: enc_record_rec_of)
  then show ?thesis by (simp add: enc_stream_def)
qed

lemma fold_res_map: "fold_res f (map g xs) s = fold_res (\<lambda>x. f (g x)) xs s"
proof (induction xs arbitrary: s)
  case Nil
  then show ?case by simp
next
  case (Cons x xs)
  have "fold_res f (map g xs) = fold_res (\<lambda>x. f (g x)) xs" by (rule ext) (rule Cons.IH)
  then show ?case by simp
qed

text \<open>The packet a record becomes: the gap option replaces the gap.\<close>

definition out_packet :: "stripe_args \<Rightarrow> packet \<Rightarrow> packet" where
  "out_packet args p = (case sa_override_gap args of None \<Rightarrow> fst p | Some g \<Rightarrow> g, snd p)"

definition override_ok :: "stripe_args \<Rightarrow> bool" where
  "override_ok args \<longleftrightarrow> (case sa_override_gap args of None \<Rightarrow> True | Some g \<Rightarrow> 0 \<le> g \<and> g < 2 ^ 64)"

lemma override_gap_enc:
  assumes "override_ok args"
  shows "override_gap (sa_override_gap args)
      (enc_desc \<lparr> d_gap_ticks = fst p, d_data_word_offset = 0, d_frame_len = l, d_flags = 0 \<rparr>)
    = Inr (enc_desc \<lparr> d_gap_ticks = fst (out_packet args p), d_data_word_offset = 0, d_frame_len = l, d_flags = 0 \<rparr>)"
  using assms by (auto simp: override_gap_def override_ok_def out_packet_def enc_desc_def pack_le_def split: option.splits)

section \<open>Blocks, lanes and files\<close>

text \<open>
  A striping is a list of blocks, each a list of packets.  \<open>add_record\<close> is the greedy rule of the
  script; \<open>lane_cat\<close> is the content of a lane's container, \<open>file_at\<close> the content of block \<open>i\<close>'s file
  and \<open>offset_at\<close> the block's position in it.
\<close>

fun add_record :: "int \<Rightarrow> packet \<Rightarrow> packet list list \<times> packet list \<Rightarrow> packet list list \<times> packet list" where
  "add_record lim p (gs, cur) =
     (if cur \<noteq> [] \<and> int (length (enc_stream cur)) + int (length (enc_record p)) > lim
      then (gs @ [cur], [p]) else (gs, cur @ [p]))"

definition lane_cat :: "nat \<Rightarrow> bytes list \<Rightarrow> nat \<Rightarrow> bytes" where
  "lane_cat n bs lane = concat (map (nth bs) (filter (\<lambda>i. i mod n = lane) [0..<length bs]))"

definition path_at :: "stripe_args \<Rightarrow> nat \<Rightarrow> string" where
  "path_at args i = (if sa_container_files args
     then container_path_for (sa_lane_dirs args) (i mod length (sa_lane_dirs args))
     else block_path_for (sa_lane_dirs args) i)"

definition file_at :: "stripe_args \<Rightarrow> bytes list \<Rightarrow> nat \<Rightarrow> bytes" where
  "file_at args bs i = (if sa_container_files args
     then lane_cat (length (sa_lane_dirs args)) bs (i mod length (sa_lane_dirs args)) else bs ! i)"

definition offset_at :: "stripe_args \<Rightarrow> bytes list \<Rightarrow> nat \<Rightarrow> int" where
  "offset_at args bs i = (if sa_container_files args
     then int (length (lane_cat (length (sa_lane_dirs args)) (take i bs) (i mod length (sa_lane_dirs args)))) else 0)"

lemma lane_cat_snoc:
  "lane_cat n (bs @ [b]) lane = lane_cat n bs lane @ (if length bs mod n = lane then b else [])"
proof -
  have m: "map (nth (bs @ [b])) (filter (\<lambda>i. i mod n = lane) [0..<length bs])
      = map (nth bs) (filter (\<lambda>i. i mod n = lane) [0..<length bs])"
    by (rule map_cong [OF refl]) (auto simp: nth_append)
  have u: "[0..<length (bs @ [b])] = [0..<length bs] @ [length bs]" by simp
  show ?thesis unfolding lane_cat_def u filter_append map_append concat_append m by simp
qed

lemma lane_cat_take_prefix: "\<exists>rest. lane_cat n bs lane = lane_cat n (take i bs) lane @ rest"
proof (induction bs rule: rev_induct)
  case Nil
  then show ?case by (simp add: lane_cat_def)
next
  case (snoc b bs)
  then show ?case
    by (cases "i \<le> length bs") (auto simp: lane_cat_snoc)
qed

text \<open>Block \<open>i\<close> is found at its offset of its file.\<close>

lemma file_at_block:
  assumes "i < length bs"
  shows "pyslice (nat (offset_at args bs i)) (nat (offset_at args bs i + int (length (bs ! i)))) (file_at args bs i) = bs ! i"
proof (cases "sa_container_files args")
  case True
  let ?n = "length (sa_lane_dirs args)"
  have "take (Suc i) bs = take i bs @ [bs ! i]" using assms by (rule take_Suc_conv_app_nth)
  moreover obtain rest where "lane_cat ?n bs (i mod ?n) = lane_cat ?n (take (Suc i) bs) (i mod ?n) @ rest"
    using lane_cat_take_prefix by blast
  ultimately have "lane_cat ?n bs (i mod ?n) = lane_cat ?n (take i bs) (i mod ?n) @ bs ! i @ rest"
    using assms by (simp add: lane_cat_snoc)
  moreover have "nat (int (length (lane_cat ?n (take i bs) (i mod ?n))) + int (length (bs ! i)))
      = length (lane_cat ?n (take i bs) (i mod ?n)) + length (bs ! i)" by simp
  ultimately show ?thesis using True
    by (simp add: file_at_def offset_at_def pyslice_append2 pyslice_append1 pyslice_0 del: nat_add_distrib)
next
  case False
  then show ?thesis by (simp add: file_at_def offset_at_def pyslice_all)
qed

text \<open>The paths in use while block \<open>k\<close> is open.\<close>

definition used_paths :: "stripe_args \<Rightarrow> nat \<Rightarrow> string set" where
  "used_paths args k = (if sa_container_files args
     then container_path_for (sa_lane_dirs args) ` {..<length (sa_lane_dirs args)}
     else block_path_for (sa_lane_dirs args) ` {..k})"

definition block_at :: "stripe_args \<Rightarrow> packet list list \<Rightarrow> nat \<Rightarrow> block_info" where
  "block_at args gs i = \<lparr> bk_block_id = i, bk_lane = i mod length (sa_lane_dirs args), bk_path = path_at args i,
     bk_bytes = int (length (enc_stream (gs ! i))), bk_packets = int (length (gs ! i)),
     bk_first_packet = int (length (concat (take i gs))),
     bk_file_offset = offset_at args (map enc_stream gs) i \<rparr>"

definition files_rel :: "stripe_args \<Rightarrow> (string \<rightharpoonup> bytes) \<Rightarrow> bytes list \<Rightarrow> (string \<rightharpoonup> bytes) \<Rightarrow> bool" where
  "files_rel args fs0 bs fs \<longleftrightarrow>
     (if sa_container_files args
      then \<forall>l < length (sa_lane_dirs args).
             fs (container_path_for (sa_lane_dirs args) l) = Some (lane_cat (length (sa_lane_dirs args)) bs l)
      else \<forall>i < length bs. fs (block_path_for (sa_lane_dirs args) i) = Some (bs ! i))
     \<and> (\<forall>p. p \<notin> used_paths args (length bs - 1) \<longrightarrow> fs p = fs0 p)"

lemma files_rel_file:
  assumes "files_rel args fs0 bs fs" and "i < length bs" and "sa_lane_dirs args \<noteq> []"
  shows "fs (path_at args i) = Some (file_at args bs i)"
  using assms by (auto simp: files_rel_def path_at_def file_at_def)

text \<open>Appending to the open block, and opening the next one.\<close>

lemma files_rel_append:
  assumes rel: "files_rel args fs0 (bs @ [b]) fs" and ne: "sa_lane_dirs args \<noteq> []"
  shows "files_rel args fs0 (bs @ [b @ x])
     (fs(path_at args (length bs) \<mapsto> (case fs (path_at args (length bs)) of None \<Rightarrow> [] | Some c \<Rightarrow> c) @ x))"
proof -
  let ?n = "length (sa_lane_dirs args)" and ?k = "length bs"
  have c: "fs (path_at args ?k) = Some (file_at args (bs @ [b]) ?k)"
    by (rule files_rel_file [OF rel _ ne]) simp
  have k: "?k mod ?n < ?n" using ne by simp
  have used: "path_at args ?k \<in> used_paths args ?k"
    using k by (auto simp: path_at_def used_paths_def)
  show ?thesis
  proof (cases "sa_container_files args")
    case True
    then show ?thesis
      using rel c used
      by (auto simp: files_rel_def path_at_def file_at_def lane_cat_snoc dest!: container_path_inject)
  next
    case False
    then show ?thesis
      using rel c used
      by (auto simp: files_rel_def path_at_def file_at_def nth_append less_Suc_eq dest!: block_path_inject)
  qed
qed

lemma files_rel_next_container:
  assumes "sa_container_files args" and "files_rel args fs0 bs fs"
  shows "files_rel args fs0 (bs @ [[]]) fs"
  using assms by (auto simp: files_rel_def lane_cat_snoc used_paths_def)

lemma files_rel_next_block:
  assumes "\<not> sa_container_files args" and "files_rel args fs0 bs fs" and "bs \<noteq> []"
  shows "files_rel args fs0 (bs @ [[]]) (fs(block_path_for (sa_lane_dirs args) (length bs) \<mapsto> []))"
proof -
  let ?p = "block_path_for (sa_lane_dirs args)"
  have "used_paths args (length bs - 1) \<subseteq> used_paths args (length bs)" by (auto simp: used_paths_def)
  moreover have "?p (length bs) \<in> used_paths args (length bs)" using assms(1) by (simp add: used_paths_def)
  ultimately have "\<forall>q. q \<notin> used_paths args (length bs) \<longrightarrow> (fs(?p (length bs) \<mapsto> [])) q = fs0 q"
    using assms(2) by (auto simp: files_rel_def)
  with assms show ?thesis
    by (auto simp: files_rel_def nth_append less_Suc_eq dest!: block_path_inject)
qed

lemma files_rel_fresh:
  assumes "\<not> sa_container_files args" and "files_rel args fs0 bs fs" and "bs \<noteq> []"
  shows "fs (block_path_for (sa_lane_dirs args) (length bs)) = fs0 (block_path_for (sa_lane_dirs args) (length bs))"
proof -
  have "length bs \<notin> {..length bs - 1}" using assms(3) by (cases bs) auto
  then have "block_path_for (sa_lane_dirs args) (length bs) \<notin> used_paths args (length bs - 1)"
    using assms(1) by (auto simp: used_paths_def dest!: block_path_inject)
  with assms(2) show ?thesis by (simp add: files_rel_def)
qed

text \<open>Existing output files are absent, or may be overwritten.\<close>

definition may_write :: "stripe_args \<Rightarrow> (string \<rightharpoonup> bytes) \<Rightarrow> bool" where
  "may_write args fs0 \<longleftrightarrow> sa_force args \<or> (\<forall>i. path_at args i \<notin> dom fs0)"

section \<open>The simulation\<close>

definition stripe_rel :: "stripe_args \<Rightarrow> (string \<rightharpoonup> bytes) \<Rightarrow> packet list list \<Rightarrow> packet list \<Rightarrow> stripe_state \<Rightarrow> bool" where
  "stripe_rel args fs0 gs cur st \<longleftrightarrow>
     sp_block_id st = length gs \<and> sp_block_packets st = int (length cur)
     \<and> sp_block_bytes st = int (length (enc_stream cur))
     \<and> sp_first_packet st = int (length (concat gs))
     \<and> sp_packet_count st = int (length (concat gs)) + int (length cur)
     \<and> sp_stream_bytes st = int (length (enc_stream (concat gs @ cur)))
     \<and> sp_total_frame_bytes st = sum_list (map (int \<circ> length \<circ> snd) (concat gs @ cur))
     \<and> sp_block_path st = path_at args (length gs)
     \<and> sp_block_offset st = offset_at args (map enc_stream gs @ [enc_stream cur]) (length gs)
     \<and> sp_blocks st = map (block_at args gs) [0..<length gs]
     \<and> (sa_container_files args \<longrightarrow> sp_container_offsets st
          = map (\<lambda>l. int (length (lane_cat (length (sa_lane_dirs args)) (map enc_stream gs) l)))
              [0..<length (sa_lane_dirs args)])
     \<and> files_rel args fs0 (map enc_stream gs @ [enc_stream cur]) (sp_fs st)"

lemma enc_stream_append: "enc_stream (ps @ qs) = enc_stream ps @ enc_stream qs"
  by (simp add: enc_stream_def)

lemma enc_stream_concat: "enc_stream (concat gs) = concat (map enc_stream gs)"
  by (induction gs) (simp_all add: enc_stream_append, simp add: enc_stream_def)

lemma enc_stream_single [simp]: "enc_stream [p] = enc_record p" "enc_stream [] = []"
  by (simp_all add: enc_stream_def)

lemma offset_at_open: "offset_at args (bs @ [b]) (length bs)
   = (if sa_container_files args
      then int (length (lane_cat (length (sa_lane_dirs args)) bs (length bs mod length (sa_lane_dirs args)))) else 0)"
  by (simp add: offset_at_def)

lemma offset_at_prefix: "i < length bs \<Longrightarrow> offset_at args (bs @ [b]) i = offset_at args bs i"
  by (simp add: offset_at_def)

lemma block_at_prefix: "i < length gs \<Longrightarrow> block_at args (gs @ [g]) i = block_at args gs i"
  by (simp add: block_at_def nth_append offset_at_prefix)

lemma finish_block_rel:
  assumes rel: "stripe_rel args fs0 gs cur st" and ne: "cur \<noteq> []" and lanes: "sa_lane_dirs args \<noteq> []"
  shows "sp_blocks (finish_block args st) = map (block_at args (gs @ [cur])) [0..<Suc (length gs)]"
    and "sa_container_files args \<Longrightarrow> sp_container_offsets (finish_block args st)
      = map (\<lambda>l. int (length (lane_cat (length (sa_lane_dirs args)) (map enc_stream (gs @ [cur])) l)))
          [0..<length (sa_lane_dirs args)]"
    and "sp_fs (finish_block args st) = sp_fs st"
    and "sp_packet_count (finish_block args st) = sp_packet_count st"
    and "sp_stream_bytes (finish_block args st) = sp_stream_bytes st"
    and "sp_total_frame_bytes (finish_block args st) = sp_total_frame_bytes st"
    and "sp_block_id (finish_block args st) = sp_block_id st"
proof -
  let ?n = "length (sa_lane_dirs args)"
  have pk: "sp_block_packets st \<noteq> 0" using rel ne by (simp add: stripe_rel_def)
  have blk: "sp_blocks (finish_block args st) = sp_blocks st @
     [\<lparr> bk_block_id = sp_block_id st, bk_lane = sp_block_id st mod ?n, bk_path = sp_block_path st,
        bk_bytes = sp_block_bytes st, bk_packets = sp_block_packets st,
        bk_first_packet = sp_first_packet st, bk_file_offset = sp_block_offset st \<rparr>]"
    using pk by (simp add: finish_block_def Let_def)
  have "map (block_at args gs) [0..<length gs] = map (block_at args (gs @ [cur])) [0..<length gs]"
    by (rule map_cong [OF refl]) (simp add: block_at_prefix)
  then show "sp_blocks (finish_block args st) = map (block_at args (gs @ [cur])) [0..<Suc (length gs)]"
    using rel unfolding blk stripe_rel_def by (simp add: block_at_def)
  show "sp_container_offsets (finish_block args st)
      = map (\<lambda>l. int (length (lane_cat ?n (map enc_stream (gs @ [cur])) l))) [0..<?n]"
    if "sa_container_files args"
    using rel that pk
    by (intro nth_equalityI)
      (auto simp: finish_block_def Let_def stripe_rel_def lane_cat_snoc nth_list_update)
  show "sp_fs (finish_block args st) = sp_fs st"
    "sp_packet_count (finish_block args st) = sp_packet_count st"
    "sp_stream_bytes (finish_block args st) = sp_stream_bytes st"
    "sp_total_frame_bytes (finish_block args st) = sp_total_frame_bytes st"
    "sp_block_id (finish_block args st) = sp_block_id st"
    by (simp_all add: finish_block_def Let_def)
qed

lemma rotate_rel:
  assumes rel: "stripe_rel args fs0 gs cur st" and ne: "cur \<noteq> []" and lanes: "sa_lane_dirs args \<noteq> []"
    and w: "may_write args fs0"
  defines "st1 \<equiv> finish_block args st"
  shows "\<exists>st'. start_block args (sp_block_id st1 + 1)
             (st1\<lparr> sp_block_id := sp_block_id st1 + 1, sp_first_packet := sp_packet_count st1,
                   sp_block_packets := 0, sp_block_bytes := 0 \<rparr>) = Inr st'
     \<and> stripe_rel args fs0 (gs @ [cur]) [] st'"
proof -
  note fin = finish_block_rel [OF rel ne lanes, folded st1_def]
  let ?bs = "map enc_stream (gs @ [cur])"
  have rel': "sp_block_id st = length gs" "sp_packet_count st = int (length (concat gs)) + int (length cur)"
    "sp_stream_bytes st = int (length (enc_stream (concat gs @ cur)))"
    "sp_total_frame_bytes st = sum_list (map (int \<circ> length \<circ> snd) (concat gs @ cur))"
    "files_rel args fs0 ?bs (sp_fs st)"
    using rel by (simp_all add: stripe_rel_def)
  have len: "length ?bs = Suc (length gs)" "?bs \<noteq> []" by simp_all
  show ?thesis
  proof (cases "sa_container_files args")
    case True
    have "Suc (length gs) mod length (sa_lane_dirs args) < length (sa_lane_dirs args)" using lanes by simp
    then show ?thesis
      using True fin rel' files_rel_next_container [OF True rel'(5)]
      by (simp add: start_block_def Let_def stripe_rel_def path_at_def offset_at_def enc_stream_append)
  next
    case False
    let ?p = "block_path_for (sa_lane_dirs args) (Suc (length gs))"
    have "sp_fs st ?p = fs0 ?p" using files_rel_fresh [OF False rel'(5) len(2)] by (simp only: len(1))
    moreover have "path_at args (Suc (length gs)) = ?p" using False by (simp add: path_at_def)
    moreover have "sa_force args \<or> path_at args (Suc (length gs)) \<notin> dom fs0" using w by (auto simp: may_write_def)
    ultimately have ok: "\<not> (?p \<in> dom (sp_fs st) \<and> \<not> sa_force args)" by (auto simp: domIff)
    from files_rel_next_block [OF False rel'(5) len(2)]
    have "files_rel args fs0 (?bs @ [[]]) ((sp_fs st)(?p \<mapsto> []))" by (simp only: len(1))
    then show ?thesis
      using False fin rel' ok
      by (simp add: start_block_def open_block_def Let_def stripe_rel_def path_at_def offset_at_def enc_stream_append)
  qed
qed

lemma append_rel:
  assumes rel: "stripe_rel args fs0 gs cur st" and lanes: "sa_lane_dirs args \<noteq> []"
    and st': "st' = st\<lparr> sp_fs := (sp_fs st)(sp_block_path st \<mapsto>
                 (case sp_fs st (sp_block_path st) of None \<Rightarrow> [] | Some c \<Rightarrow> c) @ enc_record p),
              sp_block_packets := sp_block_packets st + 1,
              sp_block_bytes := sp_block_bytes st + int (length (enc_record p)),
              sp_packet_count := sp_packet_count st + 1,
              sp_stream_bytes := sp_stream_bytes st + int (length (enc_record p)),
              sp_total_frame_bytes := sp_total_frame_bytes st + int (length (snd p)) \<rparr>"
  shows "stripe_rel args fs0 gs (cur @ [p]) st'"
proof -
  have f: "files_rel args fs0 (map enc_stream gs @ [enc_stream cur]) (sp_fs st)" "sp_block_path st = path_at args (length gs)"
    using rel by (simp_all add: stripe_rel_def)
  from files_rel_append [OF f(1) lanes, of "enc_record p"]
  have "files_rel args fs0 (map enc_stream gs @ [enc_stream (cur @ [p])]) (sp_fs st')"
    by (simp add: st' f(2) enc_stream_append)
  then show ?thesis
    using rel by (simp add: st' stripe_rel_def enc_stream_append offset_at_def)
qed

lemma length_out_record: "length (enc_record (out_packet args p)) = length (enc_record p)"
proof -
  have "int (length (enc_record (out_packet args p))) = int (length (enc_record p))"
    by (simp add: length_enc_record out_packet_def)
  then show ?thesis by (simp only: of_nat_eq_iff)
qed

lemma stripe_record_rel:
  assumes rel: "stripe_rel args fs0 gs cur st" and lanes: "sa_lane_dirs args \<noteq> []" and w: "may_write args fs0"
    and o: "override_ok args"
  shows "\<exists>st'. stripe_record args (rec_of p) st = Inr st'
     \<and> (case add_record (sa_block_bytes args) (out_packet args p) (gs, cur) of (gs', cur') \<Rightarrow> stripe_rel args fs0 gs' cur' st')"
proof -
  let ?p = "out_packet args p" and ?lim = "sa_block_bytes args"
  let ?len = "64 + align_up (int (length (snd p))) 64"
  let ?h = "enc_desc \<lparr> d_gap_ticks = fst ?p, d_data_word_offset = 0, d_frame_len = int (length (snd p)), d_flags = 0 \<rparr>"
  have rl: "?len = int (length (enc_record ?p))"
    unfolding length_out_record length_enc_record by (simp add: beats_def align_up_div_mult)
  have hp: "?h @ pad_frame (snd p) = enc_record ?p" by (simp add: enc_record_def out_packet_def)
  have frame: "snd ?p = snd p" by (simp add: out_packet_def)
  define rotate where "rotate = (\<lambda>st :: stripe_state. let st = finish_block args st
             in start_block args (sp_block_id st + 1)
                  (st\<lparr> sp_block_id := sp_block_id st + 1, sp_first_packet := sp_packet_count st,
                       sp_block_packets := 0, sp_block_bytes := 0 \<rparr>))"
  define app where "app = (\<lambda>st :: stripe_state. st\<lparr> sp_fs := (sp_fs st)(sp_block_path st \<mapsto>
                 (case sp_fs st (sp_block_path st) of None \<Rightarrow> [] | Some c \<Rightarrow> c) @ enc_record ?p),
              sp_block_packets := sp_block_packets st + 1,
              sp_block_bytes := sp_block_bytes st + int (length (enc_record ?p)),
              sp_packet_count := sp_packet_count st + 1,
              sp_stream_bytes := sp_stream_bytes st + int (length (enc_record ?p)),
              sp_total_frame_bytes := sp_total_frame_bytes st + int (length (snd ?p)) \<rparr>)"
  have step: "stripe_record args (rec_of p) st
      = bind_res (if sp_block_packets st \<noteq> 0 \<and> sp_block_bytes st + int (length (enc_record ?p)) > ?lim
                  then rotate st else Inr st) (\<lambda>st. Inr (app st))"
    unfolding stripe_record_def rec_of_def prod.case Let_def override_gap_enc [OF o] bind_res_simps rl
      rotate_def app_def frame hp [symmetric] by simp
  have full: "sp_block_packets st \<noteq> 0 \<and> sp_block_bytes st + int (length (enc_record ?p)) > ?lim
      \<longleftrightarrow> cur \<noteq> [] \<and> int (length (enc_stream cur)) + int (length (enc_record ?p)) > ?lim"
    using rel by (auto simp: stripe_rel_def)
  show ?thesis
  proof (cases "cur \<noteq> [] \<and> int (length (enc_stream cur)) + int (length (enc_record ?p)) > ?lim")
    case True
    from rotate_rel [OF rel _ lanes w] True obtain st1 where "rotate st = Inr st1" "stripe_rel args fs0 (gs @ [cur]) [] st1"
      unfolding rotate_def Let_def by blast
    with append_rel [OF this(2) lanes refl, of ?p] show ?thesis
      using True unfolding step full by (simp add: app_def)
  next
    case False
    with append_rel [OF rel lanes refl, of ?p] show ?thesis
      unfolding step full by (auto simp: app_def)
  qed
qed

definition striping :: "stripe_args \<Rightarrow> packet list \<Rightarrow> packet list list \<times> packet list" where
  "striping args ps = fold (add_record (sa_block_bytes args)) (map (out_packet args) ps) ([], [])"

lemma striping_snoc: "striping args (ps @ [p]) = add_record (sa_block_bytes args) (out_packet args p) (striping args ps)"
  by (simp add: striping_def)

lemma stripe_fold:
  assumes "stripe_rel args fs0 [] [] st" and "sa_lane_dirs args \<noteq> []" and "may_write args fs0" and "override_ok args"
  shows "\<exists>st'. fold_res (stripe_record args) (map rec_of ps) st = Inr st'
     \<and> (case striping args ps of (gs, cur) \<Rightarrow> stripe_rel args fs0 gs cur st')"
proof (induction ps rule: rev_induct)
  case Nil
  with assms(1) show ?case by (simp add: striping_def)
next
  case (snoc p ps)
  obtain gs cur where g: "striping args ps = (gs, cur)" by (cases "striping args ps")
  with snoc obtain st1 where st1: "fold_res (stripe_record args) (map rec_of ps) st = Inr st1"
    "stripe_rel args fs0 gs cur st1" by auto
  from stripe_record_rel [OF st1(2) assms(2-4), of p] show ?case
    by (simp add: fold_res_append st1(1) striping_snoc g del: fold_res.simps add_record.simps)
qed

text \<open>The greedy rule keeps the packets, never leaves a block empty, and respects the limit.\<close>

lemma striping_facts:
  assumes "striping args ps = (gs, cur)"
  shows "concat gs @ cur = map (out_packet args) ps"
    and "ps \<noteq> [] \<Longrightarrow> cur \<noteq> []"
    and "\<forall>g \<in> set gs. g \<noteq> []"
    and "\<forall>g \<in> insert cur (set gs). int (length (enc_stream g)) \<le> sa_block_bytes args \<or> length g \<le> 1"
  using assms
proof (induction ps arbitrary: gs cur rule: rev_induct)
  case Nil
  {
    case 1
    then show ?case by (simp add: striping_def)
  next
    case 2
    then show ?case by simp
  next
    case 3
    then show ?case by (simp add: striping_def)
  next
    case 4
    then show ?case by (simp add: striping_def)
  }
next
  case (snoc p ps)
  obtain gs1 cur1 where g: "striping args ps = (gs1, cur1)" by (cases "striping args ps")
  {
    case 1
    then show ?case using snoc(1) [OF g] by (auto simp: striping_snoc g split: if_splits)
  next
    case 2
    then show ?case by (auto simp: striping_snoc g split: if_splits)
  next
    case 3
    then show ?case using snoc(3) [OF g] by (auto simp: striping_snoc g split: if_splits)
  next
    case 4
    then show ?case using snoc(4) [OF g] by (auto simp: striping_snoc g enc_stream_append split: if_splits)
  }
qed

lemma open_containers_spec:
  assumes "may_write args fs0" and "sa_container_files args" and "sa_lane_dirs args \<noteq> []"
  shows "\<exists>fs. open_containers args fs0 = Inr fs \<and> files_rel args fs0 [[]] fs"
proof -
  let ?path = "container_path_for (sa_lane_dirs args)" and ?n = "length (sa_lane_dirs args)"
  let ?step = "\<lambda>lane fs. let path = ?path lane in
      if path \<in> dom fs \<and> \<not> sa_force args
      then Inl (SystemExit (''refusing to overwrite existing container file: '' @ path))
      else Inr (fs(path \<mapsto> []))"
  have fresh: "sa_force args \<or> ?path l \<notin> dom fs0" if "l < ?n" for l
  proof -
    have "path_at args l = ?path l" using that assms(2) by (simp add: path_at_def)
    with assms(1) show ?thesis unfolding may_write_def by metis
  qed
  have "k \<le> ?n \<Longrightarrow> \<exists>fs. fold_res ?step [0..<k] fs0 = Inr fs \<and> (\<forall>l < k. fs (?path l) = Some [])
      \<and> (\<forall>p. p \<notin> ?path ` {..<k} \<longrightarrow> fs p = fs0 p)" for k
  proof (induction k)
    case 0
    then show ?case by simp
  next
    case (Suc k)
    then obtain fs where fs: "fold_res ?step [0..<k] fs0 = Inr fs" "\<forall>l < k. fs (?path l) = Some []"
      "\<forall>p. p \<notin> ?path ` {..<k} \<longrightarrow> fs p = fs0 p" by auto
    have "?path k \<notin> ?path ` {..<k}" by (auto dest!: container_path_inject)
    then have "fs (?path k) = fs0 (?path k)" using fs(3) by blast
    then have "?step k fs = Inr (fs(?path k \<mapsto> []))" using fresh [of k] Suc.prems by (auto simp: Let_def domIff)
    with fs show ?case
      by (auto simp: fold_res_append less_Suc_eq lessThan_Suc simp del: fold_res.simps)
  qed
  from this [of ?n] assms(2) show ?thesis
    by (auto simp: open_containers_def files_rel_def used_paths_def lane_cat_def)
qed

lemma start_rel:
  assumes "may_write args fs0" and lanes: "sa_lane_dirs args \<noteq> []"
  shows "\<exists>st. bind_res (if sa_container_files args then open_containers args fs0 else Inr fs0)
       (\<lambda>fs. start_block args 0 (stripe_init args fs)) = Inr st \<and> stripe_rel args fs0 [] [] st"
proof (cases "sa_container_files args")
  case True
  from open_containers_spec [OF assms(1) True lanes] obtain fs where
    "open_containers args fs0 = Inr fs" "files_rel args fs0 [[]] fs" by blast
  moreover have "replicate (length (sa_lane_dirs args)) 0
      = map (\<lambda>l. int (length (lane_cat (length (sa_lane_dirs args)) [] l))) [0..<length (sa_lane_dirs args)]"
    by (simp add: lane_cat_def map_replicate_const)
  ultimately show ?thesis
    using True lanes
    by (simp add: start_block_def stripe_init_def stripe_rel_def Let_def path_at_def offset_at_def lane_cat_def)
next
  case False
  have "path_at args 0 = block_path_for (sa_lane_dirs args) 0" using False by (simp add: path_at_def)
  then have "sa_force args \<or> block_path_for (sa_lane_dirs args) 0 \<notin> dom fs0"
    using assms(1) unfolding may_write_def by metis
  then show ?thesis
    using False
    by (auto simp: start_block_def open_block_def stripe_init_def stripe_rel_def Let_def path_at_def
        offset_at_def files_rel_def used_paths_def)
qed

section \<open>Properties\<close>

definition stripe_args_ok :: "stripe_args \<Rightarrow> bool" where
  "stripe_args_ok args \<longleftrightarrow> 2 \<le> length (sa_lane_dirs args) \<and> 64 \<le> sa_block_bytes args
     \<and> sa_block_bytes args mod 64 = 0 \<and> override_ok args"

text \<open>The content a reader of the block list gets for one block.\<close>

definition read_block :: "(string \<rightharpoonup> bytes) \<Rightarrow> block_info \<Rightarrow> bytes option" where
  "read_block fs b = (case fs (bk_path b) of None \<Rightarrow> None
     | Some c \<Rightarrow> Some (pyslice (nat (bk_file_offset b)) (nat (bk_file_offset b + bk_bytes b)) c))"

definition groups_of :: "stripe_args \<Rightarrow> packet list \<Rightarrow> packet list list" where
  "groups_of args ps = fst (striping args ps) @ [snd (striping args ps)]"

lemma stripe_run:
  assumes args: "stripe_args_ok args" and ok: "\<forall>p \<in> set ps. packet_ok p" and ne: "ps \<noteq> []"
    and w: "may_write args fs0"
  shows "\<exists>st. stripe_main args (enc_stream ps) fs0 = Inr st
     \<and> sp_blocks st = map (block_at args (groups_of args ps)) [0..<length (groups_of args ps)]
     \<and> files_rel args fs0 (map enc_stream (groups_of args ps)) (sp_fs st)
     \<and> sp_packet_count st = int (length ps)
     \<and> sp_stream_bytes st = int (length (enc_stream ps))
     \<and> sp_total_frame_bytes st = sum_list (map (int \<circ> length \<circ> snd) ps)"
proof -
  have lanes: "sa_lane_dirs args \<noteq> []" and o: "override_ok args"
    using args by (auto simp: stripe_args_ok_def)
  from start_rel [OF w lanes] obtain st0 where
    st0: "bind_res (if sa_container_files args then open_containers args fs0 else Inr fs0)
       (\<lambda>fs. start_block args 0 (stripe_init args fs)) = Inr st0" and rel0: "stripe_rel args fs0 [] [] st0" by blast
  obtain gs cur where g: "striping args ps = (gs, cur)" by (cases "striping args ps")
  note facts = striping_facts(1) [OF g] striping_facts(2) [OF g ne]
  from stripe_fold [OF rel0 lanes w o, of ps] g obtain st1
    where st1: "fold_res (stripe_record args) (map rec_of ps) st0 = Inr st1" and rel1: "stripe_rel args fs0 gs cur st1"
    by auto
  have "\<forall>r \<in> set (map rec_of ps). stream_rec_valid r" using ok rec_of_valid by simp
  from stripe.loop_file [OF this, of args st0] have loop: "stripe_loop args st0 (enc_stream ps) = Inr st1"
    by (simp add: enc_stream_recs st1)
  note fin = finish_block_rel [OF rel1 facts(2) lanes]
  have "0 < length cur" using facts(2) by simp
  moreover have "sp_block_packets st1 = int (length cur)"
    "sp_packet_count st1 = int (length (concat gs)) + int (length cur)"
    using rel1 unfolding stripe_rel_def by blast+
  ultimately have counts: "sp_block_packets st1 \<noteq> 0" "sp_packet_count st1 \<noteq> 0" by linarith+
  have "bind_res (if sa_container_files args then open_containers args fs0 else Inr fs0)
       (\<lambda>fs. bind_res (start_block args 0 (stripe_init args fs)) F) = F st0" for F :: "stripe_state \<Rightarrow> stripe_state res"
    using arg_cong [OF st0, of "\<lambda>m. bind_res m F"] by (simp add: bind_res_assoc)
  then have main: "stripe_main args (enc_stream ps) fs0 = Inr (finish_block args st1)"
    using args counts fin(4) by (simp add: stripe_main_def stripe_args_ok_def loop Let_def)
  have lens: "length (concat gs) + length cur = length ps"
    using arg_cong [OF facts(1), of length] by simp
  have enc: "length (enc_stream (map (out_packet args) ps)) = length (enc_stream ps)"
    by (induction ps) (simp_all add: enc_stream_def length_out_record)
  have tot: "map (int \<circ> length \<circ> snd) (map (out_packet args) ps) = map (int \<circ> length \<circ> snd) ps"
    by (simp add: out_packet_def o_def)
  show ?thesis
    using main fin rel1 lens unfolding groups_of_def g fst_conv snd_conv stripe_rel_def facts(1) enc tot by auto
qed

lemma groups_facts:
  assumes "ps \<noteq> []"
  shows "concat (groups_of args ps) = map (out_packet args) ps"
    and "\<forall>g \<in> set (groups_of args ps). g \<noteq> [] \<and>
       (int (length (enc_stream g)) \<le> sa_block_bytes args \<or> length g = 1)"
proof -
  obtain gs cur where g: "striping args ps = (gs, cur)" by (cases "striping args ps")
  note f = striping_facts(1) [OF g] striping_facts(2) [OF g assms] striping_facts(3,4) [OF g]
  show "concat (groups_of args ps) = map (out_packet args) ps" using f(1) by (simp add: groups_of_def g)
  have "length h = 1" if "h \<noteq> []" "length h \<le> 1" for h :: "packet list" using that by (cases h) auto
  then show "\<forall>g \<in> set (groups_of args ps). g \<noteq> [] \<and>
       (int (length (enc_stream g)) \<le> sa_block_bytes args \<or> length g = 1)"
    using f by (auto simp: groups_of_def g)
qed

definition demo_stripe :: stripe_args where
  "demo_stripe = \<lparr> sa_lane_dirs = [''/a'', ''/b''], sa_block_bytes = 128, sa_override_gap = Some 9,
     sa_container_files = True, sa_force = False \<rparr>"

lemma demo_stripe_ok: "stripe_args_ok demo_stripe" "\<forall>p \<in> set [(0, [1]), (3, [2]), (4, [3])]. packet_ok p"
    "may_write demo_stripe Map.empty"
  by (simp_all add: stripe_args_ok_def demo_stripe_def override_ok_def packet_ok_def may_write_def)

text \<open>A stream without records, and a first file that may not be replaced.\<close>

lemma stripe_empty:
  assumes "stripe_args_ok args" and "may_write args fs0"
  shows "stripe_main args (enc_stream []) fs0 = Inl (SystemExit ''stream file has no packet records'')"
proof -
  have lanes: "sa_lane_dirs args \<noteq> []" using assms(1) by (auto simp: stripe_args_ok_def)
  from start_rel [OF assms(2) lanes] obtain st0 where
    st0: "bind_res (if sa_container_files args then open_containers args fs0 else Inr fs0)
       (\<lambda>fs. start_block args 0 (stripe_init args fs)) = Inr st0" and rel0: "stripe_rel args fs0 [] [] st0" by blast
  have bind: "bind_res (if sa_container_files args then open_containers args fs0 else Inr fs0)
       (\<lambda>fs. bind_res (start_block args 0 (stripe_init args fs)) F) = F st0" for F :: "stripe_state \<Rightarrow> stripe_state res"
    using arg_cong [OF st0, of "\<lambda>m. bind_res m F"] by (simp add: bind_res_assoc)
  have "sp_block_packets st0 = 0" "sp_packet_count st0 = 0" using rel0 unfolding stripe_rel_def by simp_all
  moreover have "stripe_loop args st0 (enc_stream []) = Inr st0"
    by (subst stripe_loop.simps) (simp add: enc_stream_def read_stream_record_def)
  ultimately show ?thesis using assms(1) bind by (simp add: stripe_main_def stripe_args_ok_def Let_def)
qed

lemma stripe_refused:
  assumes "stripe_args_ok args" and "\<not> sa_force args" and "path_at args 0 \<in> dom fs0"
  shows "stripe_main args src fs0 = Inl (SystemExit (''refusing to overwrite existing ''
     @ (if sa_container_files args then ''container'' else ''block'') @ '' file: '' @ path_at args 0))"
proof -
  obtain n where n: "length (sa_lane_dirs args) = Suc n" using assms(1) by (cases "sa_lane_dirs args") (auto simp: stripe_args_ok_def)
  have "[0..<Suc n] = 0 # [1..<Suc n]" by (rule upt_rec [THEN trans]) simp
  then show ?thesis
    using assms by (auto simp: stripe_main_def stripe_args_ok_def open_containers_def start_block_def open_block_def stripe_init_def
        path_at_def n Let_def bind_res_def simp del: upt_Suc append_Cons)
qed

text \<open>C5: Striping loses nothing.  The arguments are accepted ones (two lanes at least, a block size that is a
  multiple of 64, a gap override that fits 64 bits) and the stream consists of well-formed records.  If there
  is at least one record and no file the striper writes exists already, or --force is given, it ends without
  an exception; reading the listed blocks in order (path, offset and length from the block list, from block
  files or from the lanes' container files) gives back the stream record for record, with only the gap
  field replaced when the override option is given, and the totals in the manifest are those of the
  stream.  If there is no record, it exits with that message; and if its first file exists and --force
  is not given, it refuses to overwrite that file before reading the stream.\<close>

theorem stripe_preserves_stream:
  assumes "stripe_args_ok args" and "\<forall>p \<in> set ps. packet_ok p"
  shows "(ps \<noteq> [] \<and> may_write args fs0 \<longrightarrow> (\<exists>st contents. stripe_main args (enc_stream ps) fs0 = Inr st
       \<and> map (read_block (sp_fs st)) (sp_blocks st) = map Some contents
       \<and> concat contents = enc_stream (map (out_packet args) ps)
       \<and> sp_packet_count st = int (length ps) \<and> sp_stream_bytes st = int (length (enc_stream ps))
       \<and> sp_total_frame_bytes st = sum_list (map (int \<circ> length \<circ> snd) ps)))
     \<and> (ps = [] \<and> may_write args fs0 \<longrightarrow> stripe_main args (enc_stream ps) fs0 = Inl (SystemExit ''stream file has no packet records''))
     \<and> (\<not> sa_force args \<and> path_at args 0 \<in> dom fs0 \<longrightarrow> stripe_main args (enc_stream ps) fs0 = Inl (SystemExit (''refusing to overwrite existing ''
          @ (if sa_container_files args then ''container'' else ''block'') @ '' file: '' @ path_at args 0)))"
proof (intro conjI impI)
  assume "ps \<noteq> [] \<and> may_write args fs0"
  then have ne: "ps \<noteq> []" and w: "may_write args fs0" by simp_all
  have lanes: "sa_lane_dirs args \<noteq> []" using assms(1) by (auto simp: stripe_args_ok_def)
  let ?gs = "groups_of args ps"
  from stripe_run [OF assms ne w] obtain st where st: "stripe_main args (enc_stream ps) fs0 = Inr st"
    "sp_blocks st = map (block_at args ?gs) [0..<length ?gs]" "files_rel args fs0 (map enc_stream ?gs) (sp_fs st)"
    "sp_packet_count st = int (length ps)" "sp_stream_bytes st = int (length (enc_stream ps))"
    "sp_total_frame_bytes st = sum_list (map (int \<circ> length \<circ> snd) ps)" by blast
  have "read_block (sp_fs st) (block_at args ?gs i) = Some (enc_stream (?gs ! i))" if "i < length ?gs" for i
    using files_rel_file [OF st(3) _ lanes, of i] file_at_block [of i "map enc_stream ?gs" args] that
    by (simp add: read_block_def block_at_def)
  then have "map (read_block (sp_fs st)) (sp_blocks st) = map Some (map enc_stream ?gs)"
    unfolding st(2) by (intro nth_equalityI) simp_all
  moreover have "concat (map enc_stream ?gs) = enc_stream (map (out_packet args) ps)"
    unfolding groups_facts(1) [OF ne, symmetric] by (rule enc_stream_concat [symmetric])
  ultimately show "\<exists>st contents. stripe_main args (enc_stream ps) fs0 = Inr st
       \<and> map (read_block (sp_fs st)) (sp_blocks st) = map Some contents
       \<and> concat contents = enc_stream (map (out_packet args) ps)
       \<and> sp_packet_count st = int (length ps) \<and> sp_stream_bytes st = int (length (enc_stream ps))
       \<and> sp_total_frame_bytes st = sum_list (map (int \<circ> length \<circ> snd) ps)"
    using st(1,4,5,6) by blast
qed (use stripe_empty [OF assms(1)] stripe_refused [OF assms(1)] in blast)+

theorem stripe_preserves_stream_witness:
  "\<exists>st contents. stripe_main demo_stripe (enc_stream [(0, [1]), (3, [2]), (4, [3])]) Map.empty = Inr st
     \<and> map (read_block (sp_fs st)) (sp_blocks st) = map Some contents
     \<and> concat contents = enc_stream [(9, [1]), (9, [2]), (9, [3])]"
proof -
  have "map (out_packet demo_stripe) [(0, [1]), (3, [2]), (4, [3])] = [(9, [1]), (9, [2]), (9, [3])]"
    by (simp add: out_packet_def demo_stripe_def)
  then show ?thesis using stripe_preserves_stream [OF demo_stripe_ok(1,2), of Map.empty] demo_stripe_ok(3) by auto
qed

text \<open>C33: The shape of a striping.  The blocks are numbered from zero and dealt round robin to the lanes,
  each starts at the packet where the one before it ended, none is empty, and a block is larger
  than the target only when it is a single record.  Files other than the striper's own are not
  changed.\<close>

theorem stripe_block_shape:
  assumes "stripe_args_ok args" and "\<forall>p \<in> set ps. packet_ok p" and "ps \<noteq> []" and "may_write args fs0"
    and "stripe_main args (enc_stream ps) fs0 = Inr st" and "i < length (sp_blocks st)"
  shows "bk_block_id (sp_blocks st ! i) = i
     \<and> bk_lane (sp_blocks st ! i) = i mod length (sa_lane_dirs args)
     \<and> bk_first_packet (sp_blocks st ! i) = sum_list (map bk_packets (take i (sp_blocks st)))
     \<and> 0 < bk_packets (sp_blocks st ! i)
     \<and> (bk_bytes (sp_blocks st ! i) \<le> sa_block_bytes args \<or> bk_packets (sp_blocks st ! i) = 1)
     \<and> (\<forall>p. (\<forall>j. p \<noteq> path_at args j) \<longrightarrow> sp_fs st p = fs0 p)"
proof -
  let ?gs = "groups_of args ps"
  from stripe_run [OF assms(1-4)] assms(5) have st: "sp_blocks st = map (block_at args ?gs) [0..<length ?gs]"
    "files_rel args fs0 (map enc_stream ?gs) (sp_fs st)" by auto
  have i: "i < length ?gs" using assms(6) by (simp add: st(1))
  have b: "sp_blocks st ! i = block_at args ?gs i" using i by (simp add: st(1))
  have g: "?gs ! i \<noteq> []" "int (length (enc_stream (?gs ! i))) \<le> sa_block_bytes args \<or> length (?gs ! i) = 1"
    using groups_facts(2) [OF assms(3), of args] nth_mem [OF i] by blast+
  have "sum_list (map bk_packets (take i (sp_blocks st))) = int (length (concat (take i ?gs)))"
  proof -
    have "map bk_packets (take i (sp_blocks st)) = map (int \<circ> length) (take i ?gs)"
      using i by (intro nth_equalityI) (simp_all add: st(1) block_at_def take_map)
    moreover have "sum_list (map (int \<circ> length) xss) = int (length (concat xss))" for xss :: "packet list list"
      by (induction xss) simp_all
    ultimately show ?thesis by simp
  qed
  moreover have "sp_fs st p = fs0 p" if p: "\<forall>j. p \<noteq> path_at args j" for p
  proof -
    have "p \<notin> used_paths args (length (map enc_stream ?gs) - 1)"
    proof (cases "sa_container_files args")
      case True
      show ?thesis
      proof
        assume "p \<in> used_paths args (length (map enc_stream ?gs) - 1)"
        then obtain l where "l < length (sa_lane_dirs args)" "p = container_path_for (sa_lane_dirs args) l"
          using True by (auto simp: used_paths_def)
        then have "p = path_at args l" using True by (simp add: path_at_def)
        then show False using p by blast
      qed
    next
      case False
      with p show ?thesis by (auto simp: used_paths_def path_at_def)
    qed
    with st(2) show ?thesis by (simp add: files_rel_def)
  qed
  ultimately show ?thesis using g by (auto simp: b block_at_def)
qed

theorem stripe_block_shape_witness:
  "\<exists>st. stripe_main demo_stripe (enc_stream [(0, [1]), (3, [2]), (4, [3])]) Map.empty = Inr st
     \<and> bk_lane (sp_blocks st ! 0) = 0"
proof -
  from stripe_run [OF demo_stripe_ok(1,2) _ demo_stripe_ok(3)] obtain st where
    st: "stripe_main demo_stripe (enc_stream [(0, [1]), (3, [2]), (4, [3])]) Map.empty = Inr st"
    "sp_blocks st = map (block_at demo_stripe (groups_of demo_stripe [(0, [1]), (3, [2]), (4, [3])]))
       [0..<length (groups_of demo_stripe [(0, [1]), (3, [2]), (4, [3])])]" by auto
  have "0 < length (sp_blocks st)" by (simp add: st(2) groups_of_def)
  from stripe_block_shape [OF demo_stripe_ok(1,2) _ demo_stripe_ok(3) st(1) this] st(1) show ?thesis by auto
qed

end
