(* ===== verification/PyOs.thy ===== *)
theory PyOs
  imports Prelude Complex_Main
begin

text \<open>
  Programs that drive the hardware.  A command maps the world to its result and the new world, or to
  \<open>None\<close> when it does not return; an exception keeps the world it was raised in, since the handlers
  of the scripts run there.  The operating system (device files, clock, sleep) is the record \<open>os\<close>, an
  argument of every definition; nothing is assumed about it here.
\<close>

section \<open>Commands\<close>

type_synonym ('w, 'a) io = "'w \<Rightarrow> ('a res \<times> 'w) option"

definition ret :: "'a \<Rightarrow> ('w, 'a) io" where
  "ret x = (\<lambda>w. Some (Inr x, w))"

definition raise :: "py_error \<Rightarrow> ('w, 'a) io" where
  "raise e = (\<lambda>w. Some (Inl e, w))"

definition bind_io :: "('w, 'a) io \<Rightarrow> ('a \<Rightarrow> ('w, 'b) io) \<Rightarrow> ('w, 'b) io" where
  "bind_io m f = (\<lambda>w. case m w of
       None \<Rightarrow> None
     | Some (Inl e, w') \<Rightarrow> Some (Inl e, w')
     | Some (Inr x, w') \<Rightarrow> f x w')"

abbreviation seq_io :: "('w, 'a) io \<Rightarrow> ('w, 'b) io \<Rightarrow> ('w, 'b) io" where
  "seq_io m n \<equiv> bind_io m (\<lambda>_. n)"

text \<open>Lifting a pure result, and \<^verbatim>\<open>try: m except BaseException: h; raise\<close>.\<close>

definition lift_res :: "'a res \<Rightarrow> ('w, 'a) io" where
  "lift_res r = (\<lambda>w. Some (r, w))"

definition on_error :: "('w, 'a) io \<Rightarrow> ('w, unit) io \<Rightarrow> ('w, 'a) io" where
  "on_error m h = (\<lambda>w. case m w of
       None \<Rightarrow> None
     | Some (Inl e, w') \<Rightarrow> (case h w' of None \<Rightarrow> None | Some (Inl e', w'') \<Rightarrow> Some (Inl e', w'')
                            | Some (Inr _, w'') \<Rightarrow> Some (Inl e, w''))
     | Some (Inr x, w') \<Rightarrow> Some (Inr x, w'))"

fun for_io :: "'a list \<Rightarrow> ('a \<Rightarrow> 's \<Rightarrow> ('w, 's) io) \<Rightarrow> 's \<Rightarrow> ('w, 's) io" where
  "for_io [] f s = ret s"
| "for_io (x # xs) f s = bind_io (f x s) (for_io xs f)"

text \<open>A \<^verbatim>\<open>while True\<close> loop: the body returns the next loop state, or breaks with a result.\<close>

datatype ('s, 'a) ctl = Continue 's | Break 'a

partial_function (option) loop_io :: "('s \<Rightarrow> ('w, ('s, 'a) ctl) io) \<Rightarrow> 's \<Rightarrow> ('w, 'a) io" where
  "loop_io body s w = (case body s w of
       None \<Rightarrow> None
     | Some (Inl e, w') \<Rightarrow> Some (Inl e, w')
     | Some (Inr (Continue s'), w') \<Rightarrow> loop_io body s' w'
     | Some (Inr (Break a), w') \<Rightarrow> Some (Inr a, w'))"

declare loop_io.simps [code]

lemma io_apply [io_simps]:
  "ret x w = Some (Inr x, w)"
  "raise e w = Some (Inl e, w)"
  "lift_res r w = Some (r, w)"
  "bind_io m f w = (case m w of None \<Rightarrow> None | Some (Inl e, w') \<Rightarrow> Some (Inl e, w') | Some (Inr x, w') \<Rightarrow> f x w')"
  by (simp_all add: ret_def raise_def lift_res_def bind_io_def)

lemma bind_ret [simp]: "bind_io (ret x) f = f x"
  by (simp add: bind_io_def ret_def)

lemma bind_raise [simp]: "bind_io (raise e) f = raise e"
  by (simp add: bind_io_def raise_def)

lemma bind_lift_Inr [simp]: "bind_io (lift_res (Inr x)) f = f x"
  by (simp add: bind_io_def lift_res_def)

lemma bind_lift_Inl [simp]: "bind_io (lift_res (Inl e)) f = raise e"
  by (simp add: bind_io_def lift_res_def raise_def)

lemma bind_io_assoc: "bind_io (bind_io m f) g = bind_io m (\<lambda>x. bind_io (f x) g)"
  by (rule ext) (auto simp: bind_io_def split: option.splits sum.splits)

section \<open>Reasoning about commands\<close>

text \<open>
  \<open>spec P m Q E\<close>: started where \<open>P\<close> holds the command returns, with a result in \<open>Q\<close> or an
  exception in \<open>E\<close>; \<open>pspec\<close> is the same without the promise to return.
\<close>

definition spec :: "('w \<Rightarrow> bool) \<Rightarrow> ('w, 'a) io \<Rightarrow> ('a \<Rightarrow> 'w \<Rightarrow> bool) \<Rightarrow> (py_error \<Rightarrow> 'w \<Rightarrow> bool) \<Rightarrow> bool" where
  "spec P m Q E \<longleftrightarrow> (\<forall>w. P w \<longrightarrow> (case m w of None \<Rightarrow> False | Some (Inl e, w') \<Rightarrow> E e w' | Some (Inr x, w') \<Rightarrow> Q x w'))"

definition pspec :: "('w \<Rightarrow> bool) \<Rightarrow> ('w, 'a) io \<Rightarrow> ('a \<Rightarrow> 'w \<Rightarrow> bool) \<Rightarrow> (py_error \<Rightarrow> 'w \<Rightarrow> bool) \<Rightarrow> bool" where
  "pspec P m Q E \<longleftrightarrow> (\<forall>w. P w \<longrightarrow> (case m w of None \<Rightarrow> True | Some (Inl e, w') \<Rightarrow> E e w' | Some (Inr x, w') \<Rightarrow> Q x w'))"

lemma spec_pspec: "spec P m Q E \<Longrightarrow> pspec P m Q E"
  by (auto simp: spec_def pspec_def split: option.splits sum.splits)

lemma spec_returns:
  assumes "spec P m Q (\<lambda>_ _. False)" and "P v"
  shows "\<exists>x w. m v = Some (Inr x, w) \<and> Q x w"
proof (cases "m v")
  case None
  with assms show ?thesis by (auto simp: spec_def)
next
  case (Some p)
  then show ?thesis using assms by (cases p; cases "fst p") (auto simp: spec_def)
qed

lemma spec_ret: "(\<And>w. P w \<Longrightarrow> Q x w) \<Longrightarrow> spec P (ret x) Q E"
  by (simp add: spec_def ret_def)

lemma spec_raise: "(\<And>w. P w \<Longrightarrow> E e w) \<Longrightarrow> spec P (raise e) Q E"
  by (simp add: spec_def raise_def)

lemma spec_bind:
  assumes "spec P m R E" and "\<And>x. spec (R x) (f x) Q E"
  shows "spec P (bind_io m f) Q E"
  using assms unfolding spec_def bind_io_def
  by (auto split: option.splits sum.splits prod.splits) (fastforce split: option.splits sum.splits prod.splits)+

lemma pspec_ret: "(\<And>w. P w \<Longrightarrow> Q x w) \<Longrightarrow> pspec P (ret x) Q E"
  by (simp add: pspec_def ret_def)

lemma pspec_raise: "(\<And>w. P w \<Longrightarrow> E e w) \<Longrightarrow> pspec P (raise e) Q E"
  by (simp add: pspec_def raise_def)

lemma pspec_bind:
  assumes "pspec P m R E" and "\<And>x. pspec (R x) (f x) Q E"
  shows "pspec P (bind_io m f) Q E"
proof (unfold pspec_def, intro allI impI)
  fix w assume "P w"
  with assms(1) have m: "case m w of None \<Rightarrow> True | Some (Inl e, w') \<Rightarrow> E e w' | Some (Inr x, w') \<Rightarrow> R x w'"
    by (simp add: pspec_def)
  show "case bind_io m f w of None \<Rightarrow> True | Some (Inl e, w') \<Rightarrow> E e w' | Some (Inr x, w') \<Rightarrow> Q x w'"
  proof (cases "m w")
    case None
    then show ?thesis by (simp add: bind_io_def)
  next
    case (Some p)
    obtain r w' where p: "p = (r, w')" by (cases p)
    show ?thesis
    proof (cases r)
      case (Inl e)
      with m Some p show ?thesis by (simp add: bind_io_def)
    next
      case (Inr x)
      with m Some p have "R x w'" by simp
      with assms(2) [of x] Some p Inr show ?thesis by (simp add: bind_io_def pspec_def)
    qed
  qed
qed

lemma spec_conseq:
  assumes "spec P' m Q' E'" and "\<And>w. P w \<Longrightarrow> P' w" and "\<And>x w. Q' x w \<Longrightarrow> Q x w" and "\<And>e w. E' e w \<Longrightarrow> E e w"
  shows "spec P m Q E"
  using assms unfolding spec_def by (fastforce split: option.splits sum.splits prod.splits)

lemma pspec_conseq:
  assumes "pspec P' m Q' E'" and "\<And>w. P w \<Longrightarrow> P' w" and "\<And>x w. Q' x w \<Longrightarrow> Q x w" and "\<And>e w. E' e w \<Longrightarrow> E e w"
  shows "pspec P m Q E"
  using assms unfolding pspec_def by (fastforce split: option.splits sum.splits prod.splits)

lemma pspec_pre: "(\<And>w. P w \<Longrightarrow> pspec (\<lambda>v. v = w) m Q E) \<Longrightarrow> pspec P m Q E"
  by (auto simp: pspec_def)

lemma spec_pre: "(\<And>w. P w \<Longrightarrow> spec (\<lambda>v. v = w) m Q E) \<Longrightarrow> spec P m Q E"
  by (auto simp: spec_def)

lemma spec_assume: "(C \<Longrightarrow> spec P m Q E) \<Longrightarrow> spec (\<lambda>w. P w \<and> C) m Q E"
  by (auto simp: spec_def)

lemma spec_pure: "(C \<Longrightarrow> spec (\<lambda>_. True) m Q E) \<Longrightarrow> spec (\<lambda>_. C) m Q E"
  by (auto simp: spec_def)

lemma spec_prod: "(\<And>a b. spec P (f a b) Q E) \<Longrightarrow> spec P (case x of (a, b) \<Rightarrow> f a b) Q E"
  by (cases x) simp

lemma spec_point:
  assumes "\<And>v. P v \<Longrightarrow> spec (\<lambda>w. w = v) m (R v) (\<lambda>_ _. False)" and "\<And>v x w. P v \<Longrightarrow> R v x w \<Longrightarrow> Q x w"
  shows "spec P m Q E"
proof (rule spec_pre)
  fix v assume v: "P v"
  show "spec (\<lambda>w. w = v) m Q E"
    by (rule spec_conseq [OF assms(1) [OF v]]) (use assms(2) [OF v] in simp_all)
qed

lemma pspec_if: "(b \<Longrightarrow> pspec P m Q E) \<Longrightarrow> (\<not> b \<Longrightarrow> pspec P n Q E) \<Longrightarrow> pspec P (if b then m else n) Q E"
  by simp

lemma pspec_on_error:
  assumes "pspec P m Q E" and "\<And>e. pspec (E e) h (\<lambda>_. E' e) E'"
  shows "pspec P (on_error m h) Q E'"
proof (unfold pspec_def, intro allI impI)
  fix w assume "P w"
  with assms(1) have m: "case m w of None \<Rightarrow> True | Some (Inl e, w') \<Rightarrow> E e w' | Some (Inr x, w') \<Rightarrow> Q x w'"
    by (simp add: pspec_def)
  show "case on_error m h w of None \<Rightarrow> True | Some (Inl e, w') \<Rightarrow> E' e w' | Some (Inr x, w') \<Rightarrow> Q x w'"
  proof (cases "m w")
    case None
    then show ?thesis by (simp add: on_error_def)
  next
    case (Some p)
    obtain r w' where p: "p = (r, w')" by (cases p)
    show ?thesis
    proof (cases r)
      case (Inl e)
      with m Some p have "E e w'" by simp
      with assms(2) [of e] have "case h w' of None \<Rightarrow> True | Some (Inl e', w'') \<Rightarrow> E' e' w'' | Some (Inr x, w'') \<Rightarrow> E' e w''"
        by (simp add: pspec_def)
      with Some p Inl show ?thesis by (auto simp: on_error_def split: option.splits sum.splits prod.splits)
    next
      case (Inr x)
      with m Some p show ?thesis by (simp add: on_error_def)
    qed
  qed
qed

text \<open>Loops: an invariant, and for termination a measure of the loop state and the world.\<close>

lemma pspec_loop:
  assumes "\<And>s. pspec (I s) (body s) (\<lambda>c w. case c of Continue s' \<Rightarrow> I s' w | Break a \<Rightarrow> Q a w) E"
  shows "pspec (I s) (loop_io body s) Q E"
proof -
  have main: "loop_io body s w = Some y \<Longrightarrow> I s w \<longrightarrow> (case y of (Inl e, w') \<Rightarrow> E e w' | (Inr a, w') \<Rightarrow> Q a w')" for s w y
  proof (rule loop_io.raw_induct [where P = "\<lambda>b s w y. b = body \<longrightarrow> I s w \<longrightarrow>
      (case y of (Inl e, w') \<Rightarrow> E e w' | (Inr a, w') \<Rightarrow> Q a w')", THEN mp, OF _ _ refl])
    fix loop b s w y
    assume IH: "\<And>b s w y. loop b s w = Some y \<Longrightarrow> b = body \<longrightarrow> I s w \<longrightarrow>
        (case y of (Inl e, w') \<Rightarrow> E e w' | (Inr a, w') \<Rightarrow> Q a w')"
      and eq: "(case b s w of None \<Rightarrow> None | Some (Inl e, w') \<Rightarrow> Some (Inl e, w')
        | Some (Inr (Continue s'), w') \<Rightarrow> loop b s' w' | Some (Inr (Break a), w') \<Rightarrow> Some (Inr a, w')) = Some y"
    show "b = body \<longrightarrow> I s w \<longrightarrow> (case y of (Inl e, w') \<Rightarrow> E e w' | (Inr a, w') \<Rightarrow> Q a w')"
    proof (intro impI)
      assume b: "b = body" and inv: "I s w"
      have c: "case body s w of None \<Rightarrow> True | Some (Inl e, w') \<Rightarrow> E e w'
          | Some (Inr c, w') \<Rightarrow> (case c of Continue s' \<Rightarrow> I s' w' | Break a \<Rightarrow> Q a w')"
        using assms [of s] inv by (simp add: pspec_def)
      show "case y of (Inl e, w') \<Rightarrow> E e w' | (Inr a, w') \<Rightarrow> Q a w'"
        using eq c IH [of body] unfolding b
        by (fastforce split: option.splits prod.splits sum.splits ctl.splits)
    qed
  qed
  then show ?thesis
    unfolding pspec_def by (fastforce split: option.splits prod.splits sum.splits)
qed

text \<open>A loop whose body returns to the same state in the same world does not return.\<close>

lemma loop_io_stuck:
  assumes "body s w = Some (Inr (Continue s), w)"
  shows "loop_io body s w = None"
proof (rule ccontr)
  assume "loop_io body s w \<noteq> None"
  then obtain y where y: "loop_io body s w = Some y" by blast
  have "b = body \<and> s' = s \<and> w' = w \<longrightarrow> False" if "loop_io b s' w' = Some y'" for b s' w' y'
  proof (rule loop_io.raw_induct [where P = "\<lambda>b s' w' y'. b = body \<and> s' = s \<and> w' = w \<longrightarrow> False", OF _ that])
    fix loop b s' w' y'
    assume IH: "\<And>b s' w' y'. loop b s' w' = Some y' \<Longrightarrow> b = body \<and> s' = s \<and> w' = w \<longrightarrow> False"
      and eq: "(case b s' w' of None \<Rightarrow> None | Some (Inl e, w') \<Rightarrow> Some (Inl e, w')
        | Some (Inr (Continue s'), w') \<Rightarrow> loop b s' w' | Some (Inr (Break a), w') \<Rightarrow> Some (Inr a, w')) = Some y'"
    show "b = body \<and> s' = s \<and> w' = w \<longrightarrow> False"
    proof
      assume "b = body \<and> s' = s \<and> w' = w"
      with eq assms have "loop body s w = Some y'" by simp
      from IH [OF this] show False by simp
    qed
  qed
  from this [OF y] show False by simp
qed

lemma spec_loop:
  fixes m :: "'s \<Rightarrow> 'w \<Rightarrow> nat"
  assumes "\<And>s v. spec (\<lambda>w. w = v \<and> I s v) (body s)
      (\<lambda>c w. case c of Continue s' \<Rightarrow> I s' w \<and> m s' w < m s v | Break a \<Rightarrow> Q a w) E"
  shows "spec (I s) (loop_io body s) Q E"
proof -
  have "I s w \<Longrightarrow> case loop_io body s w of None \<Rightarrow> False | Some (Inl e, w') \<Rightarrow> E e w' | Some (Inr x, w') \<Rightarrow> Q x w'" for s w
  proof (induction "m s w" arbitrary: s w rule: less_induct)
    case less
    have c: "case body s w of None \<Rightarrow> False | Some (Inl e, w') \<Rightarrow> E e w'
        | Some (Inr c, w') \<Rightarrow> (case c of Continue s' \<Rightarrow> I s' w' \<and> m s' w' < m s w | Break a \<Rightarrow> Q a w')"
      using assms [of w s] less.prems by (simp add: spec_def)
    show ?case
    proof (cases "body s w")
      case None
      with c show ?thesis by simp
    next
      case (Some p)
      obtain r w' where p: "p = (r, w')" by (cases p)
      show ?thesis
      proof (cases r)
        case (Inl e)
        with c Some p show ?thesis by (simp add: loop_io.simps)
      next
        case (Inr k)
        show ?thesis
        proof (cases k)
          case (Continue s')
          with c Some p Inr have "I s' w'" "m s' w' < m s w" by simp_all
          from less.hyps [OF this(2,1)] show ?thesis
            using Some p Inr Continue by (simp add: loop_io.simps [of body s w])
        next
          case (Break a)
          with c Some p Inr show ?thesis by (simp add: loop_io.simps)
        qed
      qed
    qed
  qed
  then show ?thesis by (simp add: spec_def)
qed

lemma pspec_for:
  assumes "\<And>x xs s. pspec (I (x # xs) s) (f x s) (\<lambda>s' w. I xs s' w) E"
  shows "pspec (I xs s) (for_io xs f s) (\<lambda>s' w. I [] s' w) E"
proof (induction xs arbitrary: s)
  case Nil
  show ?case by (simp add: pspec_ret)
next
  case (Cons x xs)
  show ?case
    unfolding for_io.simps by (rule pspec_bind [OF assms Cons.IH])
qed

lemma spec_for:
  assumes "\<And>x xs s. spec (I (x # xs) s) (f x s) (\<lambda>s' w. I xs s' w) E"
  shows "spec (I xs s) (for_io xs f s) (\<lambda>s' w. I [] s' w) E"
proof (induction xs arbitrary: s)
  case Nil
  show ?case by (simp add: spec_ret)
next
  case (Cons x xs)
  show ?case
    unfolding for_io.simps by (rule spec_bind [OF assms Cons.IH])
qed

lemma spec_on_error:
  assumes m: "spec P m Q E" and h: "\<And>e. spec (E e) h (\<lambda>_. E' e) E'"
  shows "spec P (on_error m h) Q E'"
proof (unfold spec_def, intro allI impI)
  fix w assume "P w"
  with m have mw: "case m w of None \<Rightarrow> False | Some (Inl e, w') \<Rightarrow> E e w' | Some (Inr x, w') \<Rightarrow> Q x w'"
    by (simp add: spec_def)
  then obtain r w' where p: "m w = Some (r, w')" by (cases "m w") auto
  show "case on_error m h w of None \<Rightarrow> False | Some (Inl e, w') \<Rightarrow> E' e w' | Some (Inr x, w') \<Rightarrow> Q x w'"
  proof (cases r)
    case (Inl e)
    with mw p have "E e w'" by simp
    with h [of e] have "case h w' of None \<Rightarrow> False | Some (Inl e', w'') \<Rightarrow> E' e' w'' | Some (Inr x, w'') \<Rightarrow> E' e w''"
      by (simp add: spec_def)
    with p Inl show ?thesis by (auto simp: on_error_def split: option.splits sum.splits prod.splits)
  next
    case (Inr x)
    with mw p show ?thesis by (simp add: on_error_def)
  qed
qed

text \<open>What a command that meets a total specification did, as an outcome.\<close>

lemma spec_outcome:
  assumes "spec P m Q E" and "P v"
  shows "(\<exists>x w. m v = Some (Inr x, w) \<and> Q x w) \<or> (\<exists>e w. m v = Some (Inl e, w) \<and> E e w)"
proof (cases "m v")
  case None
  with assms show ?thesis by (auto simp: spec_def)
next
  case (Some p)
  then show ?thesis using assms by (cases p; cases "fst p") (auto simp: spec_def)
qed

section \<open>The operating system\<close>

datatype fd = User | H2C | C2H

record 'w os =
  os_pread :: "fd \<Rightarrow> int \<Rightarrow> int \<Rightarrow> 'w \<Rightarrow> bytes res \<times> 'w"
  os_pwrite :: "fd \<Rightarrow> bytes \<Rightarrow> int \<Rightarrow> 'w \<Rightarrow> int res \<times> 'w"
  os_sleep :: "rat \<Rightarrow> 'w \<Rightarrow> 'w"
  os_clock :: "'w \<Rightarrow> rat \<times> 'w"

definition pread :: "'w os \<Rightarrow> fd \<Rightarrow> int \<Rightarrow> int \<Rightarrow> ('w, bytes) io" where
  "pread os fd n addr = (\<lambda>w. Some (os_pread os fd n addr w))"

definition pwrite :: "'w os \<Rightarrow> fd \<Rightarrow> bytes \<Rightarrow> int \<Rightarrow> ('w, int) io" where
  "pwrite os fd data addr = (\<lambda>w. Some (os_pwrite os fd data addr w))"

definition sleep :: "'w os \<Rightarrow> rat \<Rightarrow> ('w, unit) io" where
  "sleep os t = (\<lambda>w. Some (Inr (), os_sleep os t w))"

definition perf_counter :: "'w os \<Rightarrow> ('w, rat) io" where
  "perf_counter os = (\<lambda>w. case os_clock os w of (t, w') \<Rightarrow> Some (Inr t, w'))"

end
