(* ===== verification/XdmaIo.thy ===== *)
theory XdmaIo
  imports PyOs
begin

text \<open>
  The access functions every hardware script repeats: 32- and 64-bit registers through
  \<^verbatim>\<open>os.pread/os.pwrite\<close> on the user device, and the DMA loops that move whole files.
  The properties say when a 64-bit read of a running counter can be trusted, and that the DMA loops
  transfer every byte to its address however short the single transfers are.
\<close>

unbundle bit_operations_syntax

section \<open>Registers\<close>

definition read32 :: "'w os \<Rightarrow> int \<Rightarrow> ('w, int) io" where
  "read32 os offset = bind_io (pread os User 4 offset) (\<lambda>b.
     if length b = 4 then ret (le_int b) else raise StructError)"

definition write32 :: "'w os \<Rightarrow> int \<Rightarrow> int \<Rightarrow> ('w, unit) io" where
  "write32 os offset value =
     bind_io (lift_res (pack_le 4 (value AND 0xFFFFFFFF))) (\<lambda>b.
     bind_io (pwrite os User b offset) (\<lambda>_. ret ()))"

definition write64 :: "'w os \<Rightarrow> int \<Rightarrow> int \<Rightarrow> int \<Rightarrow> ('w, unit) io" where
  "write64 os lo hi value =
     seq_io (write32 os lo value) (write32 os hi (drop_bit 32 value))"

definition read64 :: "'w os \<Rightarrow> int \<Rightarrow> int \<Rightarrow> ('w, int) io" where
  "read64 os lo hi = bind_io (read32 os lo) (\<lambda>l. bind_io (read32 os hi) (\<lambda>h. ret (l OR push_bit 32 h)))"

definition read64_stable :: "'w os \<Rightarrow> int \<Rightarrow> int \<Rightarrow> ('w, int) io" where
  "read64_stable os lo hi = loop_io (\<lambda>_.
     bind_io (read32 os hi) (\<lambda>hi_before.
     bind_io (read32 os lo) (\<lambda>low.
     bind_io (read32 os hi) (\<lambda>hi_after.
     if hi_before = hi_after then ret (Break (low OR push_bit 32 hi_after)) else ret (Continue ()))))) ()"

text \<open>The mask never lets the packing fail.\<close>

lemma and_mask_32: "v AND 0xFFFFFFFF = take_bit 32 (v :: int)"
  by (simp add: take_bit_eq_mask mask_numeral)

lemma write32_pack: "write32 os a v = bind_io (pwrite os User (le_bytes 4 (take_bit 32 v)) a) (\<lambda>_. ret ())"
proof -
  have "take_bit 32 v < 2 ^ 32" by (rule take_bit_int_less_exp)
  then have "pack_le 4 (take_bit 32 v) = Inr (le_bytes 4 (take_bit 32 v))"
    by (intro pack_le_Inr) simp_all
  then show ?thesis unfolding write32_def and_mask_32 by simp
qed

section \<open>DMA loops\<close>

text \<open>
  What \<^verbatim>\<open>fh.read(n)\<close> of a file opened for binary reading does with the rest of the file: all of it
  for \<open>-1\<close>, otherwise at most \<open>n\<close> bytes, nothing for zero; a count that is no index-sized integer, or
  another negative one, raises.  Memory is taken to suffice.
\<close>

definition fh_read :: "int \<Rightarrow> bytes \<Rightarrow> bytes res" where
  "fh_read n rest =
    (if n < - (2 ^ 63) \<or> 2 ^ 63 \<le> n then Inl OverflowError
     else if n < - 1 then Inl (ValueError ''read length must be non-negative or -1'')
     else Inr (if n = - 1 then rest else take (nat n) rest))"

text \<open>The counts with which a read makes progress, and what it returns for them.\<close>

definition read_size_ok :: "int \<Rightarrow> bool" where
  "read_size_ok n \<longleftrightarrow> n = - 1 \<or> 0 < n \<and> n < 2 ^ 63"

definition fh_part :: "int \<Rightarrow> bytes \<Rightarrow> bytes" where
  "fh_part n rest = (if n = - 1 then rest else take (nat n) rest)"

lemma fh_read_ok: "read_size_ok n \<Longrightarrow> fh_read n xs = Inr (fh_part n xs)"
  by (auto simp: read_size_ok_def fh_read_def fh_part_def)

lemma fh_read_bad: "n \<noteq> 0 \<Longrightarrow> \<not> read_size_ok n \<Longrightarrow> \<exists>e. \<forall>xs. fh_read n xs = Inl e"
  by (cases "n < - (2 ^ 63) \<or> 2 ^ 63 \<le> n") (auto simp: read_size_ok_def fh_read_def)

lemma fh_part_Nil: "read_size_ok n \<Longrightarrow> fh_part n xs = [] \<longleftrightarrow> xs = []"
  by (auto simp: fh_part_def read_size_ok_def)

lemma fh_part_take: "take (length (fh_part n xs)) xs = fh_part n xs"
  by (auto simp: fh_part_def min_def)

lemma length_fh_part: "length (fh_part n xs) \<le> length xs"
  by (auto simp: fh_part_def)

text \<open>xdma_load_trace.pwrite_all: the inner loop adds whatever \<^verbatim>\<open>os.pwrite\<close> returns.\<close>

definition write_chunk_all :: "'w os \<Rightarrow> bytes \<Rightarrow> int \<Rightarrow> ('w, unit) io" where
  "write_chunk_all os chunk addr = loop_io (\<lambda>written.
     if written < int (length chunk)
     then bind_io (pwrite os H2C (drop (nat written) chunk) (addr + written)) (\<lambda>rc.
          ret (Continue (written + rc)))
     else ret (Break ())) 0"

definition pwrite_all :: "'w os \<Rightarrow> bytes \<Rightarrow> int \<Rightarrow> int \<Rightarrow> ('w, unit) io" where
  "pwrite_all os file addr chunk_bytes = loop_io (\<lambda>offset.
     bind_io (lift_res (fh_read chunk_bytes (drop offset file))) (\<lambda>chunk.
     if chunk = [] then ret (Break ())
     else bind_io (write_chunk_all os chunk (addr + int offset)) (\<lambda>_.
          ret (Continue (offset + length chunk))))) 0"

text \<open>preload_stress_test.pwrite_file: the same with a guard against a write that moves nothing.\<close>

definition write_chunk_file :: "'w os \<Rightarrow> bytes \<Rightarrow> int \<Rightarrow> ('w, unit) io" where
  "write_chunk_file os chunk addr = loop_io (\<lambda>written.
     if written < int (length chunk)
     then bind_io (pwrite os H2C (drop (nat written) chunk) (addr + written)) (\<lambda>rc.
          if rc \<le> 0 then raise (RuntimeError ''short H2C write'')
          else ret (Continue (written + rc)))
     else ret (Break ())) 0"

definition pwrite_file :: "'w os \<Rightarrow> bytes \<Rightarrow> int \<Rightarrow> int \<Rightarrow> ('w, unit) io" where
  "pwrite_file os file addr chunk_bytes = loop_io (\<lambda>offset.
     bind_io (lift_res (fh_read chunk_bytes (drop offset file))) (\<lambda>chunk.
     if chunk = [] then ret (Break ())
     else bind_io (write_chunk_file os chunk (addr + int offset)) (\<lambda>_.
          ret (Continue (offset + length chunk))))) 0"

section \<open>Counters\<close>

text \<open>
  A free-running 64-bit counter behind two registers: a read of either half samples the counter, and
  the counter never decreases.
\<close>

definition samples :: "'w os \<Rightarrow> int \<Rightarrow> ('w \<Rightarrow> int) \<Rightarrow> ('w \<Rightarrow> int) \<Rightarrow> bool" where
  "samples os offset value cnt \<longleftrightarrow>
     (\<forall>w. fst (os_pread os User 4 offset w) = Inr (le_bytes 4 (value w))
        \<and> cnt w \<le> cnt (snd (os_pread os User 4 offset w)))"

definition counter64 :: "'w os \<Rightarrow> int \<Rightarrow> int \<Rightarrow> ('w \<Rightarrow> int) \<Rightarrow> bool" where
  "counter64 os lo hi cnt \<longleftrightarrow> (\<forall>w. 0 \<le> cnt w \<and> cnt w < 2 ^ 64)
     \<and> samples os lo (\<lambda>w. cnt w mod 2 ^ 32) cnt \<and> samples os hi (\<lambda>w. cnt w div 2 ^ 32) cnt"

lemma or_push_32:
  fixes l h :: int
  assumes "0 \<le> l" and "l < 2 ^ 32"
  shows "l OR push_bit 32 h = l + h * 2 ^ 32"
proof -
  have t: "take_bit 32 l = l" using assms by (simp add: take_bit_int_eq_self_iff)
  have "take_bit 32 l AND push_bit 32 h = 0"
    by (rule bit_eqI) (auto simp: bit_and_iff bit_take_bit_iff bit_push_bit_iff)
  then have "l OR push_bit 32 h = l + push_bit 32 h" by (simp add: t disjunctive_add_eq_or)
  then show ?thesis by (simp add: push_bit_eq_mult)
qed

lemma split_64: "cnt mod 2 ^ 32 OR push_bit 32 (cnt div 2 ^ 32) = (cnt :: int)"
  by (subst or_push_32) simp_all

lemma counter64_hi:
  assumes "counter64 os lo hi cnt"
  shows "0 \<le> cnt w div 2 ^ 32" and "cnt w div 2 ^ 32 < 2 ^ 32"
proof -
  have b: "0 \<le> cnt w" "cnt w < 2 ^ 64" using assms by (simp_all add: counter64_def)
  define q r where "q = cnt w div 2 ^ 32" and "r = cnt w mod 2 ^ 32"
  have "q * 2 ^ 32 + r = cnt w" "0 \<le> r" "r < 2 ^ 32" by (simp_all add: q_def r_def)
  then have "0 \<le> q" "q < 2 ^ 32" using b by simp_all
  then show "0 \<le> cnt w div 2 ^ 32" "cnt w div 2 ^ 32 < 2 ^ 32" by (simp_all add: q_def)
qed

lemma counter64_nonneg: "counter64 os lo hi cnt \<Longrightarrow> 0 \<le> cnt w"
  by (simp add: counter64_def)

text \<open>The world after the registers at the given offsets were read one after the other.\<close>

fun after_reads :: "'w os \<Rightarrow> int list \<Rightarrow> 'w \<Rightarrow> 'w" where
  "after_reads os [] w = w"
| "after_reads os (a # as) w = after_reads os as (snd (os_pread os User 4 a w))"

lemma read32_after:
  assumes "samples os a value cnt" and "0 \<le> value v" and "value v < 2 ^ 32"
  shows "read32 os a v = Some (Inr (value v), after_reads os [a] v)" and "cnt v \<le> cnt (after_reads os [a] v)"
proof -
  obtain b w where p: "os_pread os User 4 a v = (b, w)" by (cases "os_pread os User 4 a v")
  with assms(1) have b: "b = Inr (le_bytes 4 (value v))" "cnt v \<le> cnt w"
    unfolding samples_def by (metis fst_conv, metis snd_conv)
  have "le_int (le_bytes 4 (value v)) = value v" using assms(2,3) by (intro le_int_le_bytes) simp_all
  then show "read32 os a v = Some (Inr (value v), after_reads os [a] v)" "cnt v \<le> cnt (after_reads os [a] v)"
    using p b by (simp_all add: read32_def pread_def bind_io_def ret_def)
qed

lemma counter64_after:
  assumes "counter64 os lo hi cnt"
  shows "read32 os lo v = Some (Inr (cnt v mod 2 ^ 32), after_reads os [lo] v)" "cnt v \<le> cnt (after_reads os [lo] v)"
    and "read32 os hi v = Some (Inr (cnt v div 2 ^ 32), after_reads os [hi] v)" "cnt v \<le> cnt (after_reads os [hi] v)"
proof -
  have s: "samples os lo (\<lambda>w. cnt w mod 2 ^ 32) cnt" "samples os hi (\<lambda>w. cnt w div 2 ^ 32) cnt"
    using assms by (simp_all add: counter64_def)
  show "read32 os lo v = Some (Inr (cnt v mod 2 ^ 32), after_reads os [lo] v)" "cnt v \<le> cnt (after_reads os [lo] v)"
    using read32_after [OF s(1), of v] by simp_all
  show "read32 os hi v = Some (Inr (cnt v div 2 ^ 32), after_reads os [hi] v)" "cnt v \<le> cnt (after_reads os [hi] v)"
    using read32_after [OF s(2), of v] counter64_hi [OF assms, of v] by simp_all
qed

lemma read64_run:
  assumes "counter64 os lo hi cnt"
  shows "\<exists>u w. read64 os lo hi v = Some (Inr (cnt v mod 2 ^ 32 OR push_bit 32 (cnt u div 2 ^ 32)), w)
     \<and> cnt v \<le> cnt u \<and> cnt u \<le> cnt w"
  using counter64_after [OF assms, of v] counter64_after [OF assms, of "after_reads os [lo] v"]
  by (intro exI [of _ "after_reads os [lo] v"] exI [of _ "after_reads os [hi] (after_reads os [lo] v)"])
    (simp add: read64_def bind_io_def ret_def del: after_reads.simps)

text \<open>The offsets that \<open>k\<close> rounds of the stable read touch.\<close>

definition stable_rounds :: "int \<Rightarrow> int \<Rightarrow> nat \<Rightarrow> int list" where
  "stable_rounds lo hi k = concat (replicate k [hi, lo, hi])"

lemma read64_stable_rounds:
  assumes c: "counter64 os lo hi cnt"
  shows "\<exists>k. read64_stable os lo hi v
      = Some (Inr (cnt (after_reads os (stable_rounds lo hi k @ [hi]) v)), after_reads os (stable_rounds lo hi (Suc k)) v)
    \<and> cnt v \<le> cnt (after_reads os (stable_rounds lo hi k @ [hi]) v)
    \<and> cnt (after_reads os (stable_rounds lo hi k @ [hi]) v) \<le> cnt (after_reads os (stable_rounds lo hi (Suc k)) v)
    \<and> int k \<le> cnt (after_reads os (stable_rounds lo hi k @ [hi]) v) div 2 ^ 32 - cnt v div 2 ^ 32"
proof (induction "nat (2 ^ 32 - cnt v div 2 ^ 32)" arbitrary: v rule: less_induct)
  case less
  define w1 w2 w3 where "w1 = after_reads os [hi] v" and "w2 = after_reads os [lo] w1" and "w3 = after_reads os [hi] w2"
  have cnts: "cnt v \<le> cnt w1" "cnt w1 \<le> cnt w2" "cnt w2 \<le> cnt w3"
    using counter64_after [OF c] by (simp_all only: w1_def w2_def w3_def)
  then have mono: "cnt v div 2 ^ 32 \<le> cnt w1 div 2 ^ 32" "cnt w1 div 2 ^ 32 \<le> cnt w2 div 2 ^ 32" "cnt w2 div 2 ^ 32 \<le> cnt w3 div 2 ^ 32"
    by (simp_all add: zdiv_mono1)
  have three: "after_reads os (stable_rounds lo hi (Suc k) @ as) v = after_reads os (stable_rounds lo hi k @ as) w3" for k as
    by (simp add: stable_rounds_def w1_def w2_def w3_def)
  have start: "after_reads os (stable_rounds lo hi 0 @ as) u = after_reads os as u" for as u by (simp add: stable_rounds_def)
  have step: "read64_stable os lo hi v = (if cnt v div 2 ^ 32 = cnt w2 div 2 ^ 32
      then Some (Inr (cnt w1 mod 2 ^ 32 OR push_bit 32 (cnt w2 div 2 ^ 32)), w3) else read64_stable os lo hi w3)"
    unfolding read64_stable_def using counter64_after(3) [OF c, of v] counter64_after(1) [OF c, of w1] counter64_after(3) [OF c, of w2]
    by (subst loop_io.simps) (simp add: bind_io_def ret_def w1_def w2_def w3_def)
  show ?case
  proof (cases "cnt v div 2 ^ 32 = cnt w2 div 2 ^ 32")
    case True
    then have "cnt w1 div 2 ^ 32 = cnt w2 div 2 ^ 32" using mono by linarith
    then have "cnt w1 mod 2 ^ 32 OR push_bit 32 (cnt w2 div 2 ^ 32) = cnt w1"
      using split_64 [of "cnt w1"] by simp
    with step True have "read64_stable os lo hi v = Some (Inr (cnt w1), w3)" by simp
    moreover have "after_reads os (stable_rounds lo hi (Suc 0)) v = w3" using three [of 0 "[]"] start [of "[]"] by simp
    moreover have "after_reads os (stable_rounds lo hi 0 @ [hi]) v = w1" unfolding start by (simp add: w1_def)
    ultimately show ?thesis using cnts mono by (intro exI [of _ 0]) simp
  next
    case False
    then have "nat (2 ^ 32 - cnt w3 div 2 ^ 32) < nat (2 ^ 32 - cnt v div 2 ^ 32)"
      using mono counter64_hi(2) [OF c, of v] by linarith
    from less [OF this] obtain k where k: "read64_stable os lo hi w3
        = Some (Inr (cnt (after_reads os (stable_rounds lo hi k @ [hi]) w3)), after_reads os (stable_rounds lo hi (Suc k)) w3)"
      "cnt w3 \<le> cnt (after_reads os (stable_rounds lo hi k @ [hi]) w3)"
      "cnt (after_reads os (stable_rounds lo hi k @ [hi]) w3) \<le> cnt (after_reads os (stable_rounds lo hi (Suc k)) w3)"
      "int k \<le> cnt (after_reads os (stable_rounds lo hi k @ [hi]) w3) div 2 ^ 32 - cnt w3 div 2 ^ 32" by blast
    have "after_reads os (stable_rounds lo hi (Suc (Suc k))) v = after_reads os (stable_rounds lo hi (Suc k)) w3"
      using three [of "Suc k" "[]"] by simp
    with k False step cnts mono show ?thesis by (intro exI [of _ "Suc k"]) (simp add: three)
  qed
qed

lemma read64_stable_run:
  assumes "counter64 os lo hi cnt"
  shows "\<exists>x w. read64_stable os lo hi v = Some (Inr x, w) \<and> cnt v \<le> x \<and> x \<le> cnt w"
  using read64_stable_rounds [OF assms, of v] by blast

text \<open>C17: The stable read.  On a 64-bit counter that never decreases, read64_stable returns after \<open>k\<close> retries,
  that is after exactly \<open>k + 1\<close> rounds of three register reads.  The value it returns is the one the
  counter had when the last round read the low half, so it lies between the counter at the start and
  at the end of the call; and \<open>k\<close> is at most the number of carries into the high half until then.\<close>

theorem read64_stable_correct:
  assumes "counter64 os lo hi cnt"
  shows "\<exists>k. let u = after_reads os (stable_rounds lo hi k @ [hi]) v; w = after_reads os (stable_rounds lo hi (k + 1)) v
    in read64_stable os lo hi v = Some (Inr (cnt u), w) \<and> cnt v \<le> cnt u \<and> cnt u \<le> cnt w
      \<and> int k \<le> cnt u div 2 ^ 32 - cnt v div 2 ^ 32"
  using read64_stable_rounds [OF assms, of v] by (simp only: Let_def Suc_eq_plus1)

text \<open>A board whose counter advances by one with every access.\<close>

definition ticking :: "nat os" where
  "ticking = \<lparr> os_pread = (\<lambda>fd n addr w. (Inr (le_bytes 4
       (if addr = 0 then min (int w) (2 ^ 64 - 1) mod 2 ^ 32 else min (int w) (2 ^ 64 - 1) div 2 ^ 32)), Suc w)),
     os_pwrite = (\<lambda>fd data addr w. (Inr (int (length data)), Suc w)),
     os_sleep = (\<lambda>t w. Suc w), os_clock = (\<lambda>w. (of_nat w, Suc w)) \<rparr>"

lemma ticking_counter: "counter64 ticking 0 4 (\<lambda>w. min (int w) (2 ^ 64 - 1))"
  by (auto simp: counter64_def samples_def ticking_def min_def)

theorem read64_stable_correct_witness:
  "\<exists>k. read64_stable ticking 0 4 4294967294
     = Some (Inr (min (int (after_reads ticking (stable_rounds 0 4 k @ [4]) 4294967294)) (2 ^ 64 - 1)),
        after_reads ticking (stable_rounds 0 4 (k + 1)) 4294967294)
     \<and> int k \<le> min (int (after_reads ticking (stable_rounds 0 4 k @ [4]) 4294967294)) (2 ^ 64 - 1) div 2 ^ 32"
  using read64_stable_correct [OF ticking_counter, of 4294967294] by (auto simp: Let_def)

text \<open>The plain 64-bit read, low half first.  It returns, never a value below the counter at the start,
  and a value the counter had if the high half did not change during the call.\<close>

theorem read64_without_carry:
  assumes "counter64 os lo hi cnt"
  shows "\<exists>x w. read64 os lo hi v = Some (Inr x, w) \<and> cnt v \<le> x
     \<and> (cnt w div 2 ^ 32 = cnt v div 2 ^ 32 \<longrightarrow> x \<le> cnt w)"
proof -
  obtain u w where r: "read64 os lo hi v = Some (Inr (cnt v mod 2 ^ 32 OR push_bit 32 (cnt u div 2 ^ 32)), w)"
    "cnt v \<le> cnt u" "cnt u \<le> cnt w" using read64_run [OF assms] by blast
  let ?x = "cnt v mod 2 ^ 32 OR push_bit 32 (cnt u div 2 ^ 32)"
  have x: "?x = cnt v mod 2 ^ 32 + (cnt u div 2 ^ 32) * 2 ^ 32" by (rule or_push_32) simp_all
  have m: "cnt v div 2 ^ 32 \<le> cnt u div 2 ^ 32" "cnt u div 2 ^ 32 \<le> cnt w div 2 ^ 32"
    using r(2,3) by (simp_all add: zdiv_mono1)
  have v: "cnt v = cnt v mod 2 ^ 32 + (cnt v div 2 ^ 32) * 2 ^ 32" by simp
  have "(cnt v div 2 ^ 32) * 2 ^ 32 \<le> (cnt u div 2 ^ 32) * 2 ^ 32" using m(1) by simp
  then have "cnt v \<le> ?x" unfolding x using v by linarith
  moreover have "?x \<le> cnt w" if "cnt w div 2 ^ 32 = cnt v div 2 ^ 32"
  proof -
    have "cnt u div 2 ^ 32 = cnt v div 2 ^ 32" using m that by linarith
    then have "?x = cnt v" unfolding x using v by simp
    then show ?thesis using r(2,3) by simp
  qed
  ultimately show ?thesis using r(1) by blast
qed

theorem read64_without_carry_witness:
  "\<exists>x w. read64 ticking 0 4 7 = Some (Inr x, w) \<and> 7 \<le> x"
  using read64_without_carry [OF ticking_counter, of 7] by auto

text \<open>A torn read.  There is a counter that never decreases on which the plain 64-bit read returns a
  value more than four billion above anything the counter has reached: the low half is read just
  before a carry into the high half, the high half just after it.\<close>

theorem read64_can_tear:
  "counter64 ticking 0 4 (\<lambda>w. min (int w) (2 ^ 64 - 1))
   \<and> read64 ticking 0 4 4294967295 = Some (Inr 8589934591, 4294967297)
   \<and> min (int 4294967297) (2 ^ 64 - 1) = 4294967297"
proof -
  have "read32 ticking 0 4294967295 = Some (Inr 4294967295, 4294967296)"
    by (simp add: read32_def pread_def bind_io_def ret_def ticking_def codec_simps)
  moreover have "read32 ticking 4 4294967296 = Some (Inr 1, 4294967297)"
    by (simp add: read32_def pread_def bind_io_def ret_def ticking_def codec_simps)
  moreover have "(4294967295 :: int) OR push_bit 32 1 = 8589934591" by (subst or_push_32) simp_all
  ultimately show ?thesis using ticking_counter by (simp add: read64_def bind_io_def ret_def)
qed

section \<open>Transfers\<close>

definition write_mem :: "(int \<Rightarrow> byte) \<Rightarrow> int \<Rightarrow> bytes \<Rightarrow> int \<Rightarrow> byte" where
  "write_mem m addr bs = (\<lambda>x. if addr \<le> x \<and> x < addr + int (length bs) then bs ! nat (x - addr) else m x)"

lemma write_mem_Nil [simp]: "write_mem m addr [] = m"
  by (rule ext) (auto simp: write_mem_def)

lemma write_mem_append: "write_mem (write_mem m addr as) (addr + int (length as)) bs = write_mem m addr (as @ bs)"
proof
  fix x
  have "nat (x - addr) - length as = nat (x - (addr + int (length as)))" if "addr + int (length as) \<le> x"
    using that by (simp add: nat_diff_distrib) (simp add: algebra_simps)?
  then show "write_mem (write_mem m addr as) (addr + int (length as)) bs x = write_mem m addr (as @ bs) x"
    by (auto simp: write_mem_def nth_append)
qed

text \<open>What a region holds.\<close>

definition read_mem :: "(int \<Rightarrow> byte) \<Rightarrow> int \<Rightarrow> nat \<Rightarrow> bytes" where
  "read_mem m a n = map (\<lambda>i. m (a + int i)) [0..<n]"

lemma read_write_mem [simp]: "read_mem (write_mem m a bs) a (length bs) = bs"
  by (rule nth_equalityI) (simp_all add: read_mem_def write_mem_def)

lemma read_write_mem_other:
  "a + int n \<le> c \<or> c + int (length bs) \<le> a \<Longrightarrow> read_mem (write_mem m c bs) a n = read_mem m a n"
  by (auto simp: read_mem_def write_mem_def)

text \<open>
  What the DMA device promises: a write of some bytes moves a positive number of them, at most all,
  to the address it is given, and changes nothing else: neither other memory nor the rest \<open>fr\<close> of
  what is observed of the card.
\<close>

definition dma_mem :: "'w os \<Rightarrow> ('w \<Rightarrow> int \<Rightarrow> byte) \<Rightarrow> ('w \<Rightarrow> 'f) \<Rightarrow> bool" where
  "dma_mem os mem fr \<longleftrightarrow> (\<forall>data addr w. data \<noteq> [] \<longrightarrow>
     (\<exists>n w'. os_pwrite os H2C data addr w = (Inr (int n), w') \<and> 0 < n \<and> n \<le> length data
       \<and> mem w' = write_mem (mem w) addr (take n data) \<and> fr w' = fr w))"

lemma write_chunk_spec:
  assumes dma: "dma_mem os mem fr"
  shows "spec (\<lambda>w. w = v) (write_chunk_all os chunk addr) (\<lambda>_ w. mem w = write_mem (mem v) addr chunk \<and> fr w = fr v) (\<lambda>_ _. False)"
    and "spec (\<lambda>w. w = v) (write_chunk_file os chunk addr) (\<lambda>_ w. mem w = write_mem (mem v) addr chunk \<and> fr w = fr v) (\<lambda>_ _. False)"
proof -
  let ?I = "\<lambda>k w. 0 \<le> k \<and> k \<le> int (length chunk) \<and> mem w = write_mem (mem v) addr (take (nat k) chunk) \<and> fr w = fr v"
  let ?Q = "\<lambda>_ :: unit. \<lambda>w. mem w = write_mem (mem v) addr chunk \<and> fr w = fr v"
  have one: "\<exists>n w'. os_pwrite os H2C (drop (nat k) chunk) (addr + k) w = (Inr (int n), w') \<and> 0 < n
       \<and> ?I (k + int n) w' \<and> nat (int (length chunk) - (k + int n)) < nat (int (length chunk) - k)"
    if k: "?I k w" "k < int (length chunk)" for k w
  proof -
    have "nat k < length chunk" using k by linarith
    then have "drop (nat k) chunk \<noteq> []" by simp
    then obtain n w' where n: "os_pwrite os H2C (drop (nat k) chunk) (addr + k) w = (Inr (int n), w')" "0 < n"
      "n \<le> length chunk - nat k" "mem w' = write_mem (mem w) (addr + k) (take n (drop (nat k) chunk))" "fr w' = fr w"
      using dma [unfolded dma_mem_def, rule_format, of "drop (nat k) chunk" "addr + k" w] by auto
    have "int (length (take (nat k) chunk)) = k" using k by simp
    then have "mem w' = write_mem (mem v) addr (take (nat k) chunk @ take n (drop (nat k) chunk))"
      using n(4) k write_mem_append [of "mem v" addr "take (nat k) chunk"] by simp
    moreover have "take (nat k) chunk @ take n (drop (nat k) chunk) = take (nat (k + int n)) chunk"
      using k by (simp add: nat_add_distrib take_add)
    ultimately show ?thesis using n k by auto
  qed
  have step: "spec (\<lambda>w. w = u \<and> ?I k u)
      (if k < int (length chunk)
       then bind_io (pwrite os H2C (drop (nat k) chunk) (addr + k)) (\<lambda>rc.
          if guarded \<and> rc \<le> 0 then raise (RuntimeError ''short H2C write'') else ret (Continue (k + rc)))
       else ret (Break ()))
      (\<lambda>c w. case c of Continue k' \<Rightarrow> ?I k' w \<and> nat (int (length chunk) - k') < nat (int (length chunk) - k)
        | Break x \<Rightarrow> ?Q x w) (\<lambda>_ _. False)" for guarded k u
  proof (cases "k < int (length chunk)")
    case True
    show ?thesis using one [of k u] True
      by (auto simp: spec_def pwrite_def bind_io_def ret_def split: prod.splits)
  next
    case False
    then show ?thesis by (auto simp: spec_def ret_def)
  qed
  have start: "?I 0 v" by simp
  show "spec (\<lambda>w. w = v) (write_chunk_all os chunk addr) ?Q (\<lambda>_ _. False)"
    unfolding write_chunk_all_def
    by (rule spec_conseq [OF spec_loop [where I = ?I and m = "\<lambda>k w. nat (int (length chunk) - k)",
          OF step [where guarded = False, unfolded simp_thms if_False]]]) (use start in simp_all)
  show "spec (\<lambda>w. w = v) (write_chunk_file os chunk addr) ?Q (\<lambda>_ _. False)"
    unfolding write_chunk_file_def
    by (rule spec_conseq [OF spec_loop [where I = ?I and m = "\<lambda>k w. nat (int (length chunk) - k)",
          OF step [where guarded = True, unfolded simp_thms]]]) (use start in simp_all)
qed

text \<open>The outer loop over the file, for either inner loop.\<close>

lemma file_loop_spec:
  fixes write_chunk :: "bytes \<Rightarrow> int \<Rightarrow> ('w, unit) io"
    and mem :: "'w \<Rightarrow> int \<Rightarrow> byte" and fr :: "'w \<Rightarrow> 'f"
  assumes chunk: "\<And>v chunk addr. spec (\<lambda>w. w = v) (write_chunk chunk addr)
      (\<lambda>_ w. mem w = write_mem (mem v) addr chunk \<and> fr w = fr v) (\<lambda>_ _. False)"
    and pos: "read_size_ok csize"
  shows "spec (\<lambda>w. w = v) (loop_io (\<lambda>offset.
     bind_io (lift_res (fh_read csize (drop offset file))) (\<lambda>chunk.
     if chunk = [] then ret (Break ())
     else bind_io (write_chunk chunk (addr + int offset)) (\<lambda>_. ret (Continue (offset + length chunk))))) 0)
   (\<lambda>_ w. mem w = write_mem (mem v) addr file \<and> fr w = fr v) (\<lambda>_ _. False)"
proof -
  let ?I = "\<lambda>k w. k \<le> length file \<and> mem w = write_mem (mem v) addr (take k file) \<and> fr w = fr v"
  have step: "spec (\<lambda>w. w = u \<and> ?I k u)
     (bind_io (lift_res (fh_read csize (drop k file))) (\<lambda>chunk.
      if chunk = [] then ret (Break ())
      else bind_io (write_chunk chunk (addr + int k)) (\<lambda>_. ret (Continue (k + length chunk)))))
     (\<lambda>c w. case c of Continue k' \<Rightarrow> ?I k' w \<and> length file - k' < length file - k
        | Break x \<Rightarrow> mem w = write_mem (mem v) addr file \<and> fr w = fr v) (\<lambda>_ _. False)" for k u
  proof (cases "fh_part csize (drop k file) = []")
    case True
    then show ?thesis using pos by (auto simp: fh_read_ok spec_def ret_def fh_part_Nil)
  next
    case False
    let ?c = "fh_part csize (drop k file)"
    have "0 < length ?c" using False by simp
    moreover have "take k file @ ?c = take (k + length ?c) file"
      using fh_part_take [of csize "drop k file"] by (simp add: take_add)
    moreover have "k < length file" "length ?c \<le> length file - k"
      using False pos length_fh_part [of csize "drop k file"] by (simp_all add: fh_part_Nil)
    moreover from calculation have "length file - (k + length ?c) < length file - k" by linarith
    ultimately have next_inv: "?I (k + length ?c) w \<and> length file - (k + length ?c) < length file - k"
      if "?I k u" "mem w = write_mem (mem u) (addr + int k) ?c \<and> fr w = fr u" for w
      using that write_mem_append [of "mem v" addr "take k file" ?c] by (auto intro: diff_less_mono2)
    show ?thesis
      unfolding fh_read_ok [OF pos] bind_lift_Inr if_not_P [OF False]
    proof (rule spec_bind)
      show "spec (\<lambda>w. w = u \<and> ?I k u) (write_chunk ?c (addr + int k))
          (\<lambda>_ w. ?I k u \<and> mem w = write_mem (mem u) (addr + int k) ?c \<and> fr w = fr u) (\<lambda>_ _. False)"
        using chunk [of u ?c "addr + int k"] by (auto simp: spec_def split: option.splits sum.splits)
      show "spec (\<lambda>w. ?I k u \<and> mem w = write_mem (mem u) (addr + int k) ?c \<and> fr w = fr u) (ret (Continue (k + length ?c)))
          (\<lambda>c w. case c of Continue k' \<Rightarrow> ?I k' w \<and> length file - k' < length file - k
            | Break x \<Rightarrow> mem w = write_mem (mem v) addr file \<and> fr w = fr v) (\<lambda>_ _. False)" for x
        by (rule spec_ret) (use next_inv in auto)
    qed
  qed
  show ?thesis
    by (rule spec_conseq [OF spec_loop [where I = ?I and m = "\<lambda>k w. length file - k", OF step]]) simp_all
qed

lemma pwrite_all_spec:
  assumes "dma_mem os mem fr" and "read_size_ok chunk_bytes"
  shows "spec (\<lambda>w. w = v) (pwrite_all os file addr chunk_bytes)
    (\<lambda>_ w. mem w = write_mem (mem v) addr file \<and> fr w = fr v) (\<lambda>_ _. False)"
  unfolding pwrite_all_def by (rule file_loop_spec [OF write_chunk_spec(1) [OF assms(1)] assms(2)])

lemma pwrite_file_spec:
  assumes "dma_mem os mem fr" and "read_size_ok chunk_bytes"
  shows "spec (\<lambda>w. w = v) (pwrite_file os file addr chunk_bytes)
    (\<lambda>_ w. mem w = write_mem (mem v) addr file \<and> fr w = fr v) (\<lambda>_ _. False)"
  unfolding pwrite_file_def by (rule file_loop_spec [OF write_chunk_spec(2) [OF assms(1)] assms(2)])

text \<open>A read that raises, or finds nothing, ends the loops before the first access.\<close>

lemma pwrite_all_refused: "fh_read chunk_bytes file = Inl e \<Longrightarrow> pwrite_all os file addr chunk_bytes v = Some (Inl e, v)"
  unfolding pwrite_all_def by (subst loop_io.simps) (simp add: bind_io_def lift_res_def raise_def)

lemma pwrite_file_refused: "fh_read chunk_bytes file = Inl e \<Longrightarrow> pwrite_file os file addr chunk_bytes v = Some (Inl e, v)"
  unfolding pwrite_file_def by (subst loop_io.simps) (simp add: bind_io_def lift_res_def raise_def)

lemma pwrite_all_empty: "fh_read chunk_bytes file = Inr [] \<Longrightarrow> pwrite_all os file addr chunk_bytes v = Some (Inr (), v)"
  unfolding pwrite_all_def by (subst loop_io.simps) (simp add: bind_io_def lift_res_def ret_def)

lemma pwrite_file_empty: "fh_read chunk_bytes file = Inr [] \<Longrightarrow> pwrite_file os file addr chunk_bytes v = Some (Inr (), v)"
  unfolding pwrite_file_def by (subst loop_io.simps) (simp add: bind_io_def lift_res_def ret_def)

text \<open>A DMA device that moves at most three bytes per call.\<close>

definition short_dma :: "(int \<Rightarrow> byte) os" where
  "short_dma = \<lparr> os_pread = (\<lambda>fd n addr w. (Inr (map (\<lambda>i. w (addr + int i)) [0..<nat n]), w)),
     os_pwrite = (\<lambda>fd data addr w. (Inr (int (min 3 (length data))), write_mem w addr (take (min 3 (length data)) data))),
     os_sleep = (\<lambda>t w. w), os_clock = (\<lambda>w. (0, w)) \<rparr>"

lemma short_dma_ok: "dma_mem short_dma (\<lambda>w. w) (\<lambda>_. ())"
  by (auto simp: dma_mem_def short_dma_def intro!: exI [of _ "min 3 (length _)"])

text \<open>C27: The transfer loops, for every chunk size.  If every write of the DMA device moves a positive number of
  the bytes it is given, then for a chunk size of -1 or a positive one (below \<open>2^63\<close>) both loaders' loops
  end, the card's memory then holds the whole file at its address and is unchanged elsewhere, and so
  is everything else single writes leave alone, however the device splits the writes.  A chunk size of
  zero ends both loops at once with nothing written; another negative one raises ValueError and one
  outside the index range OverflowError, in both before any access.\<close>

theorem dma_loops_complete:
  assumes "dma_mem os mem fr"
  shows "(read_size_ok chunk_bytes \<longrightarrow>
        (\<exists>w. pwrite_all os file addr chunk_bytes v = Some (Inr (), w) \<and> mem w = write_mem (mem v) addr file \<and> fr w = fr v)
      \<and> (\<exists>w. pwrite_file os file addr chunk_bytes v = Some (Inr (), w) \<and> mem w = write_mem (mem v) addr file \<and> fr w = fr v))
    \<and> (chunk_bytes = 0 \<longrightarrow> pwrite_all os file addr chunk_bytes v = Some (Inr (), v) \<and> pwrite_file os file addr chunk_bytes v = Some (Inr (), v))
    \<and> (- (2 ^ 63) \<le> chunk_bytes \<and> chunk_bytes < - 1 \<longrightarrow>
        pwrite_all os file addr chunk_bytes v = Some (Inl (ValueError ''read length must be non-negative or -1''), v)
      \<and> pwrite_file os file addr chunk_bytes v = Some (Inl (ValueError ''read length must be non-negative or -1''), v))
    \<and> (chunk_bytes < - (2 ^ 63) \<or> 2 ^ 63 \<le> chunk_bytes \<longrightarrow>
        pwrite_all os file addr chunk_bytes v = Some (Inl OverflowError, v) \<and> pwrite_file os file addr chunk_bytes v = Some (Inl OverflowError, v))"
proof (intro conjI impI)
  assume "read_size_ok chunk_bytes"
  from spec_returns [OF pwrite_all_spec [OF assms this] refl] spec_returns [OF pwrite_file_spec [OF assms this] refl]
  show "\<exists>w. pwrite_all os file addr chunk_bytes v = Some (Inr (), w) \<and> mem w = write_mem (mem v) addr file \<and> fr w = fr v"
    "\<exists>w. pwrite_file os file addr chunk_bytes v = Some (Inr (), w) \<and> mem w = write_mem (mem v) addr file \<and> fr w = fr v" by simp_all
qed (simp_all add: pwrite_all_refused pwrite_file_refused pwrite_all_empty pwrite_file_empty fh_read_def)

theorem dma_loops_complete_witness:
  "(\<exists>w. pwrite_all short_dma [1, 2, 3, 4, 5, 6, 7] 100 5 (\<lambda>_. 0) = Some (Inr (), w) \<and> w 106 = 7)
   \<and> pwrite_all short_dma [1, 2, 3, 4, 5, 6, 7] 100 (- 2) (\<lambda>_. 0)
     = Some (Inl (ValueError ''read length must be non-negative or -1''), \<lambda>_. 0)"
proof -
  have "write_mem (\<lambda>_. 0) 100 [1, 2, 3, 4, 5, 6, 7] 106 = 7" by (simp add: write_mem_def)
  with dma_loops_complete [OF short_dma_ok, of 5 "[1, 2, 3, 4, 5, 6, 7]" 100 "\<lambda>_. 0"]
    dma_loops_complete [OF short_dma_ok, of "- 2" "[1, 2, 3, 4, 5, 6, 7]" 100 "\<lambda>_. 0"]
  show ?thesis by (auto simp: read_size_ok_def)
qed

text \<open>A write that moves nothing.  If \<^verbatim>\<open>os.pwrite\<close> returns zero without effect, the guarded
  loop of preload_stress_test raises, while xdma_load_trace's loop never returns.\<close>

theorem zero_length_write:
  assumes "\<And>data addr. os_pwrite os H2C data addr v = (Inr 0, v)" and "file \<noteq> []" and "read_size_ok chunk_bytes"
  shows "pwrite_all os file addr chunk_bytes v = None
     \<and> pwrite_file os file addr chunk_bytes v = Some (Inl (RuntimeError ''short H2C write''), v)"
proof
  have ne: "fh_part chunk_bytes file \<noteq> []" using assms(2,3) by (simp add: fh_part_Nil)
  have "write_chunk_all os chunk a v = None" if "chunk \<noteq> []" for chunk a
    unfolding write_chunk_all_def
    by (rule loop_io_stuck) (use that assms(1) in \<open>simp add: pwrite_def bind_io_def ret_def\<close>)
  with ne show "pwrite_all os file addr chunk_bytes v = None"
    unfolding pwrite_all_def by (subst loop_io.simps) (simp add: fh_read_ok assms(3), simp add: bind_io_def)
  have "write_chunk_file os chunk a v = Some (Inl (RuntimeError ''short H2C write''), v)" if "chunk \<noteq> []" for chunk a
    unfolding write_chunk_file_def
    by (subst loop_io.simps) (use that assms(1) in \<open>simp add: pwrite_def bind_io_def raise_def\<close>)
  with ne show "pwrite_file os file addr chunk_bytes v = Some (Inl (RuntimeError ''short H2C write''), v)"
    unfolding pwrite_file_def by (subst loop_io.simps) (simp add: fh_read_ok assms(3), simp add: bind_io_def)
qed

definition stuck_dma :: "unit os" where
  "stuck_dma = \<lparr> os_pread = (\<lambda>fd n addr w. (Inr [], w)), os_pwrite = (\<lambda>fd data addr w. (Inr 0, w)),
     os_sleep = (\<lambda>t w. w), os_clock = (\<lambda>w. (0, w)) \<rparr>"

theorem zero_length_write_witness: "pwrite_all stuck_dma [1] 0 4096 () = None"
  using zero_length_write [of stuck_dma "()" "[1]" 4096 0] by (simp add: stuck_dma_def read_size_ok_def)

end
