(* ===== verification/AxiLiteRegs.thy ===== *)
theory AxiLiteRegs
  imports Prelude
begin

text \<open>
  The AXI-Lite register block of one replay port (rtl/axi_lite_regs.sv): its configuration registers
  with the effect of one write, the status inputs, and the value of one read.  The scripts see the
  card through it.  Handshaking and clocking are left out: a bus access is one step.
\<close>

unbundle bit_operations_syntax

named_theorems axi_simps "the effect of register accesses"

section \<open>Words\<close>

definition lo32 :: "64 word \<Rightarrow> 32 word" where "lo32 w = ucast w"
definition hi32 :: "64 word \<Rightarrow> 32 word" where "hi32 w = ucast (drop_bit 32 w)"
definition join64 :: "32 word \<Rightarrow> 32 word \<Rightarrow> 64 word" where
  "join64 h l = push_bit 32 (ucast h) OR ucast l"

lemma bit_lo32: "bit (lo32 w) n \<longleftrightarrow> n < 32 \<and> bit w n"
  by (auto simp: lo32_def bit_ucast_iff)

lemma bit_hi32: "bit (hi32 w) n \<longleftrightarrow> n < 32 \<and> bit w (n + 32)"
  by (auto simp: hi32_def bit_ucast_iff bit_drop_bit_eq add.commute)

lemma bit_join64: "bit (join64 h l) n \<longleftrightarrow> (if n < 32 then bit l n else n < 64 \<and> bit h (n - 32))"
  by (auto simp: join64_def bit_or_iff bit_push_bit_iff bit_ucast_iff dest: bit_imp_le_length)

lemma lo32_join64 [simp]: "lo32 (join64 h l) = l"
  by (rule bit_word_eqI) (auto simp: bit_lo32 bit_join64)

lemma hi32_join64 [simp]: "hi32 (join64 h l) = h"
  by (rule bit_word_eqI) (auto simp: bit_hi32 bit_join64)

lemma join64_parts [simp]: "join64 (hi32 w) (lo32 w) = w"
  by (rule bit_word_eqI) (auto simp: bit_lo32 bit_hi32 bit_join64)

lemma join64_of_int [simp]: "join64 (word_of_int (drop_bit 32 v)) (word_of_int v) = word_of_int v"
  by (rule bit_word_eqI) (auto simp: bit_join64 bit_word_of_int_iff bit_drop_bit_eq)

lemma lo32_0 [simp]: "lo32 0 = 0" and hi32_0 [simp]: "hi32 0 = 0" and join64_0 [simp]: "join64 0 0 = 0"
  by (simp_all add: lo32_def hi32_def join64_def)

definition byte_lane :: "nat \<Rightarrow> 32 word" where
  "byte_lane i = push_bit (i * 8) (mask 8)"

definition apply_wstrb :: "32 word \<Rightarrow> 32 word \<Rightarrow> 4 word \<Rightarrow> 32 word" where
  "apply_wstrb old_value new_value strobe = fold (\<lambda>i v.
     if bit strobe i then (v AND NOT (byte_lane i)) OR (new_value AND byte_lane i) else v)
   [0, 1, 2, 3] old_value"

lemma bit_byte_lane: "bit (byte_lane i) n \<longleftrightarrow> n < 32 \<and> i * 8 \<le> n \<and> n < i * 8 + 8"
  by (auto simp: byte_lane_def bit_push_bit_iff bit_mask_iff)

lemma apply_wstrb_full [simp]: "apply_wstrb old new 15 = new"
  by (rule bit_word_eqI) (auto simp: apply_wstrb_def bit_and_iff bit_or_iff bit_not_iff bit_byte_lane)

lemma apply_wstrb_none [simp]: "apply_wstrb old new 0 = old"
  by (simp add: apply_wstrb_def)

section \<open>State\<close>

record axi_cfg =
  pause :: bool
  cfg_mode :: "2 word"
  cfg_desc_base :: "64 word"
  cfg_data_base :: "64 word"
  cfg_trace_bytes :: "64 word"
  cfg_pkt_count :: "64 word"
  cfg_loop_count :: "64 word"
  cfg_loop_gap_ticks :: "64 word"
  cfg_start_time :: "64 word"
  cfg_rate_q16_16 :: "32 word"
  cfg_watermark :: "32 word"
  cfg_stream_ring_size :: "64 word"
  cfg_stream_write_count :: "64 word"
  cfg_stream_write_shadow :: "64 word"
  cfg_stream_eof :: bool
  cfg_stream_pingpong :: bool
  cfg_force_link_up :: bool
  cfg_force_tx_ready :: bool
  cfg_auto_tx_drop :: bool
  cfg_sync_enable :: bool
  cfg_egress_schedule :: bool

record axi_stats =
  stat_running :: bool
  stat_done :: bool
  stat_late :: bool
  stat_underrun :: bool
  stat_link_up :: bool
  stat_effective_link_up :: bool
  stat_fifo_level :: "32 word"
  stat_tx_pkts :: "64 word"
  stat_tx_bytes :: "64 word"
  stat_late_pkts :: "64 word"
  stat_underrun_pkts :: "64 word"
  stat_drop_pkts :: "64 word"
  stat_drop_beats :: "64 word"
  stat_stall_events :: "64 word"
  stat_debug_status :: "32 word"
  stat_debug_axi :: "32 word"
  stat_debug_araddr :: "64 word"
  stat_debug_rdata_low :: "32 word"
  stat_debug_ticks :: "64 word"
  stat_stream_read_count :: "64 word"
  stat_stream_level :: "64 word"
  stat_stream_status :: "32 word"
  stat_global_ticks :: "64 word"
  stat_sync_armed :: bool

datatype pulse = Start | Stop | Clear

text \<open>The reset values.\<close>

definition axi_reset :: axi_cfg where
  "axi_reset = \<lparr> pause = False, cfg_mode = 0, cfg_desc_base = 0, cfg_data_base = 0, cfg_trace_bytes = 0,
     cfg_pkt_count = 0, cfg_loop_count = 0, cfg_loop_gap_ticks = 0, cfg_start_time = 0,
     cfg_rate_q16_16 = 0x00010000, cfg_watermark = 4096, cfg_stream_ring_size = 0,
     cfg_stream_write_count = 0, cfg_stream_write_shadow = 0, cfg_stream_eof = False,
     cfg_stream_pingpong = False, cfg_force_link_up = False, cfg_force_tx_ready = False,
     cfg_auto_tx_drop = True, cfg_sync_enable = False, cfg_egress_schedule = False \<rparr>"

text \<open>The halves of a 64-bit register, written with byte strobes.\<close>

definition set_lo :: "32 word \<Rightarrow> 4 word \<Rightarrow> 64 word \<Rightarrow> 64 word" where
  "set_lo d strb r = join64 (hi32 r) (apply_wstrb (lo32 r) d strb)"

definition set_hi :: "32 word \<Rightarrow> 4 word \<Rightarrow> 64 word \<Rightarrow> 64 word" where
  "set_hi d strb r = join64 (apply_wstrb (hi32 r) d strb) (lo32 r)"

lemma set_hi_lo [simp]: "set_hi h 15 (set_lo l 15 r) = join64 h l"
  by (simp add: set_hi_def set_lo_def)

section \<open>One access\<close>

text \<open>A write: the new configuration, and the pulses it sends to the core.\<close>

definition axi_write :: "int \<Rightarrow> 32 word \<Rightarrow> 4 word \<Rightarrow> axi_cfg \<Rightarrow> axi_cfg \<times> pulse list" where
  "axi_write a d strb c =
    (if a = 0x00 then
       (if bit strb 0
        then let c' = c\<lparr>pause := bit d 3\<rparr> in
             if bit d 2 then c'\<lparr>cfg_stream_write_count := 0, cfg_stream_write_shadow := 0,
                                cfg_stream_eof := False, cfg_stream_pingpong := False\<rparr> else c'
        else c,
        (if bit d 0 \<and> bit strb 0 then [Start] else []) @ (if bit d 1 \<and> bit strb 0 then [Stop] else [])
          @ (if bit d 2 \<and> bit strb 0 then [Clear] else []))
     else (if a = 0x04 then if bit strb 0 then c\<lparr>cfg_mode := ucast d\<rparr> else c
     else if a = 0x10 then c\<lparr>cfg_desc_base := set_lo d strb (cfg_desc_base c)\<rparr>
     else if a = 0x14 then c\<lparr>cfg_desc_base := set_hi d strb (cfg_desc_base c)\<rparr>
     else if a = 0x18 then c\<lparr>cfg_data_base := set_lo d strb (cfg_data_base c)\<rparr>
     else if a = 0x1c then c\<lparr>cfg_data_base := set_hi d strb (cfg_data_base c)\<rparr>
     else if a = 0x20 then c\<lparr>cfg_trace_bytes := set_lo d strb (cfg_trace_bytes c)\<rparr>
     else if a = 0x24 then c\<lparr>cfg_trace_bytes := set_hi d strb (cfg_trace_bytes c)\<rparr>
     else if a = 0x28 then c\<lparr>cfg_pkt_count := set_lo d strb (cfg_pkt_count c)\<rparr>
     else if a = 0x2c then c\<lparr>cfg_pkt_count := set_hi d strb (cfg_pkt_count c)\<rparr>
     else if a = 0x30 then c\<lparr>cfg_loop_count := set_lo d strb (cfg_loop_count c)\<rparr>
     else if a = 0x34 then c\<lparr>cfg_loop_count := set_hi d strb (cfg_loop_count c)\<rparr>
     else if a = 0x38 then c\<lparr>cfg_loop_gap_ticks := set_lo d strb (cfg_loop_gap_ticks c)\<rparr>
     else if a = 0x3c then c\<lparr>cfg_loop_gap_ticks := set_hi d strb (cfg_loop_gap_ticks c)\<rparr>
     else if a = 0x40 then c\<lparr>cfg_start_time := set_lo d strb (cfg_start_time c)\<rparr>
     else if a = 0x44 then c\<lparr>cfg_start_time := set_hi d strb (cfg_start_time c)\<rparr>
     else if a = 0x48 then c\<lparr>cfg_rate_q16_16 := apply_wstrb (cfg_rate_q16_16 c) d strb\<rparr>
     else if a = 0x4c then c\<lparr>cfg_watermark := apply_wstrb (cfg_watermark c) d strb\<rparr>
     else if a = 0xa0 then c\<lparr>cfg_stream_write_shadow := set_lo d strb (cfg_stream_write_shadow c)\<rparr>
     else if a = 0xa4 then c\<lparr>cfg_stream_write_shadow := set_hi d strb (cfg_stream_write_shadow c),
                             cfg_stream_write_count := join64 (apply_wstrb (hi32 (cfg_stream_write_shadow c)) d strb)
                                                              (lo32 (cfg_stream_write_shadow c))\<rparr>
     else if a = 0xb0 then c\<lparr>cfg_stream_ring_size := set_lo d strb (cfg_stream_ring_size c)\<rparr>
     else if a = 0xb4 then c\<lparr>cfg_stream_ring_size := set_hi d strb (cfg_stream_ring_size c)\<rparr>
     else if a = 0xb8 then (if bit strb 0 then c\<lparr>cfg_stream_eof := bit d 0, cfg_stream_pingpong := bit d 1\<rparr> else c)
     else if a = 0x54 then (if bit strb 0 then c\<lparr>cfg_force_link_up := bit d 0, cfg_force_tx_ready := bit d 1,
                                                  cfg_auto_tx_drop := bit d 2\<rparr> else c)
     else if a = 0xe0 then (if bit strb 0 then c\<lparr>cfg_sync_enable := bit d 0, cfg_egress_schedule := bit d 1\<rparr> else c)
     else c, []))"

text \<open>A read.\<close>

definition flags_word :: "bool list \<Rightarrow> 32 word" where
  "flags_word bs = fold (\<lambda>(i, b) w. if b then w OR push_bit i 1 else w) (zip [0..<length bs] bs) 0"

definition axi_read :: "int \<Rightarrow> axi_cfg \<Rightarrow> axi_stats \<Rightarrow> 32 word" where
  "axi_read a c s =
    (if a = 0x00 then flags_word [False, False, False, pause c]
     else if a = 0x04 then ucast (cfg_mode c)
     else if a = 0x08 then flags_word [stat_running s, stat_done s, stat_late s, stat_underrun s,
                                       stat_link_up s, stat_effective_link_up s]
     else if a = 0x10 then lo32 (cfg_desc_base c) else if a = 0x14 then hi32 (cfg_desc_base c)
     else if a = 0x18 then lo32 (cfg_data_base c) else if a = 0x1c then hi32 (cfg_data_base c)
     else if a = 0x20 then lo32 (cfg_trace_bytes c) else if a = 0x24 then hi32 (cfg_trace_bytes c)
     else if a = 0x28 then lo32 (cfg_pkt_count c) else if a = 0x2c then hi32 (cfg_pkt_count c)
     else if a = 0x30 then lo32 (cfg_loop_count c) else if a = 0x34 then hi32 (cfg_loop_count c)
     else if a = 0x38 then lo32 (cfg_loop_gap_ticks c) else if a = 0x3c then hi32 (cfg_loop_gap_ticks c)
     else if a = 0x40 then lo32 (cfg_start_time c) else if a = 0x44 then hi32 (cfg_start_time c)
     else if a = 0x48 then cfg_rate_q16_16 c
     else if a = 0x4c then cfg_watermark c
     else if a = 0x50 then stat_fifo_level s
     else if a = 0x54 then flags_word [cfg_force_link_up c, cfg_force_tx_ready c, cfg_auto_tx_drop c]
     else if a = 0x60 then lo32 (stat_tx_pkts s) else if a = 0x64 then hi32 (stat_tx_pkts s)
     else if a = 0x68 then lo32 (stat_tx_bytes s) else if a = 0x6c then hi32 (stat_tx_bytes s)
     else if a = 0x70 then lo32 (stat_late_pkts s) else if a = 0x74 then hi32 (stat_late_pkts s)
     else if a = 0x78 then lo32 (stat_underrun_pkts s) else if a = 0x7c then hi32 (stat_underrun_pkts s)
     else if a = 0x80 then stat_debug_status s
     else if a = 0x84 then stat_debug_axi s
     else if a = 0x88 then lo32 (stat_debug_araddr s) else if a = 0x8c then hi32 (stat_debug_araddr s)
     else if a = 0x90 then stat_debug_rdata_low s
     else if a = 0x94 then lo32 (stat_debug_ticks s) else if a = 0x98 then hi32 (stat_debug_ticks s)
     else if a = 0xa0 then lo32 (cfg_stream_write_count c) else if a = 0xa4 then hi32 (cfg_stream_write_count c)
     else if a = 0xa8 then lo32 (stat_stream_read_count s) else if a = 0xac then hi32 (stat_stream_read_count s)
     else if a = 0xb0 then lo32 (cfg_stream_ring_size c) else if a = 0xb4 then hi32 (cfg_stream_ring_size c)
     else if a = 0xb8 then flags_word [cfg_stream_eof c, cfg_stream_pingpong c]
     else if a = 0xbc then stat_stream_status s
     else if a = 0xc0 then lo32 (stat_stream_level s) else if a = 0xc4 then hi32 (stat_stream_level s)
     else if a = 0xc8 then lo32 (stat_drop_pkts s) else if a = 0xcc then hi32 (stat_drop_pkts s)
     else if a = 0xd0 then lo32 (stat_drop_beats s) else if a = 0xd4 then hi32 (stat_drop_beats s)
     else if a = 0xd8 then lo32 (stat_stall_events s) else if a = 0xdc then hi32 (stat_stall_events s)
     else if a = 0xe0 then flags_word [cfg_sync_enable c, cfg_egress_schedule c]
     else if a = 0xe4 then lo32 (stat_global_ticks s) else if a = 0xe8 then hi32 (stat_global_ticks s)
     else if a = 0xec then flags_word [cfg_sync_enable c, stat_sync_armed s, cfg_egress_schedule c]
     else 0)"

section \<open>Register map\<close>

text \<open>A full-word write of each register the drivers use, and a pair of writes to a 64-bit one.\<close>

lemma axi_write_regs [axi_simps]:
  "axi_write 0x00 d 15 c = (let c' = c\<lparr>pause := bit d 3\<rparr> in
     if bit d 2 then c'\<lparr>cfg_stream_write_count := 0, cfg_stream_write_shadow := 0,
       cfg_stream_eof := False, cfg_stream_pingpong := False\<rparr> else c',
     (if bit d 0 then [Start] else []) @ (if bit d 1 then [Stop] else []) @ (if bit d 2 then [Clear] else []))"
  "axi_write 0x04 d 15 c = (c\<lparr>cfg_mode := ucast d\<rparr>, [])"
  "axi_write 0x48 d 15 c = (c\<lparr>cfg_rate_q16_16 := d\<rparr>, [])"
  "axi_write 0x4c d 15 c = (c\<lparr>cfg_watermark := d\<rparr>, [])"
  "axi_write 0xb8 d 15 c = (c\<lparr>cfg_stream_eof := bit d 0, cfg_stream_pingpong := bit d 1\<rparr>, [])"
  "axi_write 0x54 d 15 c = (c\<lparr>cfg_force_link_up := bit d 0, cfg_force_tx_ready := bit d 1, cfg_auto_tx_drop := bit d 2\<rparr>, [])"
  "axi_write 0xe0 d 15 c = (c\<lparr>cfg_sync_enable := bit d 0, cfg_egress_schedule := bit d 1\<rparr>, [])"
  by (simp_all add: axi_write_def)

lemma axi_write_pairs [axi_simps]:
  "axi_write 0x14 h 15 (fst (axi_write 0x10 l 15 c)) = (c\<lparr>cfg_desc_base := join64 h l\<rparr>, [])"
  "snd (axi_write 0x10 l 15 c) = []"
  "axi_write 0x1c h 15 (fst (axi_write 0x18 l 15 c)) = (c\<lparr>cfg_data_base := join64 h l\<rparr>, [])"
  "snd (axi_write 0x18 l 15 c) = []"
  "axi_write 0x24 h 15 (fst (axi_write 0x20 l 15 c)) = (c\<lparr>cfg_trace_bytes := join64 h l\<rparr>, [])"
  "snd (axi_write 0x20 l 15 c) = []"
  "axi_write 0x2c h 15 (fst (axi_write 0x28 l 15 c)) = (c\<lparr>cfg_pkt_count := join64 h l\<rparr>, [])"
  "snd (axi_write 0x28 l 15 c) = []"
  "axi_write 0x34 h 15 (fst (axi_write 0x30 l 15 c)) = (c\<lparr>cfg_loop_count := join64 h l\<rparr>, [])"
  "snd (axi_write 0x30 l 15 c) = []"
  "axi_write 0x3c h 15 (fst (axi_write 0x38 l 15 c)) = (c\<lparr>cfg_loop_gap_ticks := join64 h l\<rparr>, [])"
  "snd (axi_write 0x38 l 15 c) = []"
  "axi_write 0x44 h 15 (fst (axi_write 0x40 l 15 c)) = (c\<lparr>cfg_start_time := join64 h l\<rparr>, [])"
  "snd (axi_write 0x40 l 15 c) = []"
  "axi_write 0xb4 h 15 (fst (axi_write 0xb0 l 15 c)) = (c\<lparr>cfg_stream_ring_size := join64 h l\<rparr>, [])"
  "snd (axi_write 0xb0 l 15 c) = []"
  "axi_write 0xa4 h 15 (fst (axi_write 0xa0 l 15 c)) =
     (c\<lparr>cfg_stream_write_count := join64 h l, cfg_stream_write_shadow := join64 h l\<rparr>, [])"
  "snd (axi_write 0xa0 l 15 c) = []"
  by (simp_all add: axi_write_def set_lo_def set_hi_def)

lemma flags_word_3: "uint (flags_word [a, b, c]) = of_bool a + 2 * of_bool b + 4 * of_bool c"
  by (cases a; cases b; cases c) (simp_all add: flags_word_def)

lemma flags_word_2: "uint (flags_word [a, b]) = of_bool a + 2 * of_bool b"
  by (cases a; cases b) (simp_all add: flags_word_def)

lemma flags_word_4: "uint (flags_word [a, b, c, d]) = of_bool a + 2 * of_bool b + 4 * of_bool c + 8 * of_bool d"
  by (cases a; cases b; cases c; cases d) (simp_all add: flags_word_def)

end
