(* ===== verification/Card.thy ===== *)
theory Card
  imports AxiLiteRegs XdmaIo PyFloat
begin

text \<open>
  The card as the scripts see it through the device files: DDR memory behind the DMA channel, one
  register block per transmit port, and the reader that consumes the stream ring of a port.  The
  locale \<open>replay_card\<close> is the contract between a script and any card: between two accesses the readers
  may consume committed ring bytes, and a register write, a register read, a DMA write and a delay have
  the effects written here.  The interpretation is a card whose free choices (status inputs, transfer
  sizes, reader speed, clock) are an arbitrary function of its history.
\<close>

section \<open>State\<close>

text \<open>
  The ring reader of a port (rtl/ddr_stream_reader.sv): the configuration latched at start, the number
  of bytes consumed, and, as a ghost, those bytes.
\<close>

record reader =
  rd_active :: bool
  rd_base :: int
  rd_ring :: nat
  rd_count :: nat
  rd_bytes :: bytes

text \<open>
  \<open>c_pulses\<close> records the control pulses sent so far, and \<open>c_starts\<close>, a ghost as well, what the card
  looked like at every start: the port, the whole memory and the configuration of all ports.
\<close>

record card =
  c_mem :: "int \<Rightarrow> byte"
  c_cfg :: "nat \<Rightarrow> axi_cfg"
  c_reader :: "nat \<Rightarrow> reader"
  c_pulses :: "(nat \<times> pulse) list"
  c_starts :: "(nat \<times> (int \<Rightarrow> byte) \<times> (nat \<Rightarrow> axi_cfg)) list"

definition reader_pulse :: "axi_cfg \<Rightarrow> pulse \<Rightarrow> reader \<Rightarrow> reader" where
  "reader_pulse g p r = (case p of
     Start \<Rightarrow> if cfg_mode g = 1 \<and> \<not> cfg_stream_pingpong g
              then \<lparr> rd_active = (cfg_stream_ring_size g \<noteq> 0 \<and> unat (cfg_stream_ring_size g) mod 64 = 0),
                     rd_base = uint (cfg_desc_base g), rd_ring = unat (cfg_stream_ring_size g),
                     rd_count = 0, rd_bytes = [] \<rparr>
              else r
   | _ \<Rightarrow> r\<lparr>rd_active := False, rd_count := 0\<rparr>)"

text \<open>The bytes at positions \<open>from, from + 1, \<dots>\<close> of a ring.\<close>

definition ring_bytes :: "(int \<Rightarrow> byte) \<Rightarrow> int \<Rightarrow> nat \<Rightarrow> nat \<Rightarrow> nat \<Rightarrow> bytes" where
  "ring_bytes m base ring from n = map (\<lambda>i. m (base + int ((from + i) mod ring))) [0..<n]"

text \<open>The reader consumes at most \<open>k\<close> whole beats, never beyond the committed count \<open>wr\<close>.\<close>

definition reader_take :: "(int \<Rightarrow> byte) \<Rightarrow> nat \<Rightarrow> nat \<Rightarrow> reader \<Rightarrow> reader" where
  "reader_take m wr k r = (if rd_active r
     then let n = 64 * min k ((wr - rd_count r) div 64) in
          r\<lparr>rd_count := rd_count r + n,
            rd_bytes := rd_bytes r @ ring_bytes m (rd_base r) (rd_ring r) (rd_count r) n\<rparr>
     else r)"

definition card_advance :: "(nat \<Rightarrow> nat) \<Rightarrow> card \<Rightarrow> card" where
  "card_advance k c = c\<lparr>c_reader := \<lambda>p. reader_take (c_mem c)
     (unat (cfg_stream_write_count (c_cfg c p))) (k p) (c_reader c p)\<rparr>"

definition card_reg_write :: "nat \<Rightarrow> int \<Rightarrow> int \<Rightarrow> card \<Rightarrow> card" where
  "card_reg_write p off v c = (case axi_write off (word_of_int v) 15 (c_cfg c p) of (g, ps) \<Rightarrow>
     c\<lparr>c_cfg := (c_cfg c)(p := g), c_reader := (c_reader c)(p := fold (reader_pulse g) ps (c_reader c p)),
       c_pulses := c_pulses c @ map (Pair p) ps,
       c_starts := c_starts c @ map (\<lambda>_. (p, c_mem c, (c_cfg c)(p := g))) (filter (\<lambda>x. x = Start) ps)\<rparr>)"

text \<open>The address decoder: port 0 at 0, port 1 at 0x10000, 64 KiB each.\<close>

definition decode :: "int \<Rightarrow> (nat \<times> int) option" where
  "decode a = (if 0 \<le> a \<and> a < 0x10000 then Some (0, a)
     else if 0x10000 \<le> a \<and> a < 0x20000 then Some (1, a - 0x10000) else None)"

definition tx_port_base :: "nat \<Rightarrow> int" where
  "tx_port_base port = (if port = 0 then 0x00000 else 0x10000)"

lemma decode_port: "p < 2 \<Longrightarrow> 0 \<le> off \<Longrightarrow> off < 0x10000 \<Longrightarrow> decode (tx_port_base p + off) = Some (p, off)"
  by (auto simp: decode_def tx_port_base_def less_2_cases_iff)

text \<open>What no access but a write changes: memory, configuration, and the pulses and starts so far.\<close>

type_synonym log_state = "(nat \<times> pulse) list \<times> (nat \<times> (int \<Rightarrow> byte) \<times> (nat \<Rightarrow> axi_cfg)) list"

definition static :: "card \<Rightarrow> (int \<Rightarrow> byte) \<times> (nat \<Rightarrow> axi_cfg) \<times> log_state" where
  "static c = (c_mem c, c_cfg c, c_pulses c, c_starts c)"

lemma card_advance_simps [simp]:
  "c_mem (card_advance k c) = c_mem c"
  "c_cfg (card_advance k c) = c_cfg c"
  "c_pulses (card_advance k c) = c_pulses c"
  "c_starts (card_advance k c) = c_starts c"
  "static (card_advance k c) = static c"
  by (simp_all add: card_advance_def static_def)

text \<open>The pulses \<open>xs\<close> of port \<open>p\<close>, sent when memory and configuration are \<open>m\<close> and \<open>g\<close>.\<close>

definition logged :: "nat \<Rightarrow> (int \<Rightarrow> byte) \<Rightarrow> (nat \<Rightarrow> axi_cfg) \<Rightarrow> pulse list \<Rightarrow> log_state \<Rightarrow> log_state" where
  "logged p m g xs l = (fst l @ map (Pair p) xs, snd l @ map (\<lambda>_. (p, m, g)) (filter (\<lambda>x. x = Start) xs))"

lemma logged_Nil [simp]: "logged p m g [] l = l"
  by (simp add: logged_def)

lemma logged_pair [simp]:
  "logged p m g xs (ps, ss) = (ps @ map (Pair p) xs, ss @ map (\<lambda>_. (p, m, g)) (filter (\<lambda>x. x = Start) xs))"
  by (simp add: logged_def)

text \<open>The effect of a register write on the static part.\<close>

definition reg_step :: "nat \<Rightarrow> int \<Rightarrow> int \<Rightarrow> (int \<Rightarrow> byte) \<times> (nat \<Rightarrow> axi_cfg) \<times> log_state
    \<Rightarrow> (int \<Rightarrow> byte) \<times> (nat \<Rightarrow> axi_cfg) \<times> log_state" where
  "reg_step p off v s = (case s of (m, g, l) \<Rightarrow>
     let g' = g(p := fst (axi_write off (word_of_int v) 15 (g p)))
     in (m, g', logged p m g' (snd (axi_write off (word_of_int v) 15 (g p))) l))"

lemma reg_step_eq: "reg_step p off v (m, g, l) = (m, g(p := fst (axi_write off (word_of_int v) 15 (g p))),
    logged p m (g(p := fst (axi_write off (word_of_int v) 15 (g p)))) (snd (axi_write off (word_of_int v) 15 (g p))) l)"
  by (simp add: reg_step_def Let_def)

lemma static_reg_write: "static (card_reg_write p off v c) = reg_step p off v (static c)"
  by (simp add: static_def reg_step_def card_reg_write_def Let_def split: prod.splits)

lemma reg_step_take_bit [simp]: "reg_step p off (take_bit 32 v) s = reg_step p off v s"
  by (simp add: reg_step_def wi_bintr split: prod.splits)

text \<open>The value of DEBUG_CTRL.\<close>

definition debug_value :: "axi_cfg \<Rightarrow> int" where
  "debug_value c = uint (flags_word [cfg_force_link_up c, cfg_force_tx_ready c, cfg_auto_tx_drop c])"

section \<open>The contract\<close>

locale replay_card =
  fixes os :: "'w os" and view :: "'w \<Rightarrow> card"
  assumes reg_write: "\<And>a p off v w. decode a = Some (p, off) \<Longrightarrow>
      \<exists>k w'. os_pwrite os User (le_bytes 4 v) a w = (Inr 4, w')
        \<and> view w' = card_reg_write p off v (card_advance k (view w))"
    and reg_read: "\<And>a p off w. decode a = Some (p, off) \<Longrightarrow>
      \<exists>k w' s. os_pread os User 4 a w = (Inr (le_bytes 4 (uint (axi_read off (c_cfg (view w') p) s))), w')
        \<and> view w' = card_advance k (view w)
        \<and> stat_stream_read_count s = word_of_nat (rd_count (c_reader (view w') p))"
    and h2c_write: "\<And>data a w. data \<noteq> [] \<Longrightarrow>
      \<exists>k n w'. os_pwrite os H2C data a w = (Inr (int n), w') \<and> 0 < n \<and> n \<le> length data
        \<and> (let c = card_advance k (view w) in view w' = c\<lparr>c_mem := write_mem (c_mem c) a (take n data)\<rparr>)"
    and delay: "\<And>t w. \<exists>k. view (os_sleep os t w) = card_advance k (view w)"
    and clock: "\<And>w. \<exists>k t w'. os_clock os w = (t, w') \<and> view w' = card_advance k (view w)"
begin

lemma write32_static:
  assumes "decode a = Some (p, off)"
  shows "spec (\<lambda>w. static (view w) = s) (write32 os a v) (\<lambda>_ w. static (view w) = reg_step p off v s) E"
proof (unfold spec_def, intro allI impI)
  fix w assume w: "static (view w) = s"
  obtain k w' where "os_pwrite os User (le_bytes 4 (take_bit 32 v)) a w = (Inr 4, w')"
    "view w' = card_reg_write p off (take_bit 32 v) (card_advance k (view w))"
    using reg_write [OF assms] by blast
  with w show "case write32 os a v w of None \<Rightarrow> False | Some (Inl e, w') \<Rightarrow> E e w'
      | Some (Inr x, w') \<Rightarrow> static (view w') = reg_step p off v s"
    by (simp add: write32_pack pwrite_def bind_io_def ret_def static_reg_write)
qed

lemma write64_static:
  assumes "decode alo = Some (p, lo)" and "decode ahi = Some (p, hi)"
  shows "spec (\<lambda>w. static (view w) = s) (write64 os alo ahi v)
    (\<lambda>_ w. static (view w) = reg_step p hi (drop_bit 32 v) (reg_step p lo v s)) E"
  unfolding write64_def by (rule spec_bind [OF write32_static [OF assms(1)] write32_static [OF assms(2)]])

text \<open>A write to one port's register, followed by the rest of the program.\<close>

lemma write32_then:
  assumes "p < 2" and "off \<in> {0..<0x10000}" and "spec (\<lambda>w. static (view w) = reg_step p off v s) k Q E"
  shows "spec (\<lambda>w. static (view w) = s) (seq_io (write32 os (tx_port_base p + off) v) k) Q E"
  by (rule spec_bind [OF write32_static [OF decode_port] assms(3)]) (use assms in auto)

lemma write64_then:
  assumes "p < 2" and "lo \<in> {0..<0x10000}" and "hi \<in> {0..<0x10000}"
    and "spec (\<lambda>w. static (view w) = reg_step p hi (drop_bit 32 v) (reg_step p lo v s)) k Q E"
  shows "spec (\<lambda>w. static (view w) = s) (seq_io (write64 os (tx_port_base p + lo) (tx_port_base p + hi) v) k) Q E"
  by (rule spec_bind [OF write64_static [OF decode_port decode_port] assms(4)]) (use assms in auto)

lemma read32_static:
  assumes "decode a = Some (p, off)"
  shows "spec (\<lambda>w. static (view w) = (m, g, ps)) (read32 os a)
    (\<lambda>x w. static (view w) = (m, g, ps) \<and> (\<exists>s. x = uint (axi_read off (g p) s))) E"
proof (unfold spec_def, intro allI impI)
  fix w assume w: "static (view w) = (m, g, ps)"
  obtain k w' s where r: "os_pread os User 4 a w = (Inr (le_bytes 4 (uint (axi_read off (c_cfg (view w') p) s))), w')"
    "view w' = card_advance k (view w)"
    using reg_read [OF assms, of w] by blast
  have "uint (axi_read off (c_cfg (view w') p) s) < 2 ^ 32"
    using uint_bounded [of "axi_read off (c_cfg (view w') p) s"] by simp
  then have "le_int (le_bytes 4 (uint (axi_read off (c_cfg (view w') p) s))) = uint (axi_read off (c_cfg (view w') p) s)"
    by (intro le_int_le_bytes) simp_all
  with r have "read32 os a w = Some (Inr (uint (axi_read off (c_cfg (view w') p) s)), w')"
    by (simp add: read32_def pread_def bind_io_def ret_def)
  moreover have "c_cfg (view w') = g" "static (view w') = (m, g, ps)" using w r(2) by (simp_all add: static_def)
  ultimately show "case read32 os a w of None \<Rightarrow> False | Some (Inl e, w') \<Rightarrow> E e w'
      | Some (Inr x, w') \<Rightarrow> static (view w') = (m, g, ps) \<and> (\<exists>s. x = uint (axi_read off (g p) s))" by auto
qed

lemma read64_static:
  assumes "decode lo = Some (p, lo')" and "decode hi = Some (p, hi')"
  shows "spec (\<lambda>w. static (view w) = (m, g, ps)) (read64 os lo hi)
    (\<lambda>x w. static (view w) = (m, g, ps) \<and> 0 \<le> x \<and> x < 2 ^ 64) E"
  unfolding read64_def
proof (rule spec_bind [OF read32_static [OF assms(1)]], rule spec_assume, rule spec_bind [OF read32_static [OF assms(2)]], rule spec_assume)
  fix l h assume "\<exists>s. l = uint (axi_read lo' (g p) s)" and "\<exists>s. h = uint (axi_read hi' (g p) s)"
  then have "0 \<le> l" "l < 2 ^ 32" "0 \<le> h" "h < 2 ^ 32"
    using uint_bounded [where 'a = 32] by auto
  then have "0 \<le> l OR push_bit 32 h \<and> l OR push_bit 32 h < 2 ^ 64" by (subst or_push_32; simp)+
  then show "spec (\<lambda>w. static (view w) = (m, g, ps))
      (ret (l OR push_bit 32 h)) (\<lambda>x w. static (view w) = (m, g, ps) \<and> 0 \<le> x \<and> x < 2 ^ 64) E"
    by (intro spec_ret) simp
qed

lemma read64_then:
  assumes "p < 2" and "lo \<in> {0..<0x10000}" and "hi \<in> {0..<0x10000}"
    and "\<And>x. 0 \<le> x \<Longrightarrow> x < 2 ^ 64 \<Longrightarrow> spec (\<lambda>w. static (view w) = (m, g, ps)) (k x) Q E"
  shows "spec (\<lambda>w. static (view w) = (m, g, ps)) (bind_io (read64 os (tx_port_base p + lo) (tx_port_base p + hi)) k) Q E"
proof (rule spec_bind [OF read64_static [OF decode_port decode_port]])
  show "spec (\<lambda>w. static (view w) = (m, g, ps) \<and> 0 \<le> x \<and> x < 2 ^ 64) (k x) Q E" for x
    by (intro spec_assume) (use assms(4) in auto)
qed (use assms in auto)

text \<open>Read, modify and write of the debug and scheduler controls.\<close>

lemma rmw_debug:
  assumes "p < 2"
  shows "spec (\<lambda>w. static (view w) = (m, g, ps))
    (bind_io (read32 os (tx_port_base p + 0x54)) (\<lambda>debug. write32 os (tx_port_base p + 0x54) (f debug)))
    (\<lambda>_ w. static (view w) = (m, g(p := (let x = debug_value (g p) in (g p)\<lparr>cfg_force_link_up := bit (f x) 0,
       cfg_force_tx_ready := bit (f x) 1, cfg_auto_tx_drop := bit (f x) 2\<rparr>)), ps)) E"
proof (rule spec_bind)
  have d: "decode (tx_port_base p + 0x54) = Some (p, 0x54)" by (rule decode_port) (use assms in simp_all)
  show "spec (\<lambda>w. static (view w) = (m, g, ps)) (read32 os (tx_port_base p + 0x54))
      (\<lambda>x w. static (view w) = (m, g, ps) \<and> x = debug_value (g p)) E"
    by (rule spec_conseq [OF read32_static [OF d]]) (auto simp: axi_read_def debug_value_def)
  show "spec (\<lambda>w. static (view w) = (m, g, ps) \<and> x = debug_value (g p)) (write32 os (tx_port_base p + 0x54) (f x))
      (\<lambda>_ w. static (view w) = (m, g(p := (let x = debug_value (g p) in (g p)\<lparr>cfg_force_link_up := bit (f x) 0,
        cfg_force_tx_ready := bit (f x) 1, cfg_auto_tx_drop := bit (f x) 2\<rparr>)), ps)) E" for x
    by (rule spec_assume, rule spec_conseq [OF write32_static [OF d, where s = "(m, g, ps)"]])
      (simp_all add: reg_step_eq axi_simps bit_word_of_int_iff Let_def)
qed

lemma sleep_static: "spec (\<lambda>w. static (view w) = s) (sleep os t) (\<lambda>_ w. static (view w) = s) E"
proof (unfold spec_def, intro allI impI)
  fix w assume "static (view w) = s"
  moreover obtain k where "view (os_sleep os t w) = card_advance k (view w)" using delay by blast
  ultimately show "case sleep os t w of None \<Rightarrow> False | Some (Inl e, w') \<Rightarrow> E e w' | Some (Inr x, w') \<Rightarrow> static (view w') = s"
    by (simp add: sleep_def)
qed

lemma sleep_then: "spec (\<lambda>w. static (view w) = s) k Q E \<Longrightarrow> spec (\<lambda>w. static (view w) = s) (seq_io (sleep os t) k) Q E"
  by (rule spec_bind [OF sleep_static])

lemma clock_static: "spec (\<lambda>w. static (view w) = s) (perf_counter os) (\<lambda>_ w. static (view w) = s) E"
proof (unfold spec_def, intro allI impI)
  fix w assume "static (view w) = s"
  moreover obtain k t w' where "os_clock os w = (t, w')" "view w' = card_advance k (view w)" using clock by blast
  ultimately show "case perf_counter os w of None \<Rightarrow> False | Some (Inl e, w') \<Rightarrow> E e w' | Some (Inr x, w') \<Rightarrow> static (view w') = s"
    by (simp add: perf_counter_def)
qed

lemma dma: "dma_mem os (\<lambda>w. c_mem (view w)) (\<lambda>w. (c_cfg (view w), c_pulses (view w), c_starts (view w)))"
proof (unfold dma_mem_def, intro allI impI)
  fix data :: bytes and addr w
  assume "data \<noteq> []"
  from h2c_write [OF this, of addr w] obtain k n w' where n: "os_pwrite os H2C data addr w = (Inr (int n), w')" "0 < n"
    "n \<le> length data" "view w' = (card_advance k (view w))\<lparr>c_mem := write_mem (c_mem (view w)) addr (take n data)\<rparr>"
    by (auto simp: Let_def)
  then show "\<exists>n w'. os_pwrite os H2C data addr w = (Inr (int n), w') \<and> 0 < n \<and> n \<le> length data
      \<and> c_mem (view w') = write_mem (c_mem (view w)) addr (take n data)
      \<and> (c_cfg (view w'), c_pulses (view w'), c_starts (view w')) = (c_cfg (view w), c_pulses (view w), c_starts (view w))" by auto
qed

lemma dma_static:
  assumes "read_size_ok chunk_bytes"
  shows "spec (\<lambda>w. static (view w) = (m, g, ps)) (pwrite_all os file addr chunk_bytes)
      (\<lambda>_ w. static (view w) = (write_mem m addr file, g, ps)) E"
    and "spec (\<lambda>w. static (view w) = (m, g, ps)) (pwrite_file os file addr chunk_bytes)
      (\<lambda>_ w. static (view w) = (write_mem m addr file, g, ps)) E"
  by (rule spec_point [OF pwrite_all_spec [OF dma assms]], simp add: static_def)
    (rule spec_point [OF pwrite_file_spec [OF dma assms]], simp add: static_def)

end

section \<open>Time\<close>

text \<open>Every access takes a nanosecond at least; the clock shows the time as a float.\<close>

definition access_time :: rat where
  "access_time = 1 / 1000000000"

locale timed =
  fixes os :: "'a os" and now :: "'a \<Rightarrow> rat"
  assumes pread_time: "\<And>fd n a w. now w + access_time \<le> now (snd (os_pread os fd n a w))"
    and pwrite_time: "\<And>fd data a w. now w \<le> now (snd (os_pwrite os fd data a w))"
    and sleep_time: "\<And>t w. now w + access_time \<le> now (os_sleep os t w)"
    and clock_value: "\<And>w. fst (os_clock os w) = fl (now w)"
    and clock_time: "\<And>w. now w \<le> now (snd (os_clock os w))"
begin

lemma access_time_pos: "0 < access_time"
  by (simp add: access_time_def)

text \<open>A loop that takes time in every round and stops once it is late returns.\<close>

lemma poll:
  assumes body: "\<And>u T. spec (\<lambda>w. I u w \<and> T \<le> now w) (body u) (\<lambda>c w. case c of
      Continue u' \<Rightarrow> I u' w \<and> T + access_time \<le> now w \<and> T < L | Break x \<Rightarrow> Q x w) E"
  shows "spec (\<lambda>w. I u w \<and> T \<le> now w) (loop_io body u) Q E"
proof -
  define m where "m w = nat \<lceil>(L - now w) / access_time\<rceil>" for w
  have less: "m w < m v" if "now v + access_time \<le> now w" "now v < L" for v w
  proof -
    have "(L - now w) / access_time \<le> (L - now v - access_time) / access_time"
      using that(1) access_time_pos by (intro divide_right_mono) simp_all
    also have "\<dots> = (L - now v) / access_time - 1" using access_time_pos by (simp add: diff_divide_distrib)
    finally have "\<lceil>(L - now w) / access_time\<rceil> \<le> \<lceil>(L - now v) / access_time\<rceil> - 1"
      by (simp add: ceiling_le_iff) linarith
    moreover have "0 < (L - now v) / access_time" using that(2) access_time_pos by simp
    ultimately show ?thesis unfolding m_def by linarith
  qed
  have step: "spec (\<lambda>w. w = v \<and> I u v \<and> T \<le> now v) (body u)
      (\<lambda>c w. case c of Continue u' \<Rightarrow> (I u' w \<and> T \<le> now w) \<and> m w < m v | Break x \<Rightarrow> Q x w) E" for u v
  proof (rule spec_assume, rule spec_conseq [OF body [of u "now v"]])
    fix c w assume v: "I u v \<and> T \<le> now v"
      and "case c of Continue u' \<Rightarrow> I u' w \<and> now v + access_time \<le> now w \<and> now v < L | Break x \<Rightarrow> Q x w"
    then show "case c of Continue u' \<Rightarrow> (I u' w \<and> T \<le> now w) \<and> m w < m v | Break x \<Rightarrow> Q x w"
      using less [of v w] access_time_pos by (auto split: ctl.splits)
  qed simp_all
  show ?thesis by (rule spec_loop [where I = "\<lambda>u w. I u w \<and> T \<le> now w" and m = "\<lambda>_. m", OF step])
qed

end

locale timed_card = replay_card os view + timed os now
  for os :: "'a os" and view :: "'a \<Rightarrow> card" and now :: "'a \<Rightarrow> rat"
begin

text \<open>A property of the card and a lower bound of the time.\<close>

definition holds :: "(card \<Rightarrow> bool) \<Rightarrow> rat \<Rightarrow> 'a \<Rightarrow> bool" where
  "holds P T w \<longleftrightarrow> P (view w) \<and> T \<le> now w"

lemma holds_mono: "holds P T w \<Longrightarrow> (\<And>c. P c \<Longrightarrow> Q c) \<Longrightarrow> T' \<le> T \<Longrightarrow> holds Q T' w"
  by (auto simp: holds_def)

lemma holds_any: "(\<And>T. spec (holds P T) m Q E) \<Longrightarrow> spec (\<lambda>w. P (view w)) m Q E"
  by (simp add: spec_def holds_def) blast

lemma write32_holds:
  assumes d: "decode a = Some (p, off)" and step: "\<And>k c. P c \<Longrightarrow> Q (card_reg_write p off (take_bit 32 v) (card_advance k c))"
  shows "spec (holds P T) (write32 os a v) (\<lambda>_. holds Q T) E"
proof (unfold spec_def, intro allI impI)
  fix w assume w: "holds P T w"
  obtain k w' where w': "os_pwrite os User (le_bytes 4 (take_bit 32 v)) a w = (Inr 4, w')"
    "view w' = card_reg_write p off (take_bit 32 v) (card_advance k (view w))"
    using reg_write [OF d] by blast
  have "now w \<le> now w'" using pwrite_time [of w User "le_bytes 4 (take_bit 32 v)" a] w' by simp
  then have "holds Q T w'" using w step [of "view w" k] w' by (simp add: holds_def)
  with w' show "case write32 os a v w of None \<Rightarrow> False | Some (Inl e, w') \<Rightarrow> E e w' | Some (Inr x, w') \<Rightarrow> holds Q T w'"
    by (simp add: write32_pack pwrite_def bind_io_def ret_def)
qed

lemma read32_holds:
  assumes d: "decode a = Some (p, off)" and step: "\<And>k c. P c \<Longrightarrow> P (card_advance k c)"
  shows "spec (holds P T) (read32 os a) (\<lambda>x w. holds P (T + access_time) w
     \<and> (\<exists>s. x = uint (axi_read off (c_cfg (view w) p) s) \<and> stat_stream_read_count s = word_of_nat (rd_count (c_reader (view w) p)))) E"
proof (unfold spec_def, intro allI impI)
  fix w assume w: "holds P T w"
  obtain k w' s where r: "os_pread os User 4 a w = (Inr (le_bytes 4 (uint (axi_read off (c_cfg (view w') p) s))), w')"
    "view w' = card_advance k (view w)" "stat_stream_read_count s = word_of_nat (rd_count (c_reader (view w') p))"
    using reg_read [OF d, of w] by blast
  have "uint (axi_read off (c_cfg (view w') p) s) < 2 ^ 32"
    using uint_bounded [of "axi_read off (c_cfg (view w') p) s"] by simp
  then have "le_int (le_bytes 4 (uint (axi_read off (c_cfg (view w') p) s))) = uint (axi_read off (c_cfg (view w') p) s)"
    by (intro le_int_le_bytes) simp_all
  with r have "read32 os a w = Some (Inr (uint (axi_read off (c_cfg (view w') p) s)), w')"
    by (simp add: read32_def pread_def bind_io_def ret_def)
  moreover have "now w + access_time \<le> now w'" using pread_time [of w User 4 a] r(1) by simp
  then have "holds P (T + access_time) w'" using w step [of "view w" k] r(2) by (simp add: holds_def)
  ultimately show "case read32 os a w of None \<Rightarrow> False | Some (Inl e, w') \<Rightarrow> E e w' | Some (Inr x, w') \<Rightarrow> holds P (T + access_time) w'
     \<and> (\<exists>s. x = uint (axi_read off (c_cfg (view w') p) s) \<and> stat_stream_read_count s = word_of_nat (rd_count (c_reader (view w') p)))"
    using r(3) by auto
qed

lemma sleep_holds:
  assumes "\<And>k c. P c \<Longrightarrow> P (card_advance k c)"
  shows "spec (holds P T) (sleep os t) (\<lambda>_. holds P (T + access_time)) E"
proof (unfold spec_def, intro allI impI)
  fix w assume w: "holds P T w"
  obtain k where k: "view (os_sleep os t w) = card_advance k (view w)" using delay by blast
  have "T + access_time \<le> now (os_sleep os t w)" using sleep_time [of w t] w by (simp add: holds_def)
  then show "case sleep os t w of None \<Rightarrow> False | Some (Inl e, w') \<Rightarrow> E e w' | Some (Inr x, w') \<Rightarrow> holds P (T + access_time) w'"
    using w assms [of "view w" k] k by (simp add: holds_def sleep_def)
qed

lemma clock_holds:
  assumes "\<And>k c. P c \<Longrightarrow> P (card_advance k c)"
  shows "spec (holds P T) (perf_counter os) (\<lambda>t w. holds P T w \<and> fl T \<le> t) E"
proof (unfold spec_def, intro allI impI)
  fix w assume w: "holds P T w"
  obtain k t w' where c: "os_clock os w = (t, w')" "view w' = card_advance k (view w)" using clock by blast
  have "T \<le> now w'" "fl T \<le> t"
    using clock_time [of w] clock_value [of w] w c fl_mono [of T "now w"] by (simp_all add: holds_def)
  then show "case perf_counter os w of None \<Rightarrow> False | Some (Inl e, w') \<Rightarrow> E e w' | Some (Inr t, w') \<Rightarrow> holds P T w' \<and> fl T \<le> t"
    using w c assms [of "view w" k] by (simp add: perf_counter_def holds_def)
qed

lemma chunk_holds:
  assumes step: "\<And>j n k c. P j c \<Longrightarrow> 0 < n \<Longrightarrow> j + n \<le> length chunk \<Longrightarrow>
      P (j + n) ((card_advance k c)\<lparr>c_mem := write_mem (c_mem c) (addr + int j) (take n (drop j chunk))\<rparr>)"
  shows "spec (holds (P 0) T) (write_chunk_all os chunk addr) (\<lambda>_. holds (P (length chunk)) T) E"
proof -
  let ?I = "\<lambda>k w. 0 \<le> k \<and> k \<le> int (length chunk) \<and> holds (P (nat k)) T w"
  have "spec (?I 0) (write_chunk_all os chunk addr) (\<lambda>_. holds (P (length chunk)) T) E"
    unfolding write_chunk_all_def
  proof (rule spec_loop [where I = ?I and m = "\<lambda>k w. nat (int (length chunk) - k)"], rule spec_assume)
    fix k :: int and v assume k: "0 \<le> k \<and> k \<le> int (length chunk) \<and> holds (P (nat k)) T v"
    show "spec (\<lambda>w. w = v)
        (if k < int (length chunk) then bind_io (pwrite os H2C (drop (nat k) chunk) (addr + k)) (\<lambda>rc. ret (Continue (k + rc)))
         else ret (Break ()))
        (\<lambda>c w. case c of Continue s' \<Rightarrow> (0 \<le> s' \<and> s' \<le> int (length chunk) \<and> holds (P (nat s')) T w)
             \<and> nat (int (length chunk) - s') < nat (int (length chunk) - k)
           | Break a \<Rightarrow> holds (P (length chunk)) T w) E"
    proof (cases "k < int (length chunk)")
      case False
      then have "nat k = length chunk" using k by linarith
      then show ?thesis using False k by (auto intro!: spec_ret)
    next
      case True
      then have "nat k < length chunk" using k by linarith
      then have ne: "drop (nat k) chunk \<noteq> []" by simp
      obtain a n w' where n: "os_pwrite os H2C (drop (nat k) chunk) (addr + k) v = (Inr (int n), w')" "0 < n"
        "n \<le> length (drop (nat k) chunk)" "view w' = (card_advance a (view v))\<lparr>c_mem := write_mem (c_mem (view v)) (addr + k) (take n (drop (nat k) chunk))\<rparr>"
        using h2c_write [OF ne, of "addr + k" v] by (auto simp: Let_def)
      have "nat k + n \<le> length chunk" using n(3) \<open>nat k < length chunk\<close> by simp
      from step [of "nat k" "view v" n a, OF _ n(2) this] k n(4)
      have "P (nat k + n) (view w')" by (simp add: holds_def)
      moreover have "now v \<le> now w'" using pwrite_time [of v H2C "drop (nat k) chunk" "addr + k"] n(1) by simp
      moreover have "nat (k + int n) = nat k + n" using k by (simp add: nat_add_distrib)
      ultimately have "holds (P (nat (k + int n))) T w'" using k by (simp add: holds_def)
      then show ?thesis using True k n(1,2) \<open>nat k + n \<le> length chunk\<close>
        by (auto simp: spec_def bind_io_def pwrite_def ret_def)
    qed
  qed
  then show ?thesis by simp
qed

lemma poll_holds:
  assumes body: "\<And>u T. spec (holds (I u) T) (body u) (\<lambda>c w. case c of
      Continue u' \<Rightarrow> holds (I u') (T + access_time) w \<and> T < L | Break x \<Rightarrow> Q x w) E"
  shows "spec (holds (I u) T) (loop_io body u) Q E"
  using poll [where I = "\<lambda>u w. I u (view w)" and body = body and Q = Q and E = E and L = L and u = u and T = T] body
  by (simp add: holds_def [abs_def] cong: ctl.case_cong)

text \<open>The static part of the card together with a lower bound of the time.\<close>

definition stay :: "(int \<Rightarrow> byte) \<times> (nat \<Rightarrow> axi_cfg) \<times> log_state \<Rightarrow> rat \<Rightarrow> 'a \<Rightarrow> bool" where
  "stay s T w \<longleftrightarrow> static (view w) = s \<and> T \<le> now w"

lemma stay_holds: "stay s T = holds (\<lambda>c. static c = s) T"
  by (simp add: fun_eq_iff stay_def holds_def)

lemma stay_later: "stay s T w \<Longrightarrow> T' \<le> T \<Longrightarrow> stay s T' w"
  by (simp add: stay_def)

lemma read32_stay:
  assumes "decode a = Some (p, off)"
  shows "spec (stay (m, g, ps) T) (read32 os a)
    (\<lambda>x w. stay (m, g, ps) (T + access_time) w \<and> (\<exists>s. x = uint (axi_read off (g p) s))) E"
  unfolding stay_holds
  by (rule spec_conseq [OF read32_holds [where P = "\<lambda>c. static c = (m, g, ps)", OF assms]])
    (auto simp: holds_def static_def)

lemma sleep_stay: "spec (stay s T) (sleep os t) (\<lambda>_ w. stay s (T + access_time) w) E"
  unfolding stay_holds by (rule sleep_holds) simp

lemma clock_stay: "spec (stay s T) (perf_counter os) (\<lambda>t w. stay s T w \<and> fl T \<le> t) E"
  unfolding stay_holds by (rule clock_holds) simp

lemma stay_any: "(\<And>T. spec (stay s T) m Q E) \<Longrightarrow> spec (\<lambda>w. static (view w) = s) m Q E"
  unfolding stay_holds by (rule holds_any)

lemma stay_static: "stay s T w \<Longrightarrow> static (view w) = s"
  by (simp add: stay_def)

lemma spec_poll:
  assumes "\<And>u T. spec (stay s T) (body u) (\<lambda>c w. case c of
      Continue u \<Rightarrow> stay s (T + access_time) w \<and> T < L | Break x \<Rightarrow> Q x w) E"
  shows "spec (stay s T) (loop_io body u) Q E"
  using poll_holds [where I = "\<lambda>_ c. static c = s" and body = body] assms unfolding stay_holds by blast

end

section \<open>A card\<close>

text \<open>
  What the host cannot know: the status inputs, how many bytes a transfer moves, how far the readers
  get between two accesses, how long an access takes (a nanosecond at least), and the contents of the
  receive blocks, each a function of the state reached.
\<close>

record board =
  bd_card :: card
  bd_now :: rat
  bd_rx :: "(int \<times> bytes) list"

record hw =
  hw_stats :: "board \<Rightarrow> nat \<Rightarrow> axi_stats"
  hw_length :: "board \<Rightarrow> nat \<Rightarrow> nat"
  hw_take :: "board \<Rightarrow> nat \<Rightarrow> nat"
  hw_delay :: "board \<Rightarrow> rat"
  hw_rx :: "board \<Rightarrow> int \<Rightarrow> int"

definition board_advance :: "hw \<Rightarrow> board \<Rightarrow> board" where
  "board_advance hw b = b\<lparr>bd_card := card_advance (hw_take hw b) (bd_card b), 
     bd_now := bd_now b + max access_time (hw_delay hw b)\<rparr>"

definition board_pread :: "hw \<Rightarrow> fd \<Rightarrow> int \<Rightarrow> int \<Rightarrow> board \<Rightarrow> bytes res \<times> board" where
  "board_pread hw fd n a b = (let b' = board_advance hw b in case fd of
     User \<Rightarrow> (case decode a of
         Some (p, off) \<Rightarrow> (Inr (le_bytes 4 (uint (axi_read off (c_cfg (bd_card b') p)
           ((hw_stats hw b' p)\<lparr>stat_stream_read_count := word_of_nat (rd_count (c_reader (bd_card b') p))\<rparr>)))), b')
       | None \<Rightarrow> (Inr (le_bytes 4 (hw_rx hw b' a)), b'))
   | C2H \<Rightarrow> (Inr (map (\<lambda>i. c_mem (bd_card b') (a + int i)) [0..<nat n]), b')
   | H2C \<Rightarrow> (Inl OSError, b'))"

definition board_pwrite :: "hw \<Rightarrow> fd \<Rightarrow> bytes \<Rightarrow> int \<Rightarrow> board \<Rightarrow> int res \<times> board" where
  "board_pwrite hw fd data a b = (let b' = board_advance hw b; c = bd_card b' in case fd of
     User \<Rightarrow> (case decode a of
         Some (p, off) \<Rightarrow> (Inr (int (length data)), b'\<lparr>bd_card := card_reg_write p off (le_int data) c\<rparr>)
       | None \<Rightarrow> (Inr (int (length data)), b'\<lparr>bd_rx := bd_rx b' @ [(a, data)]\<rparr>))
   | H2C \<Rightarrow> (let n = max 1 (min (length data) (hw_length hw b' (length data))) in
       if data = [] then (Inr 0, b')
       else (Inr (int n), b'\<lparr>bd_card := c\<lparr>c_mem := write_mem (c_mem c) a (take n data)\<rparr>\<rparr>))
   | C2H \<Rightarrow> (Inl OSError, b'))"

definition board_os :: "hw \<Rightarrow> board os" where
  "board_os hw = \<lparr> os_pread = board_pread hw, os_pwrite = board_pwrite hw,
     os_sleep = (\<lambda>t b. let b' = board_advance hw b in b'\<lparr>bd_now := bd_now b' + max 0 t\<rparr>),
     os_clock = (\<lambda>b. (fl (bd_now b), board_advance hw b)) \<rparr>"

lemma bd_card_advance [simp]: "bd_card (board_advance hw b) = card_advance (hw_take hw b) (bd_card b)"
  by (simp add: board_advance_def)

lemma card_reg_write_bytes: "card_reg_write p off (le_int (le_bytes 4 v)) c = card_reg_write p off v c"
proof -
  have "le_int (le_bytes 4 v) = take_bit 32 v" by (simp add: le_int_le_bytes_mod take_bit_eq_mod)
  then show ?thesis by (simp add: card_reg_write_def wi_bintr)
qed

interpretation board: replay_card "board_os hw" bd_card for hw
proof
  fix a p off v w
  assume d: "decode a = Some (p, off)"
  show "\<exists>k w'. os_pwrite (board_os hw) User (le_bytes 4 v) a w = (Inr 4, w')
      \<and> bd_card w' = card_reg_write p off v (card_advance k (bd_card w))"
    by (intro exI [of _ "hw_take hw w"]) (simp add: board_os_def board_pwrite_def d Let_def card_reg_write_bytes)
next
  fix a p off w
  assume d: "decode a = Some (p, off)"
  show "\<exists>k w' s. os_pread (board_os hw) User 4 a w = (Inr (le_bytes 4 (uint (axi_read off (c_cfg (bd_card w') p) s))), w')
      \<and> bd_card w' = card_advance k (bd_card w) \<and> stat_stream_read_count s = word_of_nat (rd_count (c_reader (bd_card w') p))"
    by (intro exI [of _ "hw_take hw w"] exI [of _ "board_advance hw w"]
        exI [of _ "(hw_stats hw (board_advance hw w) p)\<lparr>stat_stream_read_count :=
          word_of_nat (rd_count (c_reader (bd_card (board_advance hw w)) p))\<rparr>"])
      (simp add: board_os_def board_pread_def d Let_def)
next
  fix data :: bytes and a w
  assume d: "data \<noteq> []"
  define n where "n = max 1 (min (length data) (hw_length hw (board_advance hw w) (length data)))"
  have "0 < n" "n \<le> length data" using d by (simp_all add: n_def Suc_le_eq)
  then show "\<exists>k n w'. os_pwrite (board_os hw) H2C data a w = (Inr (int n), w') \<and> 0 < n \<and> n \<le> length data
      \<and> (let c = card_advance k (bd_card w) in bd_card w' = c\<lparr>c_mem := write_mem (c_mem c) a (take n data)\<rparr>)"
    by (intro exI [of _ "hw_take hw w"] exI [of _ n]) (simp add: board_os_def board_pwrite_def d Let_def n_def)
next
  fix t w
  show "\<exists>k. bd_card (os_sleep (board_os hw) t w) = card_advance k (bd_card w)"
    by (auto simp: board_os_def Let_def)
next
  fix w
  show "\<exists>k t w'. os_clock (board_os hw) w = (t, w') \<and> bd_card w' = card_advance k (bd_card w)"
    by (auto simp: board_os_def)
qed

interpretation board: timed_card "board_os hw" bd_card bd_now for hw
proof
  fix fd n a w
  show "bd_now w + access_time \<le> bd_now (snd (os_pread (board_os hw) fd n a w))"
    by (auto simp: board_os_def board_pread_def board_advance_def Let_def split: fd.splits option.splits)
next
  fix fd data a w
  show "bd_now w \<le> bd_now (snd (os_pwrite (board_os hw) fd data a w))"
    by (auto simp: board_os_def board_pwrite_def board_advance_def access_time_def Let_def split: fd.splits option.splits)
next
  fix t w
  show "bd_now w + access_time \<le> bd_now (os_sleep (board_os hw) t w)"
    by (simp add: board_os_def board_advance_def Let_def add_increasing2)
next
  fix w
  show "fst (os_clock (board_os hw) w) = fl (bd_now w)" by (simp add: board_os_def)
  show "bd_now w \<le> bd_now (snd (os_clock (board_os hw) w))"
    by (simp add: board_os_def board_advance_def access_time_def)
qed

section \<open>An example card\<close>

text \<open>A card whose status inputs are all zero and which moves up to 4096 bytes per transfer.\<close>

definition idle_stats :: axi_stats where
  "idle_stats = \<lparr> stat_running = False, stat_done = False, stat_late = False, stat_underrun = False,
     stat_link_up = True, stat_effective_link_up = True, stat_fifo_level = 0, stat_tx_pkts = 0, stat_tx_bytes = 0,
     stat_late_pkts = 0, stat_underrun_pkts = 0, stat_drop_pkts = 0, stat_drop_beats = 0, stat_stall_events = 0,
     stat_debug_status = 0, stat_debug_axi = 0, stat_debug_araddr = 0, stat_debug_rdata_low = 0,
     stat_debug_ticks = 0, stat_stream_read_count = 0, stat_stream_level = 0, stat_stream_status = 0,
     stat_global_ticks = 0, stat_sync_armed = False \<rparr>"

definition demo_hw :: hw where
  "demo_hw = \<lparr> hw_stats = (\<lambda>b p. idle_stats), hw_length = (\<lambda>b n. 4096), hw_take = (\<lambda>b p. 1),
     hw_delay = (\<lambda>b. 1 / 1000), hw_rx = (\<lambda>b a. 0) \<rparr>"

definition idle_reader :: reader where
  "idle_reader = \<lparr> rd_active = False, rd_base = 0, rd_ring = 0, rd_count = 0, rd_bytes = [] \<rparr>"

definition demo_board :: board where
  "demo_board = \<lparr> bd_card = \<lparr> c_mem = (\<lambda>_. 0), c_cfg = (\<lambda>_. axi_reset), c_reader = (\<lambda>_. idle_reader), c_pulses = [], c_starts = [] \<rparr>,
     bd_now = 0, bd_rx = [] \<rparr>"

end
