(* ===== verification/LoadTrace.thy ===== *)
theory LoadTrace
  imports Card PyText
begin

text \<open>
  xdma_load_trace.py: copy the descriptor and data files into the card's DDR, program one port's
  registers and start the replay.  The property states what the card then holds and that the start
  command comes last.
\<close>

unbundle bit_operations_syntax

section \<open>The program\<close>

datatype load_mode = Preload | Loop

record load_args =
  la_manifest :: "(string \<times> string \<times> string) option"
  la_desc :: "string option"
  la_data :: "string option"
  la_port :: nat
  la_reg_base :: "int option"
  la_desc_base :: int
  la_data_base :: int
  la_mode :: load_mode
  la_loop_count :: int
  la_loop_gap :: int
  la_start_time :: int
  la_rate_q16_16 :: int
  la_force_link_up :: bool
  la_clear_force_link_up :: bool
  la_force_tx_ready :: bool
  la_clear_force_tx_ready :: bool
  la_auto_drop :: bool
  la_no_auto_drop :: bool
  la_no_start :: bool
  la_chunk_bytes :: int

text \<open>The manifest is its directory and its two file names; \<^verbatim>\<open>base / Path(name).name\<close>.\<close>

definition path_join :: "string \<Rightarrow> string \<Rightarrow> string" where
  "path_join base name = (if base = ''.'' \<or> base = [] then name else if last base = CHR ''/'' then base @ name else base @ ''/'' @ name)"

lemma path_join_inject [simp]: "path_join d x = path_join d y \<longleftrightarrow> x = y"
  by (simp add: path_join_def)

lemma basename_join: "CHR ''/'' \<notin> set name \<Longrightarrow> basename (path_join dir name) = name"
proof (cases "dir = ''.'' \<or> dir = []")
  case True
  assume "CHR ''/'' \<notin> set name"
  then have "\<forall>c \<in> set (rev name). c \<noteq> CHR ''/''" by auto
  then have "basename name = name" by (simp add: basename_def takeWhile_eq_all_conv [THEN iffD2])
  with True show ?thesis by (auto simp: path_join_def)
next
  case False
  assume n: "CHR ''/'' \<notin> set name"
  from False obtain d c where "dir = d @ [c]" by (cases dir rule: rev_cases) auto
  then show ?thesis using False basename_append [OF n, of d] basename_append [OF n, of dir]
    by (auto simp: path_join_def)
qed

definition load_manifest :: "load_args \<Rightarrow> load_args" where
  "load_manifest args = (case la_manifest args of
     None \<Rightarrow> args
   | Some (base, descriptor_file, data_file) \<Rightarrow>
       (let args = (if la_desc args = None then args\<lparr>la_desc := Some (path_join base (basename descriptor_file))\<rparr> else args)
        in (if la_data args = None then args\<lparr>la_data := Some (path_join base (basename data_file))\<rparr> else args)))"

definition require_file :: "(string \<Rightarrow> bytes option) \<Rightarrow> string option \<Rightarrow> string \<Rightarrow> bytes res" where
  "require_file fs path label = (case path of
     None \<Rightarrow> Inl (SystemExit (label @ '' is required''))
   | Some f \<Rightarrow> (case fs f of
       None \<Rightarrow> Inl (SystemExit (label @ '' not found: '' @ f))
     | Some bs \<Rightarrow> Inr bs))"

definition wants_debug :: "load_args \<Rightarrow> bool" where
  "wants_debug args \<longleftrightarrow> la_force_link_up args \<or> la_clear_force_link_up args \<or> la_force_tx_ready args
     \<or> la_clear_force_tx_ready args \<or> la_auto_drop args \<or> la_no_auto_drop args"

definition update_debug :: "load_args \<Rightarrow> int \<Rightarrow> int" where
  "update_debug args debug =
     (let debug = (if la_force_link_up args then debug OR 0x1 else debug);
          debug = (if la_clear_force_link_up args then debug AND NOT 0x1 else debug);
          debug = (if la_force_tx_ready args then debug OR 0x2 else debug);
          debug = (if la_clear_force_tx_ready args then debug AND NOT 0x2 else debug);
          debug = (if la_auto_drop args then debug OR 0x4 else debug);
          debug = (if la_no_auto_drop args then debug AND NOT 0x4 else debug)
      in debug)"

text \<open>The register programming of \<^verbatim>\<open>main\<close>, from clearing the port to starting it.\<close>

definition load_registers :: "'w os \<Rightarrow> load_args \<Rightarrow> int \<Rightarrow> int \<Rightarrow> int \<Rightarrow> int \<Rightarrow> ('w, unit) io" where
  "load_registers os args reg_base desc_size data_size pkt_count =
     seq_io (write32 os (reg_base + 0x00) 0x4)
    (seq_io (write32 os (reg_base + 0x04) (case la_mode args of Preload \<Rightarrow> 0 | Loop \<Rightarrow> 2))
    (seq_io (write64 os (reg_base + 0x10) (reg_base + 0x14) (la_desc_base args))
    (seq_io (write64 os (reg_base + 0x18) (reg_base + 0x1c) (la_data_base args))
    (seq_io (write64 os (reg_base + 0x20) (reg_base + 0x24) (desc_size + data_size))
    (seq_io (write64 os (reg_base + 0x28) (reg_base + 0x2c) pkt_count)
    (seq_io (write64 os (reg_base + 0x30) (reg_base + 0x34) (la_loop_count args))
    (seq_io (write64 os (reg_base + 0x38) (reg_base + 0x3c) (la_loop_gap args))
    (seq_io (write64 os (reg_base + 0x40) (reg_base + 0x44) (la_start_time args))
    (seq_io (write32 os (reg_base + 0x48) (la_rate_q16_16 args))
    (seq_io (if wants_debug args
             then bind_io (read32 os (reg_base + 0x54)) (\<lambda>debug.
                  write32 os (reg_base + 0x54) (update_debug args debug))
             else ret ())
    (if la_no_start args then ret () else write32 os (reg_base + 0x00) 0x1)))))))))))"

definition load_main :: "'w os \<Rightarrow> (string \<Rightarrow> bytes option) \<Rightarrow> load_args \<Rightarrow> ('w, unit) io" where
  "load_main os fs args0 =
    (let reg_base = (case la_reg_base args0 of None \<Rightarrow> tx_port_base (la_port args0) | Some b \<Rightarrow> b);
         args = load_manifest args0 in
     bind_io (lift_res (require_file fs (la_desc args) ''--desc'')) (\<lambda>desc.
     bind_io (lift_res (require_file fs (la_data args) ''--data'')) (\<lambda>data.
     let desc_size = int (length desc); data_size = int (length data) in
     if desc_size mod 64 \<noteq> 0
     then raise (SystemExit (''descriptor file size must be a multiple of 64: '' @ show_int desc_size))
     else let pkt_count = desc_size div 64 in
     seq_io (pwrite_all os desc (la_desc_base args) (la_chunk_bytes args))
    (seq_io (pwrite_all os data (la_data_base args) (la_chunk_bytes args))
    (load_registers os args reg_base desc_size data_size pkt_count)))))"

section \<open>What the card then holds\<close>

text \<open>The configuration the loader asks for, over the one the port had.\<close>

definition loaded_cfg :: "load_args \<Rightarrow> int \<Rightarrow> int \<Rightarrow> axi_cfg \<Rightarrow> axi_cfg" where
  "loaded_cfg args desc_size data_size c = c\<lparr>
     pause := False, cfg_mode := (case la_mode args of Preload \<Rightarrow> 0 | Loop \<Rightarrow> 2),
     cfg_desc_base := word_of_int (la_desc_base args), cfg_data_base := word_of_int (la_data_base args),
     cfg_trace_bytes := word_of_int (desc_size + data_size), cfg_pkt_count := word_of_int (desc_size div 64),
     cfg_loop_count := word_of_int (la_loop_count args), cfg_loop_gap_ticks := word_of_int (la_loop_gap args),
     cfg_start_time := word_of_int (la_start_time args), cfg_rate_q16_16 := word_of_int (la_rate_q16_16 args),
     cfg_stream_write_count := 0, cfg_stream_write_shadow := 0, cfg_stream_eof := False, cfg_stream_pingpong := False,
     cfg_force_link_up := (if la_clear_force_link_up args then False else la_force_link_up args \<or> cfg_force_link_up c),
     cfg_force_tx_ready := (if la_clear_force_tx_ready args then False else la_force_tx_ready args \<or> cfg_force_tx_ready c),
     cfg_auto_tx_drop := (if la_no_auto_drop args then False else la_auto_drop args \<or> cfg_auto_tx_drop c) \<rparr>"

lemma loaded_cfg_pkt_count [simp]:
  "(loaded_cfg args d e c)\<lparr>cfg_pkt_count := word_of_int (d div 64)\<rparr> = loaded_cfg args d e c"
  by (cases c) (simp add: loaded_cfg_def)

lemma debug_bits:
  "bit (update_debug args (debug_value c)) 0 = (if la_clear_force_link_up args then False else la_force_link_up args \<or> cfg_force_link_up c)"
  "bit (update_debug args (debug_value c)) (Suc 0) = (if la_clear_force_tx_ready args then False else la_force_tx_ready args \<or> cfg_force_tx_ready c)"
  "bit (update_debug args (debug_value c)) 2 = (if la_no_auto_drop args then False else la_auto_drop args \<or> cfg_auto_tx_drop c)"
  by (cases "cfg_force_link_up c"; cases "cfg_force_tx_ready c"; cases "cfg_auto_tx_drop c";
      simp add: update_debug_def debug_value_def flags_word_3 Let_def bit_or_iff bit_and_iff bit_not_iff)+

context replay_card begin

lemma debug_step:
  assumes "p < 2"
  shows "spec (\<lambda>w. static (view w) = (m, g, ps))
     (if wants_debug args then bind_io (read32 os (tx_port_base p + 0x54)) (\<lambda>debug.
                  write32 os (tx_port_base p + 0x54) (update_debug args debug)) else ret ())
     (\<lambda>_ w. static (view w) = (m, g(p := (g p)\<lparr>
       cfg_force_link_up := (if la_clear_force_link_up args then False else la_force_link_up args \<or> cfg_force_link_up (g p)),
       cfg_force_tx_ready := (if la_clear_force_tx_ready args then False else la_force_tx_ready args \<or> cfg_force_tx_ready (g p)),
       cfg_auto_tx_drop := (if la_no_auto_drop args then False else la_auto_drop args \<or> cfg_auto_tx_drop (g p))\<rparr>), ps)) E"
proof (cases "wants_debug args")
  case True
  show ?thesis
    unfolding if_P [OF True]
    by (rule spec_conseq [OF rmw_debug [OF assms]]) (simp_all add: Let_def debug_bits)
next
  case False
  then show ?thesis by (auto simp: wants_debug_def intro!: spec_ret)
qed

lemma load_registers_spec:
  assumes p: "p < 2"
  shows "spec (\<lambda>w. static (view w) = (m, g, ps, ss)) (load_registers os args (tx_port_base p) desc_size data_size pkt_count)
     (\<lambda>_ w. let g' = g(p := (loaded_cfg args desc_size data_size (g p))\<lparr>cfg_pkt_count := word_of_int pkt_count\<rparr>)
        in static (view w) = (m, g', ps @ (p, Clear) # (if la_no_start args then [] else [(p, Start)]),
             ss @ (if la_no_start args then [] else [(p, m, g')]))) E"
proof -
  define n where "n = desc_size + data_size"
  define g1 where "g1 = (g p)\<lparr>pause := False, cfg_stream_write_count := 0, cfg_stream_write_shadow := 0,
     cfg_stream_eof := False, cfg_stream_pingpong := False, cfg_mode := (case la_mode args of Preload \<Rightarrow> 0 | Loop \<Rightarrow> 2),
     cfg_desc_base := word_of_int (la_desc_base args), cfg_data_base := word_of_int (la_data_base args),
     cfg_trace_bytes := word_of_int n, cfg_pkt_count := word_of_int pkt_count,
     cfg_loop_count := word_of_int (la_loop_count args), cfg_loop_gap_ticks := word_of_int (la_loop_gap args),
     cfg_start_time := word_of_int (la_start_time args), cfg_rate_q16_16 := word_of_int (la_rate_q16_16 args)\<rparr>"
  have start: "spec (\<lambda>w. static (view w) = (m, g', ps', ss)) (if la_no_start args then ret () else write32 os (tx_port_base p + 0x00) 0x1)
      (\<lambda>_ w. let g'' = g'(p := (if la_no_start args then g' p else (g' p)\<lparr>pause := False\<rparr>))
        in static (view w) = (m, g'', ps' @ (if la_no_start args then [] else [(p, Start)]),
             ss @ (if la_no_start args then [] else [(p, m, g'')]))) E" for g' ps'
    using write32_static [OF decode_port [OF p, of 0], of "(m, g', ps', ss)" 1]
    by (auto intro!: spec_ret simp: reg_step_eq axi_simps Let_def bit_word_of_int_iff)
  have w: "reg_step p 0x48 (la_rate_q16_16 args)
      (reg_step p 0x44 (drop_bit 32 (la_start_time args)) (reg_step p 0x40 (la_start_time args)
      (reg_step p 0x3c (drop_bit 32 (la_loop_gap args)) (reg_step p 0x38 (la_loop_gap args)
      (reg_step p 0x34 (drop_bit 32 (la_loop_count args)) (reg_step p 0x30 (la_loop_count args)
      (reg_step p 0x2c (drop_bit 32 pkt_count) (reg_step p 0x28 pkt_count
      (reg_step p 0x24 (drop_bit 32 n) (reg_step p 0x20 n
      (reg_step p 0x1c (drop_bit 32 (la_data_base args)) (reg_step p 0x18 (la_data_base args)
      (reg_step p 0x14 (drop_bit 32 (la_desc_base args)) (reg_step p 0x10 (la_desc_base args)
      (reg_step p 0x04 (case la_mode args of Preload \<Rightarrow> 0 | Loop \<Rightarrow> 2)
      (reg_step p 0x00 0x4 (m, g, ps, ss))))))))))))))))) = (m, g(p := g1), ps @ [(p, Clear)], ss)"
    by (cases "la_mode args"; cases "g p") (simp_all add: g1_def reg_step_eq axi_simps Let_def bit_word_of_int_iff)
  show ?thesis
    unfolding load_registers_def n_def [symmetric]
    apply ((rule write32_then [OF p], simp | rule write64_then [OF p], simp, simp)+)
    apply (unfold w)
    apply (rule spec_bind [OF debug_step [OF p]])
    apply (rule spec_conseq [OF start])
      apply assumption
     apply (cases "la_mode args"; cases "g p"; simp add: g1_def loaded_cfg_def n_def Let_def)
    apply assumption
    done
qed

lemma load_main_spec:
  assumes p: "la_port args < 2" "la_reg_base args = None" and c: "read_size_ok (la_chunk_bytes args)"
    and d: "require_file fs (la_desc (load_manifest args)) ''--desc'' = Inr desc"
    and e: "require_file fs (la_data (load_manifest args)) ''--data'' = Inr data"
    and l: "length desc mod 64 = 0"
  shows "spec (\<lambda>w. static (view w) = (m, g, ps, ss)) (load_main os fs args)
     (\<lambda>_ w. let m' = write_mem (write_mem m (la_desc_base args) desc) (la_data_base args) data;
          g' = g(la_port args := loaded_cfg args (int (length desc)) (int (length data)) (g (la_port args)))
        in static (view w) = (m', g', ps @ (la_port args, Clear) # (if la_no_start args then [] else [(la_port args, Start)]),
             ss @ (if la_no_start args then [] else [(la_port args, m', g')]))) E"
proof -
  define a where "a = load_manifest args"
  have same: "la_port a = la_port args" "la_reg_base a = None" "la_chunk_bytes a = la_chunk_bytes args"
    "la_desc_base a = la_desc_base args" "la_data_base a = la_data_base args" "la_no_start a = la_no_start args"
    "loaded_cfg a = loaded_cfg args"
    using p by (auto simp: a_def load_manifest_def loaded_cfg_def fun_eq_iff Let_def split: option.splits)
  have mod: "int (length desc) mod 64 = 0" using l by presburger
  show ?thesis
    unfolding load_main_def Let_def a_def [symmetric] d [folded a_def] e [folded a_def] bind_lift_Inr p option.case
    unfolding mod same simp_thms if_False
    apply (rule spec_bind [OF dma_static(1) [OF c]])
    apply (rule spec_bind [OF dma_static(1) [OF c]])
    apply (rule spec_conseq [OF load_registers_spec [OF p(1), where E = E]])
      apply assumption
     apply (simp only: same loaded_cfg_pkt_count Let_def)
    apply assumption
    done
qed

end

section \<open>Correctness\<close>

lemma load_main_loads:
  assumes "la_port args < 2" and "la_reg_base args = None" and "read_size_ok (la_chunk_bytes args)"
    and "require_file fs (la_desc (load_manifest args)) ''--desc'' = Inr desc"
    and "require_file fs (la_data (load_manifest args)) ''--data'' = Inr data"
    and "length desc mod 64 = 0"
  shows "\<exists>w. load_main (board_os hw) fs args b = Some (Inr (), w)
     \<and> c_mem (bd_card w) = write_mem (write_mem (c_mem (bd_card b)) (la_desc_base args) desc) (la_data_base args) data
     \<and> c_cfg (bd_card w) = (c_cfg (bd_card b))(la_port args :=
         loaded_cfg args (int (length desc)) (int (length data)) (c_cfg (bd_card b) (la_port args)))
     \<and> c_pulses (bd_card w) = c_pulses (bd_card b) @ (la_port args, Clear) # (if la_no_start args then [] else [(la_port args, Start)])
     \<and> c_starts (bd_card w) = c_starts (bd_card b)
         @ (if la_no_start args then [] else [(la_port args, c_mem (bd_card w), c_cfg (bd_card w))])"
proof -
  from spec_returns [OF board.load_main_spec [OF assms], of b "c_mem (bd_card b)" "c_cfg (bd_card b)" "c_pulses (bd_card b)"
      "c_starts (bd_card b)" hw]
  obtain w where w: "load_main (board_os hw) fs args b = Some (Inr (), w)"
    "let m' = write_mem (write_mem (c_mem (bd_card b)) (la_desc_base args) desc) (la_data_base args) data;
       g' = (c_cfg (bd_card b))(la_port args := loaded_cfg args (int (length desc)) (int (length data)) (c_cfg (bd_card b) (la_port args)))
     in static (bd_card w) = (m', g', c_pulses (bd_card b) @ (la_port args, Clear) # (if la_no_start args then [] else [(la_port args, Start)]),
       c_starts (bd_card b) @ (if la_no_start args then [] else [(la_port args, m', g')]))"
    by (auto simp: static_def)
  note after = w(2) [unfolded Let_def static_def prod.inject]
  show ?thesis
    by (intro exI [of _ w]) (simp only: w(1) after simp_thms)
qed

text \<open>C8: The loader programs the card.  For any card behaviour: if both files exist, the descriptor
  file is whole, the two memory regions do not overlap and the chunk size is -1 or positive (below
  \<open>2^63\<close>), the program returns; the card's memory holds both files at their base addresses, the port's
  registers hold the requested configuration with the packet count of the descriptor file, and the
  other port is untouched.  The port has received a clear and then, unless --no-start is given, one
  start; and at the moment of that start memory and configuration were already those the program
  leaves behind.\<close>

theorem load_trace_programs_card:
  assumes "la_port args < 2" and "la_reg_base args = None" and "read_size_ok (la_chunk_bytes args)"
    and "require_file fs (la_desc (load_manifest args)) ''--desc'' = Inr desc"
    and "require_file fs (la_data (load_manifest args)) ''--data'' = Inr data"
    and "length desc mod 64 = 0"
    and "la_desc_base args + int (length desc) \<le> la_data_base args \<or> la_data_base args + int (length data) \<le> la_desc_base args"
  shows "\<exists>w. load_main (board_os hw) fs args b = Some (Inr (), w)
     \<and> read_mem (c_mem (bd_card w)) (la_desc_base args) (length desc) = desc
     \<and> read_mem (c_mem (bd_card w)) (la_data_base args) (length data) = data
     \<and> c_cfg (bd_card w) = (c_cfg (bd_card b))(la_port args :=
         loaded_cfg args (int (length desc)) (int (length data)) (c_cfg (bd_card b) (la_port args)))
     \<and> c_pulses (bd_card w) = c_pulses (bd_card b) @ (la_port args, Clear) # (if la_no_start args then [] else [(la_port args, Start)])
     \<and> c_starts (bd_card w) = c_starts (bd_card b)
         @ (if la_no_start args then [] else [(la_port args, c_mem (bd_card w), c_cfg (bd_card w))])"
  using load_main_loads [OF assms(1-6), of hw b] assms(7) by (auto simp: read_write_mem_other)

definition demo_load_args :: load_args where
  "demo_load_args = \<lparr> la_manifest = Some (''/tmp/trace'', ''out/desc.bin'', ''out/data.bin''), la_desc = None, la_data = None,
     la_port = 1, la_reg_base = None, la_desc_base = 0x400000000, la_data_base = 0x410000000, la_mode = Loop,
     la_loop_count = 7, la_loop_gap = 0, la_start_time = 0, la_rate_q16_16 = 0x10000, la_force_link_up = True,
     la_clear_force_link_up = False, la_force_tx_ready = False, la_clear_force_tx_ready = False,
     la_auto_drop = False, la_no_auto_drop = True, la_no_start = False, la_chunk_bytes = 4194304 \<rparr>"

theorem load_trace_programs_card_witness:
  "\<exists>w. load_main (board_os demo_hw) [''/tmp/trace/desc.bin'' \<mapsto> replicate 64 1, ''/tmp/trace/data.bin'' \<mapsto> replicate 64 2]
       demo_load_args demo_board = Some (Inr (), w)
     \<and> cfg_pkt_count (c_cfg (bd_card w) 1) = 1 \<and> cfg_desc_base (c_cfg (bd_card w) 1) = 0x400000000
     \<and> c_pulses (bd_card w) = [(1, Clear), (1, Start)] \<and> c_starts (bd_card w) = [(1, c_mem (bd_card w), c_cfg (bd_card w))]"
proof -
  let ?fs = "[''/tmp/trace/desc.bin'' \<mapsto> replicate 64 1, ''/tmp/trace/data.bin'' \<mapsto> replicate 64 2] :: string \<Rightarrow> bytes option"
  have "la_desc (load_manifest demo_load_args) = Some ''/tmp/trace/desc.bin''"
    "la_data (load_manifest demo_load_args) = Some ''/tmp/trace/data.bin''" by code_simp+
  then have "require_file ?fs (la_desc (load_manifest demo_load_args)) ''--desc'' = Inr (replicate 64 1)"
    "require_file ?fs (la_data (load_manifest demo_load_args)) ''--data'' = Inr (replicate 64 2)"
    by (simp_all add: require_file_def)
  from load_trace_programs_card [OF _ _ _ this, where hw = demo_hw and b = demo_board]
  show ?thesis by (auto simp: demo_load_args_def demo_board_def loaded_cfg_def read_size_ok_def)
qed

text \<open>A refused load leaves the card alone.  If a file is missing, or the descriptor file is not a whole
  number of 64-byte descriptors, the program stops with the matching message before any access.\<close>

theorem load_refuses_bad_files:
  assumes "require_file fs (la_desc (load_manifest args)) ''--desc'' = d"
    and "require_file fs (la_data (load_manifest args)) ''--data'' = e"
  shows "(\<forall>x. d = Inl x \<longrightarrow> load_main os fs args w = Some (Inl x, w))
     \<and> (\<forall>desc x. d = Inr desc \<and> e = Inl x \<longrightarrow> load_main os fs args w = Some (Inl x, w))
     \<and> (\<forall>desc data. d = Inr desc \<and> e = Inr data \<and> length desc mod 64 \<noteq> 0 \<longrightarrow> load_main os fs args w =
          Some (Inl (SystemExit (''descriptor file size must be a multiple of 64: '' @ show_int (int (length desc)))), w))"
proof -
  have "int (length desc) mod 64 \<noteq> 0" if "length desc mod 64 \<noteq> 0" for desc :: bytes using that by presburger
  then show ?thesis using assms by (auto simp: load_main_def Let_def raise_def)
qed

theorem load_refuses_bad_files_witness:
  "load_main (board_os demo_hw) [''/tmp/trace/desc.bin'' \<mapsto> [1, 2, 3], ''/tmp/trace/data.bin'' \<mapsto> [4]] demo_load_args demo_board
   = Some (Inl (SystemExit ''descriptor file size must be a multiple of 64: 3''), demo_board)"
proof -
  let ?fs = "[''/tmp/trace/desc.bin'' \<mapsto> [1, 2, 3], ''/tmp/trace/data.bin'' \<mapsto> [4]] :: string \<Rightarrow> bytes option"
  have "la_desc (load_manifest demo_load_args) = Some ''/tmp/trace/desc.bin''"
    "la_data (load_manifest demo_load_args) = Some ''/tmp/trace/data.bin''" by code_simp+
  then have "require_file ?fs (la_desc (load_manifest demo_load_args)) ''--desc'' = Inr [1, 2, 3]"
    "require_file ?fs (la_data (load_manifest demo_load_args)) ''--data'' = Inr [4]"
    by (simp_all add: require_file_def)
  moreover have "show_int 3 = ''3''" by code_simp
  ultimately show ?thesis
    using load_refuses_bad_files [of ?fs demo_load_args "Inr [1, 2, 3]" "Inr [4]" "board_os demo_hw" demo_board] by simp
qed

end
