(* ===== verification/PreloadRun.thy ===== *)
theory PreloadRun
  imports Card PatternTrace
begin

text \<open>
  preload_stress_test.py and preload_mixed_test.py: write a trace, copy it to the card, program and
  start a port, wait for it to finish or for a timeout, read the counters and judge them.  The
  measured times and rates are floats, rounded operation by operation.
\<close>

unbundle bit_operations_syntax

section \<open>Arguments\<close>

text \<open>The fields \<open>configure_and_start\<close> reads; the other tools build them as an argparse.Namespace.\<close>

record run_args =
  ra_desc_base :: int
  ra_data_base :: int
  ra_packet_count :: int
  ra_rate_q16_16 :: int
  ra_force_link_up :: bool
  ra_force_tx_ready :: bool
  ra_no_auto_drop :: bool

record test_args = run_args +
  ta_port :: nat
  ta_reg_base :: "int option"
  ta_cases :: "(int \<times> int) list"
  ta_tick_hz :: int
  ta_wire_overhead_bytes :: int
  ta_require_no_drop :: bool
  ta_timeout :: rat
  ta_chunk_bytes :: int

text \<open>The base addresses \<open>parse_args\<close> fills in.\<close>

definition default_desc_base :: "int option \<Rightarrow> nat \<Rightarrow> int" where
  "default_desc_base arg port = (case arg of Some b \<Rightarrow> b | None \<Rightarrow> if port = 0 then 0x00000000 else 0x400000000)"

definition default_data_base :: "int option \<Rightarrow> nat \<Rightarrow> int" where
  "default_data_base arg port = (case arg of Some b \<Rightarrow> b | None \<Rightarrow> if port = 0 then 0x10000000 else 0x410000000)"

section \<open>Control\<close>

definition start_debug :: "'a run_args_scheme \<Rightarrow> int \<Rightarrow> int" where
  "start_debug args debug =
     (let debug = (if ra_force_link_up args then debug OR 0x1 else debug);
          debug = (if ra_force_tx_ready args then debug OR 0x2 else debug)
      in if ra_no_auto_drop args then debug AND NOT 0x4 else debug OR 0x4)"

definition configure_and_start :: "'w os \<Rightarrow> int \<Rightarrow> 'a run_args_scheme \<Rightarrow> int \<Rightarrow> int \<Rightarrow> ('w, unit) io" where
  "configure_and_start os base args desc_size data_size =
     seq_io (write32 os (base + 0x00) 0x2)
    (seq_io (sleep os (1 / 1000))
    (seq_io (write32 os (base + 0x00) 0x4)
    (seq_io (sleep os (1 / 1000))
    (seq_io (write32 os (base + 0x04) 0)
    (seq_io (write64 os (base + 0x10) (base + 0x14) (ra_desc_base args))
    (seq_io (write64 os (base + 0x18) (base + 0x1c) (ra_data_base args))
    (seq_io (write64 os (base + 0x20) (base + 0x24) (desc_size + data_size))
    (seq_io (write64 os (base + 0x28) (base + 0x2c) (ra_packet_count args))
    (seq_io (write64 os (base + 0x40) (base + 0x44) 0)
    (seq_io (write32 os (base + 0x48) (ra_rate_q16_16 args))
    (seq_io (bind_io (read32 os (base + 0x54)) (\<lambda>debug. write32 os (base + 0x54) (start_debug args debug)))
    (write32 os (base + 0x00) 0x1))))))))))))"

definition stop_and_clear :: "'w os \<Rightarrow> int \<Rightarrow> ('w, unit) io" where
  "stop_and_clear os base =
     seq_io (write32 os (base + 0x00) 0x2)
    (seq_io (sleep os (1 / 1000))
    (seq_io (write32 os (base + 0x00) 0x4)
    (sleep os (1 / 1000))))"

definition elapsed :: "'w os \<Rightarrow> rat \<Rightarrow> ('w, rat) io" where
  "elapsed os start = bind_io (perf_counter os) (\<lambda>t. ret (fl (t - start)))"

definition wait_done :: "'w os \<Rightarrow> int \<Rightarrow> int \<Rightarrow> rat \<Rightarrow> ('w, bool \<times> rat) io" where
  "wait_done os base packet_count timeout_s = bind_io (perf_counter os) (\<lambda>start. loop_io (\<lambda>_.
     bind_io (read32 os (base + 0x08)) (\<lambda>status.
     bind_io (read64 os (base + 0x60) (base + 0x64)) (\<lambda>tx_pkts.
     if status AND 0x2 \<noteq> 0 \<and> status AND 0x1 = 0
     then bind_io (elapsed os start) (\<lambda>t. ret (Break (True, t)))
     else if packet_count \<le> tx_pkts \<and> status AND 0x1 = 0
     then bind_io (elapsed os start) (\<lambda>t. ret (Break (True, t)))
     else bind_io (elapsed os start) (\<lambda>t.
       if timeout_s < t then bind_io (elapsed os start) (\<lambda>t. ret (Break (False, t)))
       else seq_io (sleep os (5 / 1000)) (ret (Continue ())))))) ())"

section \<open>Counters\<close>

record tx_counters =
  tx_pkts :: int
  tx_bytes :: int
  late_pkts :: int
  underrun_pkts :: int
  drop_pkts :: int
  drop_beats :: int
  stall_events :: int
  ticks :: int

definition read_counters :: "'w os \<Rightarrow> int \<Rightarrow> ('w, tx_counters) io" where
  "read_counters os base =
     bind_io (read64 os (base + 0x60) (base + 0x64)) (\<lambda>tx_pkts.
     bind_io (read64 os (base + 0x68) (base + 0x6c)) (\<lambda>tx_bytes.
     bind_io (read64 os (base + 0x70) (base + 0x74)) (\<lambda>late_pkts.
     bind_io (read64 os (base + 0x78) (base + 0x7c)) (\<lambda>underrun_pkts.
     bind_io (read64 os (base + 0xc8) (base + 0xcc)) (\<lambda>drop_pkts.
     bind_io (read64 os (base + 0xd0) (base + 0xd4)) (\<lambda>drop_beats.
     bind_io (read64 os (base + 0xd8) (base + 0xdc)) (\<lambda>stall_events.
     bind_io (read64 os (base + 0x94) (base + 0x98)) (\<lambda>ticks.
     ret \<lparr> tx_pkts = tx_pkts, tx_bytes = tx_bytes, late_pkts = late_pkts, underrun_pkts = underrun_pkts,
           drop_pkts = drop_pkts, drop_beats = drop_beats, stall_events = stall_events, ticks = ticks \<rparr>))))))))"

text \<open>\<^verbatim>\<open>n / s / 1e9\<close> for an integer and a float, zero when no time was measured.\<close>

definition per_second_1e9 :: "int \<Rightarrow> rat \<Rightarrow> rat" where
  "per_second_1e9 n s = (if s > 0 then fl (fl (fl (of_int n) / s) / 1000000000) else 0)"

definition scheduled_seconds :: "int \<Rightarrow> int \<Rightarrow> rat \<Rightarrow> rat res" where
  "scheduled_seconds n tick_hz wall = (if n \<noteq> 0 then py_truediv n tick_hz else Inr wall)"

section \<open>The stress test\<close>

record case_result =
  cr_frame_len :: int
  cr_gap_ticks :: int
  cr_packet_count :: int
  cr_completed :: bool
  cr_counters :: tx_counters
  cr_delivered :: int
  cr_scheduled_seconds :: rat
  cr_wall_seconds :: rat
  cr_l2_gbps :: rat
  cr_wire_gbps :: rat
  cr_load_seconds :: rat
  cr_load_gbps :: rat

definition stress_unclean :: "tx_counters \<Rightarrow> bool" where
  "stress_unclean c \<longleftrightarrow> drop_pkts c \<noteq> 0 \<or> drop_beats c \<noteq> 0 \<or> stall_events c \<noteq> 0 \<or> late_pkts c \<noteq> 0 \<or> underrun_pkts c \<noteq> 0"

definition run_case :: "'w os \<Rightarrow> test_args \<Rightarrow> int \<Rightarrow> int \<Rightarrow> int \<Rightarrow> ('w, case_result) io" where
  "run_case os args base frame_len gap_ticks =
     bind_io (lift_res (pst_make_trace (ra_packet_count args) frame_len gap_ticks)) (\<lambda>(out, desc_size, data_size).
     bind_io (perf_counter os) (\<lambda>load_start.
     seq_io (pwrite_file os (tr_desc_file out) (ra_desc_base args) (ta_chunk_bytes args))
    (seq_io (pwrite_file os (tr_data_file out) (ra_data_base args) (ta_chunk_bytes args))
    (bind_io (elapsed os load_start) (\<lambda>load_seconds.
     seq_io (configure_and_start os base args desc_size data_size)
    (bind_io (wait_done os base (ra_packet_count args) (ta_timeout args)) (\<lambda>(completed, wall_seconds).
     bind_io (read_counters os base) (\<lambda>c.
     seq_io (if completed then ret () else stop_and_clear os base)
    (bind_io (lift_res (scheduled_seconds (ticks c) (ta_tick_hz args) wall_seconds)) (\<lambda>seconds.
     let delivered = max 0 (tx_pkts c - drop_pkts c);
         delivered_bytes = delivered * frame_len;
         result = \<lparr> cr_frame_len = frame_len, cr_gap_ticks = gap_ticks, cr_packet_count = ra_packet_count args,
           cr_completed = completed, cr_counters = c, cr_delivered = delivered,
           cr_scheduled_seconds = seconds, cr_wall_seconds = wall_seconds,
           cr_l2_gbps = per_second_1e9 (delivered_bytes * 8) seconds,
           cr_wire_gbps = per_second_1e9 (delivered * (frame_len + ta_wire_overhead_bytes args) * 8) seconds,
           cr_load_seconds = load_seconds, cr_load_gbps = per_second_1e9 ((desc_size + data_size) * 8) load_seconds \<rparr>
     in if ta_require_no_drop args \<and> stress_unclean c
        then raise (SystemExit (''strict preload case failed: frame_len='' @ show_int frame_len @ '' gap='' @ show_int gap_ticks))
        else ret result))))))))))"

definition stress_cases :: "test_args \<Rightarrow> (int \<times> int) list" where
  "stress_cases args = (if ta_cases args = [] then [(64, 3), (1518, 38), (64, 2), (1518, 0)] else ta_cases args)"

definition stress_main :: "'w os \<Rightarrow> test_args \<Rightarrow> ('w, case_result list) io" where
  "stress_main os args =
    (if ra_packet_count args \<le> 0 then raise (SystemExit ''--packet-count must be positive'')
     else let cases = stress_cases args;
              reg_base = (case ta_reg_base args of None \<Rightarrow> tx_port_base (ta_port args) | Some b \<Rightarrow> b)
          in on_error
               (for_io cases (\<lambda>(frame_len, gap_ticks) results.
                  bind_io (run_case os args reg_base frame_len gap_ticks) (\<lambda>r. ret (results @ [r]))) [])
               (stop_and_clear os reg_base))"

section \<open>The mixed test\<close>

record mixed_result =
  mr_completed :: bool
  mr_counters :: tx_counters
  mr_expected_ticks :: int
  mr_tick_error :: int
  mr_scheduled_seconds :: rat
  mr_wall_seconds :: rat
  mr_l2_gbps :: rat
  mr_wire_gbps :: rat
  mr_load_seconds :: rat
  mr_load_gbps :: rat

text \<open>\<^verbatim>\<open>int(n * ratio)\<close> truncates toward zero.\<close>

definition py_trunc :: "rat \<Rightarrow> int" where
  "py_trunc x = (if 0 \<le> x then \<lfloor>x\<rfloor> else \<lceil>x\<rceil>)"

definition wire_payload :: "int \<Rightarrow> (int \<times> int) list \<Rightarrow> int \<Rightarrow> int" where
  "wire_payload packet_count pattern overhead =
     fold (\<lambda>pkt_idx acc. acc + fst (pattern ! (pkt_idx mod length pattern)) + overhead) [0..<nat packet_count] 0"

definition mixed_main :: "'w os \<Rightarrow> test_args \<Rightarrow> ('w, mixed_result) io" where
  "mixed_main os args =
    (let base = tx_port_base (ta_port args); n = ra_packet_count args; pattern = ta_cases args in
     bind_io (lift_res (make_mixed_trace n pattern)) (\<lambda>(st, desc_size, data_size).
     bind_io (perf_counter os) (\<lambda>load_start.
     seq_io (pwrite_file os (tr_desc_file (mx_out st)) (ra_desc_base args) (ta_chunk_bytes args))
    (seq_io (pwrite_file os (tr_data_file (mx_out st)) (ra_data_base args) (ta_chunk_bytes args))
    (bind_io (elapsed os load_start) (\<lambda>load_seconds.
     seq_io (configure_and_start os base args desc_size data_size)
    (bind_io (wait_done os base n (ta_timeout args)) (\<lambda>(completed, wall_seconds).
     bind_io (read_counters os base) (\<lambda>c.
     seq_io (if completed then ret () else stop_and_clear os base)
    (bind_io (lift_res (scheduled_seconds (ticks c) (ta_tick_hz args) wall_seconds)) (\<lambda>seconds.
     let delivered = max 0 (tx_pkts c - drop_pkts c);
         ratio = (if tx_pkts c \<noteq> 0 then fl (of_int delivered / of_int (tx_pkts c)) else 0);
         delivered_payload = py_trunc (fl (fl (of_int (mx_payload_bytes st)) * ratio));
         delivered_wire = py_trunc (fl (fl (of_int (wire_payload n pattern (ta_wire_overhead_bytes args))) * ratio));
         result = \<lparr> mr_completed = completed, mr_counters = c, mr_expected_ticks = mx_expected_ticks st,
           mr_tick_error = ticks c - mx_expected_ticks st,
           mr_scheduled_seconds = seconds, mr_wall_seconds = wall_seconds,
           mr_l2_gbps = per_second_1e9 (delivered_payload * 8) seconds,
           mr_wire_gbps = per_second_1e9 (delivered_wire * 8) seconds,
           mr_load_seconds = load_seconds, mr_load_gbps = per_second_1e9 ((desc_size + data_size) * 8) load_seconds \<rparr>
     in if ta_require_no_drop args \<and> (\<not> completed \<or> drop_pkts c \<noteq> 0 \<or> late_pkts c \<noteq> 0 \<or> underrun_pkts c \<noteq> 0 \<or> stall_events c \<noteq> 0)
        then raise (SystemExit ''strict mixed preload case failed'')
        else ret result)))))))))))"

section \<open>On the card\<close>

text \<open>The configuration a run leaves on its port.\<close>

definition run_cfg :: "'a run_args_scheme \<Rightarrow> int \<Rightarrow> int \<Rightarrow> axi_cfg \<Rightarrow> axi_cfg" where
  "run_cfg args desc_size data_size c = c\<lparr>
     pause := False, cfg_mode := 0,
     cfg_desc_base := word_of_int (ra_desc_base args), cfg_data_base := word_of_int (ra_data_base args),
     cfg_trace_bytes := word_of_int (desc_size + data_size), cfg_pkt_count := word_of_int (ra_packet_count args),
     cfg_start_time := 0, cfg_rate_q16_16 := word_of_int (ra_rate_q16_16 args),
     cfg_stream_write_count := 0, cfg_stream_write_shadow := 0, cfg_stream_eof := False, cfg_stream_pingpong := False,
     cfg_force_link_up := (ra_force_link_up args \<or> cfg_force_link_up c),
     cfg_force_tx_ready := (ra_force_tx_ready args \<or> cfg_force_tx_ready c),
     cfg_auto_tx_drop := (\<not> ra_no_auto_drop args) \<rparr>"

lemma start_debug_bits:
  "bit (start_debug args (debug_value c)) 0 = (ra_force_link_up args \<or> cfg_force_link_up c)"
  "bit (start_debug args (debug_value c)) (Suc 0) = (ra_force_tx_ready args \<or> cfg_force_tx_ready c)"
  "bit (start_debug args (debug_value c)) 2 = (\<not> ra_no_auto_drop args)"
  by (cases "cfg_force_link_up c"; cases "cfg_force_tx_ready c"; cases "cfg_auto_tx_drop c";
      simp add: start_debug_def debug_value_def flags_word_3 Let_def bit_or_iff bit_and_iff bit_not_iff)+

lemma run_cfg_cleared [simp]:
  "(run_cfg args d e c)\<lparr>pause := False\<rparr> = run_cfg args d e c"
  "(run_cfg args d e c)\<lparr>cfg_stream_write_count := 0, cfg_stream_write_shadow := 0,
       cfg_stream_eof := False, cfg_stream_pingpong := False\<rparr> = run_cfg args d e c"
  by (cases c; simp add: run_cfg_def)+

context replay_card begin

lemma stop_and_clear_static:
  assumes p: "p < 2"
  shows "spec (\<lambda>w. static (view w) = (m, g, ps, ss)) (stop_and_clear os (tx_port_base p))
    (\<lambda>_ w. static (view w) = (m, g(p := (g p)\<lparr>pause := False, cfg_stream_write_count := 0, cfg_stream_write_shadow := 0,
       cfg_stream_eof := False, cfg_stream_pingpong := False\<rparr>), ps @ [(p, Stop), (p, Clear)], ss)) E"
proof -
  have w: "reg_step p 0x00 0x4 (reg_step p 0x00 0x2 (m, g, ps, ss)) = (m, g(p := (g p)\<lparr>pause := False, cfg_stream_write_count := 0,
       cfg_stream_write_shadow := 0, cfg_stream_eof := False, cfg_stream_pingpong := False\<rparr>), ps @ [(p, Stop), (p, Clear)], ss)"
    by (simp add: reg_step_eq axi_simps Let_def bit_word_of_int_iff)
  show ?thesis
    unfolding stop_and_clear_def
    apply (rule write32_then [OF p], simp, rule sleep_then, rule write32_then [OF p], simp)
    apply (unfold w, rule sleep_static)
    done
qed

lemma configure_and_start_static:
  assumes p: "p < 2"
  shows "spec (\<lambda>w. static (view w) = (m, g, ps, ss)) (configure_and_start os (tx_port_base p) args desc_size data_size)
    (\<lambda>_ w. let g' = g(p := run_cfg args desc_size data_size (g p))
       in static (view w) = (m, g', ps @ [(p, Stop), (p, Clear), (p, Start)], ss @ [(p, m, g')])) E"
proof -
  define n where "n = desc_size + data_size"
  define g1 where "g1 = (g p)\<lparr>
     pause := False, cfg_mode := 0,
     cfg_desc_base := word_of_int (ra_desc_base args), cfg_data_base := word_of_int (ra_data_base args),
     cfg_trace_bytes := word_of_int n, cfg_pkt_count := word_of_int (ra_packet_count args),
     cfg_start_time := 0, cfg_rate_q16_16 := word_of_int (ra_rate_q16_16 args),
     cfg_stream_write_count := 0, cfg_stream_write_shadow := 0, cfg_stream_eof := False, cfg_stream_pingpong := False\<rparr>"
  have w: "reg_step p 0x48 (ra_rate_q16_16 args)
      (reg_step p 0x44 (drop_bit 32 0) (reg_step p 0x40 0
      (reg_step p 0x2c (drop_bit 32 (ra_packet_count args)) (reg_step p 0x28 (ra_packet_count args)
      (reg_step p 0x24 (drop_bit 32 n) (reg_step p 0x20 n
      (reg_step p 0x1c (drop_bit 32 (ra_data_base args)) (reg_step p 0x18 (ra_data_base args)
      (reg_step p 0x14 (drop_bit 32 (ra_desc_base args)) (reg_step p 0x10 (ra_desc_base args)
      (reg_step p 0x04 0 (reg_step p 0x00 0x4 (reg_step p 0x00 0x2 (m, g, ps, ss)))))))))))))) = (m, g(p := g1), ps @ [(p, Stop), (p, Clear)], ss)"
    by (cases "g p") (simp add: g1_def reg_step_eq axi_simps Let_def bit_word_of_int_iff)
  have start: "spec (\<lambda>w. static (view w) = (m, g', ps', ss)) (write32 os (tx_port_base p + 0x00) 0x1)
      (\<lambda>_ w. let g'' = g'(p := (g' p)\<lparr>pause := False\<rparr>)
        in static (view w) = (m, g'', ps' @ [(p, Start)], ss @ [(p, m, g'')])) E" for g' ps'
    using write32_static [OF decode_port [OF p, of 0], of "(m, g', ps', ss)" 1]
    by (simp add: reg_step_eq axi_simps Let_def bit_word_of_int_iff)
  show ?thesis
    unfolding configure_and_start_def n_def [symmetric]
    apply ((rule write32_then [OF p], simp | rule write64_then [OF p], simp, simp | rule sleep_then)+)
    apply (unfold w)
    apply (rule spec_bind [OF rmw_debug [OF p]])
    apply (rule spec_conseq [OF start])
      apply assumption
     apply (cases "g p"; simp add: g1_def run_cfg_def n_def Let_def start_debug_bits)
    apply assumption
    done
qed

end

context timed_card begin

text \<open>Programs without loops keep the bound of the time, since time does not run backwards.\<close>

lemma elapsed_holds:
  assumes "\<And>k c. P c \<Longrightarrow> P (card_advance k c)"
  shows "spec (holds P T) (elapsed os start) (\<lambda>t w. holds P T w \<and> fl (fl T - start) \<le> t) E"
  unfolding elapsed_def
proof (rule spec_bind [OF clock_holds [where P = P, OF assms]], assumption)
  show "spec (\<lambda>w. holds P T w \<and> fl T \<le> t) (ret (fl (t - start))) (\<lambda>t w. holds P T w \<and> fl (fl T - start) \<le> t) E" for t
    by (rule spec_ret) (auto intro: fl_mono)
qed

lemma elapsed_stay: "spec (stay s T) (elapsed os start) (\<lambda>t w. stay s T w \<and> fl (fl T - start) \<le> t) E"
  unfolding elapsed_def
proof (rule spec_bind [OF clock_stay])
  show "spec (\<lambda>w. stay s T w \<and> fl T \<le> t) (ret (fl (t - start))) (\<lambda>t w. stay s T w \<and> fl (fl T - start) \<le> t) E" for t
    by (rule spec_ret) (auto intro: fl_mono)
qed

lemma read64_stay:
  assumes "decode lo = Some (p, lo')" and "decode hi = Some (p, hi')"
  shows "spec (stay (m, g, ps) T) (read64 os lo hi) (\<lambda>x w. stay (m, g, ps) T w) E"
  unfolding read64_def
proof (rule spec_bind [OF read32_stay [OF assms(1)]], rule spec_assume, rule spec_bind [OF read32_stay [OF assms(2)]])
  show "spec (\<lambda>w. stay (m, g, ps) (T + access_time + access_time) w \<and> (\<exists>s. h = uint (axi_read hi' (g p) s)))
      (ret (l OR push_bit 32 h)) (\<lambda>x. stay (m, g, ps) T) E" for l h
    by (rule spec_ret) (auto simp: stay_def access_time_def)
qed

lemma elapsed_static: "spec (\<lambda>w. static (view w) = s) (elapsed os start) (\<lambda>t w. static (view w) = s) E"
  unfolding elapsed_def by (rule spec_bind [OF clock_static], rule spec_ret)

lemma wait_done_static:
  assumes p: "p < 2"
  shows "spec (\<lambda>w. static (view w) = (m, g, ps)) (wait_done os (tx_port_base p) n timeout) (\<lambda>_ w. static (view w) = (m, g, ps)) E"
  unfolding wait_done_def
proof (rule spec_bind [OF clock_static], rule stay_any)
  fix start T
  obtain L where L: "timeout < fl (fl t - start)" if "L \<le> t" for t using elapsed_passes by blast
  let ?s = "(m, g, ps)"
  have found: "spec (stay ?s T') (bind_io (elapsed os start) (\<lambda>t. ret (Break (b, t))))
      (\<lambda>c w. case c of Continue u \<Rightarrow> stay ?s (T + access_time) w \<and> T < L | Break x \<Rightarrow> static (view w) = ?s) E" for b T' T
    by (rule spec_bind [OF elapsed_stay], rule spec_ret) (auto simp: stay_def)
  have waited: "spec (stay ?s (T + access_time)) (bind_io (elapsed os start) (\<lambda>t.
       if timeout < t then bind_io (elapsed os start) (\<lambda>t. ret (Break (False, t)))
       else seq_io (sleep os (5 / 1000)) (ret (Continue ()))))
      (\<lambda>c w. case c of Continue u \<Rightarrow> stay ?s (T + access_time) w \<and> T < L | Break x \<Rightarrow> static (view w) = ?s) E" for T
  proof (rule spec_bind [OF elapsed_stay], rule spec_assume)
    fix t assume t: "fl (fl (T + access_time) - start) \<le> t"
    show "spec (stay ?s (T + access_time)) (if timeout < t then bind_io (elapsed os start) (\<lambda>t. ret (Break (False, t)))
        else seq_io (sleep os (5 / 1000)) (ret (Continue ())))
      (\<lambda>c w. case c of Continue u \<Rightarrow> stay ?s (T + access_time) w \<and> T < L | Break x \<Rightarrow> static (view w) = ?s) E"
    proof (cases "timeout < t")
      case True
      then show ?thesis by (simp add: found)
    next
      case False
      have "T < L"
      proof (rule ccontr)
        assume "\<not> T < L"
        then have "timeout < fl (fl (T + access_time) - start)" by (intro L) (simp add: access_time_def)
        with False t show False by linarith
      qed
      then show ?thesis unfolding if_not_P [OF False]
        by (intro spec_bind [OF sleep_stay] spec_ret) (auto simp: stay_def access_time_def)
    qed
  qed
  show "spec (stay ?s T) (loop_io (\<lambda>_ :: unit.
     bind_io (read32 os (tx_port_base p + 0x08)) (\<lambda>status.
     bind_io (read64 os (tx_port_base p + 0x60) (tx_port_base p + 0x64)) (\<lambda>tx_pkts.
     if status AND 0x2 \<noteq> 0 \<and> status AND 0x1 = 0
     then bind_io (elapsed os start) (\<lambda>t. ret (Break (True, t)))
     else if n \<le> tx_pkts \<and> status AND 0x1 = 0
     then bind_io (elapsed os start) (\<lambda>t. ret (Break (True, t)))
     else bind_io (elapsed os start) (\<lambda>t.
       if timeout < t then bind_io (elapsed os start) (\<lambda>t. ret (Break (False, t)))
       else seq_io (sleep os (5 / 1000)) (ret (Continue ())))))) ()) (\<lambda>_ w. static (view w) = ?s) E"
  proof (rule spec_poll [where L = L])
    fix u :: unit and T
    show "spec (stay ?s T) (bind_io (read32 os (tx_port_base p + 0x08)) (\<lambda>status.
     bind_io (read64 os (tx_port_base p + 0x60) (tx_port_base p + 0x64)) (\<lambda>tx_pkts.
     if status AND 0x2 \<noteq> 0 \<and> status AND 0x1 = 0
     then bind_io (elapsed os start) (\<lambda>t. ret (Break (True, t)))
     else if n \<le> tx_pkts \<and> status AND 0x1 = 0
     then bind_io (elapsed os start) (\<lambda>t. ret (Break (True, t)))
     else bind_io (elapsed os start) (\<lambda>t.
       if timeout < t then bind_io (elapsed os start) (\<lambda>t. ret (Break (False, t)))
       else seq_io (sleep os (5 / 1000)) (ret (Continue ()))))))
      (\<lambda>c w. case c of Continue u \<Rightarrow> stay ?s (T + access_time) w \<and> T < L | Break x \<Rightarrow> static (view w) = ?s) E"
      by (rule spec_bind [OF read32_stay [OF decode_port [OF p]]], simp, simp, rule spec_assume,
          rule spec_bind [OF read64_stay [OF decode_port [OF p] decode_port [OF p]]], simp_all add: found waited)
  qed
qed

lemma read_counters_static:
  assumes p: "p < 2"
  shows "spec (\<lambda>w. static (view w) = (m, g, ps)) (read_counters os (tx_port_base p))
    (\<lambda>c w. static (view w) = (m, g, ps) \<and> 0 \<le> ticks c \<and> ticks c < 2 ^ 64) E"
  unfolding read_counters_def by (rule read64_then [OF p], simp, simp)+ (rule spec_ret, simp)

end

text \<open>
  The static part of the card after a run of a trace: the run is started on the memory and the
  configuration that hold the trace.
\<close>

definition ran :: "'a run_args_scheme \<Rightarrow> nat \<Rightarrow> trace_out \<Rightarrow> bool \<Rightarrow> (int \<Rightarrow> byte) \<times> (nat \<Rightarrow> axi_cfg) \<times> log_state
    \<Rightarrow> (int \<Rightarrow> byte) \<times> (nat \<Rightarrow> axi_cfg) \<times> log_state" where
  "ran args p out completed s = (case s of (m, g, ps, ss) \<Rightarrow>
     let m' = write_mem (write_mem m (ra_desc_base args) (tr_desc_file out)) (ra_data_base args) (tr_data_file out);
         g' = g(p := run_cfg args (int (length (tr_desc_file out))) (int (length (tr_data_file out))) (g p))
     in (m', g', ps @ [(p, Stop), (p, Clear), (p, Start)] @ (if completed then [] else [(p, Stop), (p, Clear)]), ss @ [(p, m', g')]))"

lemma scheduled_seconds_ok:
  assumes "0 \<le> n" and "n < 2 ^ 64" and "0 < tick_hz"
  shows "\<exists>x. scheduled_seconds n tick_hz wall = Inr x"
proof -
  have nn: "0 \<le> (of_int n / of_int tick_hz :: rat)" using assms by simp
  have "(of_int n / of_int tick_hz :: rat) \<le> of_int n" using assms by (simp add: divide_le_eq mult_le_cancel_left1)
  also have "\<dots> < 2 ^ 64" using assms(2) by (metis of_int_less_numeral_power_cancel_iff)
  also have "(2 :: rat) ^ 64 \<le> 2 ^ 1023" by (rule power_increasing) simp_all
  finally have "\<bar>of_int n / of_int tick_hz :: rat\<bar> \<le> 2 ^ 1023"
    unfolding abs_of_nonneg [OF nn] by (rule less_imp_le)
  from fl_bound [OF this] assms(3) show ?thesis
    by (auto simp: scheduled_seconds_def py_truediv_def Let_def simp del: power_numeral)
qed

text \<open>Between two cases of the stress test: the results so far and the cases left.\<close>

definition case_inv :: "test_args \<Rightarrow> (int \<times> int) list \<Rightarrow> case_result list \<Rightarrow> bool" where
  "case_inv args xs rs \<longleftrightarrow> map (\<lambda>r. (cr_frame_len r, cr_gap_ticks r)) rs @ xs = stress_cases args
     \<and> (ta_require_no_drop args \<longrightarrow> (\<forall>r \<in> set rs. \<not> stress_unclean (cr_counters r)))"

context timed_card begin

text \<open>The common part of the two tests, with what they do with the measurements left open.\<close>

lemma run_then:
  assumes p: "p < 2" and c: "read_size_ok (ta_chunk_bytes args)"
    and k: "\<And>load_seconds completed wall c. 0 \<le> ticks c \<Longrightarrow> ticks c < 2 ^ 64 \<Longrightarrow>
      spec (\<lambda>w. static (view w) = ran args p out completed (m, g, ps, ss)) (k load_seconds completed wall c) Q E"
  shows "spec (\<lambda>w. static (view w) = (m, g, ps, ss))
    (bind_io (perf_counter os) (\<lambda>load_start.
     seq_io (pwrite_file os (tr_desc_file out) (ra_desc_base args) (ta_chunk_bytes args))
    (seq_io (pwrite_file os (tr_data_file out) (ra_data_base args) (ta_chunk_bytes args))
    (bind_io (elapsed os load_start) (\<lambda>load_seconds.
     seq_io (configure_and_start os (tx_port_base p) args (int (length (tr_desc_file out))) (int (length (tr_data_file out))))
    (bind_io (wait_done os (tx_port_base p) n timeout) (\<lambda>(completed, wall_seconds).
     bind_io (read_counters os (tx_port_base p)) (\<lambda>c.
     seq_io (if completed then ret () else stop_and_clear os (tx_port_base p))
       (k load_seconds completed wall_seconds c))))))))) Q E"
proof -
  define m' where "m' = write_mem (write_mem m (ra_desc_base args) (tr_desc_file out)) (ra_data_base args) (tr_data_file out)"
  define g' where "g' = g(p := run_cfg args (int (length (tr_desc_file out))) (int (length (tr_data_file out))) (g p))"
  have stop: "spec (\<lambda>w. static (view w) = (m', g', ps @ [(p, Stop), (p, Clear), (p, Start)], ss @ [(p, m', g')]))
      (if completed then ret () else stop_and_clear os (tx_port_base p))
      (\<lambda>_ w. static (view w) = ran args p out completed (m, g, ps, ss)) E" for completed
  proof (cases completed)
    case True
    then show ?thesis by (auto intro!: spec_ret simp: ran_def m'_def g'_def Let_def)
  next
    case False
    then show ?thesis
      by (simp, intro spec_conseq [OF stop_and_clear_static [OF p, where E = E and m = m' and g = g'
            and ps = "ps @ [(p, Stop), (p, Clear), (p, Start)]" and ss = "ss @ [(p, m', g')]"]])
        (simp_all add: ran_def m'_def g'_def Let_def)
  qed
  show ?thesis
    apply (rule spec_bind [OF clock_static])
    apply (rule spec_bind [OF dma_static(2) [OF c]])
    apply (rule spec_bind [OF dma_static(2) [OF c]])
    apply (rule spec_bind [OF elapsed_static])
    apply (rule spec_bind [OF configure_and_start_static [OF p]], unfold Let_def)
    apply (rule spec_bind [OF wait_done_static [OF p]])
    apply (fold m'_def g'_def, rule spec_prod)
    apply (rule spec_bind [OF read_counters_static [OF p]], rule spec_assume, elim conjE)
    apply (rule spec_bind [OF stop])
    apply (rule k; assumption)
    done
qed

lemma run_case_static:
  assumes p: "p < 2" and c: "read_size_ok (ta_chunk_bytes args)" and hz: "0 < ta_tick_hz args"
    and t: "pst_make_trace (ra_packet_count args) frame_len gap =
      Inr (out, int (length (tr_desc_file out)), int (length (tr_data_file out)))"
  shows "spec (\<lambda>w. static (view w) = s) (run_case os args (tx_port_base p) frame_len gap)
    (\<lambda>r w. static (view w) = ran args p out (cr_completed r) s \<and> cr_frame_len r = frame_len \<and> cr_gap_ticks r = gap
       \<and> cr_packet_count r = ra_packet_count args
       \<and> cr_delivered r = max 0 (tx_pkts (cr_counters r) - drop_pkts (cr_counters r))
       \<and> (ta_require_no_drop args \<longrightarrow> \<not> stress_unclean (cr_counters r)))
    (\<lambda>e w. (\<exists>completed. static (view w) = ran args p out completed s) \<and> ta_require_no_drop args
       \<and> e = SystemExit (''strict preload case failed: frame_len='' @ show_int frame_len @ '' gap='' @ show_int gap))"
proof -
  obtain m g ps ss where s: "s = (m, g, ps, ss)" by (cases s) auto
  show ?thesis
    unfolding run_case_def t bind_lift_Inr prod.case s
  proof (rule run_then [OF p c])
    fix load_seconds completed wall and c :: tx_counters
    assume "0 \<le> ticks c" and "ticks c < 2 ^ 64"
    then obtain x where "scheduled_seconds (ticks c) (ta_tick_hz args) wall = Inr x"
      using scheduled_seconds_ok [OF _ _ hz] by blast
    then show "spec (\<lambda>w. static (view w) = ran args p out completed (m, g, ps, ss))
      (bind_io (lift_res (scheduled_seconds (ticks c) (ta_tick_hz args) wall)) (\<lambda>seconds.
         let delivered = max 0 (tx_pkts c - drop_pkts c); delivered_bytes = delivered * frame_len;
             result = \<lparr> cr_frame_len = frame_len, cr_gap_ticks = gap, cr_packet_count = ra_packet_count args,
               cr_completed = completed, cr_counters = c, cr_delivered = delivered,
               cr_scheduled_seconds = seconds, cr_wall_seconds = wall,
               cr_l2_gbps = per_second_1e9 (delivered_bytes * 8) seconds,
               cr_wire_gbps = per_second_1e9 (delivered * (frame_len + ta_wire_overhead_bytes args) * 8) seconds,
               cr_load_seconds = load_seconds,
               cr_load_gbps = per_second_1e9 ((int (length (tr_desc_file out)) + int (length (tr_data_file out))) * 8) load_seconds \<rparr>
         in if ta_require_no_drop args \<and> stress_unclean c
            then raise (SystemExit (''strict preload case failed: frame_len='' @ show_int frame_len @ '' gap='' @ show_int gap))
            else ret result))
      (\<lambda>r w. static (view w) = ran args p out (cr_completed r) (m, g, ps, ss) \<and> cr_frame_len r = frame_len \<and> cr_gap_ticks r = gap
         \<and> cr_packet_count r = ra_packet_count args
         \<and> cr_delivered r = max 0 (tx_pkts (cr_counters r) - drop_pkts (cr_counters r))
         \<and> (ta_require_no_drop args \<longrightarrow> \<not> stress_unclean (cr_counters r)))
      (\<lambda>e w. (\<exists>completed. static (view w) = ran args p out completed (m, g, ps, ss)) \<and> ta_require_no_drop args
         \<and> e = SystemExit (''strict preload case failed: frame_len='' @ show_int frame_len @ '' gap='' @ show_int gap))"
      by (auto simp: Let_def intro!: spec_ret spec_raise)
  qed
qed

lemma mixed_main_static:
  assumes p: "ta_port args < 2" and c: "read_size_ok (ta_chunk_bytes args)" and hz: "0 < ta_tick_hz args"
    and t: "make_mixed_trace (ra_packet_count args) (ta_cases args) =
      Inr (st, int (length (tr_desc_file (mx_out st))), int (length (tr_data_file (mx_out st))))"
  shows "spec (\<lambda>w. static (view w) = s) (mixed_main os args)
    (\<lambda>r w. static (view w) = ran args (ta_port args) (mx_out st) (mr_completed r) s
       \<and> mr_expected_ticks r = mx_expected_ticks st \<and> mr_tick_error r = ticks (mr_counters r) - mx_expected_ticks st
       \<and> (ta_require_no_drop args \<longrightarrow> mr_completed r \<and> drop_pkts (mr_counters r) = 0 \<and> late_pkts (mr_counters r) = 0
            \<and> underrun_pkts (mr_counters r) = 0 \<and> stall_events (mr_counters r) = 0))
    (\<lambda>e w. (\<exists>completed. static (view w) = ran args (ta_port args) (mx_out st) completed s)
       \<and> ta_require_no_drop args \<and> e = SystemExit ''strict mixed preload case failed'')"
proof -
  obtain m g ps ss where s: "s = (m, g, ps, ss)" by (cases s) auto
  let ?Q = "\<lambda>r w. static (view w) = ran args (ta_port args) (mx_out st) (mr_completed r) (m, g, ps, ss)
       \<and> mr_expected_ticks r = mx_expected_ticks st \<and> mr_tick_error r = ticks (mr_counters r) - mx_expected_ticks st
       \<and> (ta_require_no_drop args \<longrightarrow> mr_completed r \<and> drop_pkts (mr_counters r) = 0 \<and> late_pkts (mr_counters r) = 0
            \<and> underrun_pkts (mr_counters r) = 0 \<and> stall_events (mr_counters r) = 0)"
  let ?E = "\<lambda>e w. (\<exists>completed. static (view w) = ran args (ta_port args) (mx_out st) completed (m, g, ps, ss))
       \<and> ta_require_no_drop args \<and> e = SystemExit ''strict mixed preload case failed''"
  show ?thesis
    unfolding mixed_main_def Let_def t bind_lift_Inr prod.case s
  proof (rule run_then [OF p c])
    fix load_seconds completed wall and c :: tx_counters
    assume "0 \<le> ticks c" and "ticks c < 2 ^ 64"
    then obtain x where x: "scheduled_seconds (ticks c) (ta_tick_hz args) wall = Inr x"
      using scheduled_seconds_ok [OF _ _ hz] by blast
    have verdict: "spec (\<lambda>w. static (view w) = ran args (ta_port args) (mx_out st) completed (m, g, ps, ss))
        (if ta_require_no_drop args \<and> (\<not> completed \<or> drop_pkts c \<noteq> 0 \<or> late_pkts c \<noteq> 0 \<or> underrun_pkts c \<noteq> 0 \<or> stall_events c \<noteq> 0)
         then raise (SystemExit ''strict mixed preload case failed'') else ret r) ?Q ?E"
      if "mr_completed r = completed" "mr_counters r = c" "mr_expected_ticks r = mx_expected_ticks st"
        "mr_tick_error r = ticks c - mx_expected_ticks st" for r
      using that by (auto intro!: spec_ret spec_raise)
    show "spec (\<lambda>w. static (view w) = ran args (ta_port args) (mx_out st) completed (m, g, ps, ss))
      (bind_io (lift_res (scheduled_seconds (ticks c) (ta_tick_hz args) wall)) (\<lambda>seconds.
         if ta_require_no_drop args \<and> (\<not> completed \<or> drop_pkts c \<noteq> 0 \<or> late_pkts c \<noteq> 0 \<or> underrun_pkts c \<noteq> 0 \<or> stall_events c \<noteq> 0)
         then raise (SystemExit ''strict mixed preload case failed'')
         else ret \<lparr> mr_completed = completed, mr_counters = c, mr_expected_ticks = mx_expected_ticks st,
           mr_tick_error = ticks c - mx_expected_ticks st, mr_scheduled_seconds = seconds, mr_wall_seconds = wall,
           mr_l2_gbps = per_second_1e9 (py_trunc (fl (fl (of_int (mx_payload_bytes st))
             * (if tx_pkts c \<noteq> 0 then fl (of_int (max 0 (tx_pkts c - drop_pkts c)) / of_int (tx_pkts c)) else 0))) * 8) seconds,
           mr_wire_gbps = per_second_1e9 (py_trunc (fl (fl (of_int (wire_payload (ra_packet_count args) (ta_cases args)
               (ta_wire_overhead_bytes args)))
             * (if tx_pkts c \<noteq> 0 then fl (of_int (max 0 (tx_pkts c - drop_pkts c)) / of_int (tx_pkts c)) else 0))) * 8) seconds,
           mr_load_seconds = load_seconds,
           mr_load_gbps = per_second_1e9 ((int (length (tr_desc_file (mx_out st))) + int (length (tr_data_file (mx_out st)))) * 8)
             load_seconds \<rparr>)) ?Q ?E"
      unfolding x bind_lift_Inr by (rule verdict) simp_all
  qed
qed

text \<open>One case of the stress test for any trace it may fail to write.\<close>

lemma run_case_any:
  assumes p: "p < 2" and c: "ta_chunk_bytes args \<noteq> 0" and hz: "0 < ta_tick_hz args"
    and n: "0 \<le> ra_packet_count args" and l: "0 \<le> frame_len"
  shows "spec (\<lambda>w. True) (run_case os args (tx_port_base p) frame_len gap)
    (\<lambda>r w. cr_frame_len r = frame_len \<and> cr_gap_ticks r = gap \<and> (ta_require_no_drop args \<longrightarrow> \<not> stress_unclean (cr_counters r)))
    (\<lambda>e w. True)"
proof (cases "pst_make_trace (ra_packet_count args) frame_len gap")
  case (Inl e)
  then show ?thesis by (simp add: run_case_def spec_raise)
next
  case (Inr t)
  obtain out ds dd where t: "t = (out, ds, dd)" by (cases t)
  note sizes = pst_make_trace_sizes [OF Inr [unfolded t] l n]
  show ?thesis
  proof (cases "read_size_ok (ta_chunk_bytes args)", rule_tac [!] spec_pre)
    fix w assume "\<not> read_size_ok (ta_chunk_bytes args)"
    then obtain e where e: "fh_read (ta_chunk_bytes args) bs = Inl e" for bs using fh_read_bad [OF c] by blast
    show "spec (\<lambda>v. v = w) (run_case os args (tx_port_base p) frame_len gap)
      (\<lambda>r w. cr_frame_len r = frame_len \<and> cr_gap_ticks r = gap \<and> (ta_require_no_drop args \<longrightarrow> \<not> stress_unclean (cr_counters r)))
      (\<lambda>e w. True)"
      unfolding run_case_def Inr t bind_lift_Inr prod.case
      by (rule spec_bind [OF spec_conseq [OF clock_static [where s = "static (view w)"]]])
        (auto simp: spec_def bind_io_def pwrite_file_refused [OF e])
  next
    fix w assume c: "read_size_ok (ta_chunk_bytes args)"
    show "spec (\<lambda>v. v = w) (run_case os args (tx_port_base p) frame_len gap)
      (\<lambda>r w. cr_frame_len r = frame_len \<and> cr_gap_ticks r = gap \<and> (ta_require_no_drop args \<longrightarrow> \<not> stress_unclean (cr_counters r)))
      (\<lambda>e w. True)"
      by (rule spec_conseq [OF run_case_static [OF p c hz Inr [unfolded t sizes], where s = "static (view w)"]]) simp_all
  qed
qed

lemma stop_and_clear_pulses:
  assumes "p < 2"
  shows "spec (\<lambda>w. True) (stop_and_clear os (tx_port_base p)) (\<lambda>_ w. \<exists>ps. c_pulses (view w) = ps @ [(p, Stop), (p, Clear)]) E"
proof (rule spec_pre)
  fix w
  show "spec (\<lambda>v. v = w) (stop_and_clear os (tx_port_base p)) (\<lambda>_ w. \<exists>ps. c_pulses (view w) = ps @ [(p, Stop), (p, Clear)]) E"
    by (rule spec_conseq [OF stop_and_clear_static [OF assms, where m = "c_mem (view w)" and g = "c_cfg (view w)"
          and ps = "c_pulses (view w)" and ss = "c_starts (view w)" and E = E]]) (auto simp: static_def)
qed

lemma stress_main_spec:
  assumes p: "ta_port args < 2" "ta_reg_base args = None" and c: "ta_chunk_bytes args \<noteq> 0" and hz: "0 < ta_tick_hz args"
    and n: "0 < ra_packet_count args" and l: "\<forall>(frame_len, gap) \<in> set (ta_cases args). 0 < frame_len"
  shows "spec (\<lambda>w. True) (stress_main os args) (\<lambda>rs w. case_inv args [] rs)
    (\<lambda>e w. \<exists>ps. c_pulses (view w) = ps @ [(ta_port args, Stop), (ta_port args, Clear)])"
proof -
  let ?body = "\<lambda>(frame_len, gap_ticks) results.
     bind_io (run_case os args (tx_port_base (ta_port args)) frame_len gap_ticks) (\<lambda>r. ret (results @ [r]))"
  have body: "spec (\<lambda>_. case_inv args (x # xs) rs) (?body x rs) (\<lambda>rs' w. case_inv args xs rs') (\<lambda>e w. True)" for x xs rs
  proof (rule spec_pure)
    obtain fl gp where x: "x = (fl, gp)" by (cases x)
    assume inv: "case_inv args (x # xs) rs"
    then have "x \<in> set (stress_cases args)" unfolding case_inv_def by (metis in_set_conv_decomp)
    then have "0 \<le> fl" using l x by (auto simp: stress_cases_def split: if_splits)
    note one = run_case_any [OF p(1) c hz less_imp_le [OF n] this, of gp]
    show "spec (\<lambda>_. True) (?body x rs) (\<lambda>rs' w. case_inv args xs rs') (\<lambda>e w. True)"
      unfolding x prod.case by (rule spec_bind [OF one], rule spec_ret) (use inv x in \<open>auto simp: case_inv_def\<close>)
  qed
  have "spec (\<lambda>_. case_inv args (stress_cases args) []) (for_io (stress_cases args) ?body []) (\<lambda>rs w. case_inv args [] rs) (\<lambda>e w. True)"
    by (rule spec_for [where I = "\<lambda>xs rs w. case_inv args xs rs", OF body])
  then have "spec (\<lambda>_. True) (for_io (stress_cases args) ?body []) (\<lambda>rs w. case_inv args [] rs) (\<lambda>e w. True)"
    by (simp add: case_inv_def)
  from spec_on_error [OF this stop_and_clear_pulses [OF p(1)]]
  show ?thesis using n p(2) by (simp add: stress_main_def Let_def)
qed

end

section \<open>Properties\<close>

lemma data_size:
  assumes "0 < frame_len" and "\<And>i. int (length (frame i)) = frame_len" and "0 \<le> n"
  shows "int (length (tr_data_file (trace_of (map (\<lambda>i. (gap, frame i)) [0..<nat n])))) = n * align_up frame_len 64"
proof -
  have b: "beats (frame i) * 64 = align_up frame_len 64" for i
    using assms(2) [of i] by (simp add: beats_def align_up_def)
  have "total_beats (map (\<lambda>i. (gap, frame i)) [0..<k]) * 64 = int k * align_up frame_len 64" for k
    by (induction k) (simp_all add: total_beats_def b algebra_simps)
  from this [of "nat n"] show ?thesis using assms(3) by (simp add: trace_of_def length_data_of)
qed

text \<open>What the card replays: the packets its descriptors describe.\<close>

definition card_packets :: "(int \<Rightarrow> byte) \<Rightarrow> int \<Rightarrow> int \<Rightarrow> int \<Rightarrow> int \<Rightarrow> packet list" where
  "card_packets m desc_base desc_size data_base data_size =
     trace_packets (read_mem m desc_base (nat desc_size)) (read_mem m data_base (nat data_size))"

lemma card_packets_ran:
  assumes "static c = ran args p (trace_of ps) completed s" and "trace_ok ps"
    and "ra_desc_base args + int (length (tr_desc_file (trace_of ps))) \<le> ra_data_base args"
  shows "card_packets (c_mem c) (ra_desc_base args) (int (length (tr_desc_file (trace_of ps))))
     (ra_data_base args) (int (length (tr_data_file (trace_of ps)))) = ps"
proof -
  obtain m g ps' ss where s: "s = (m, g, ps', ss)" by (cases s) auto
  have "c_mem c = write_mem (write_mem m (ra_desc_base args) (tr_desc_file (trace_of ps)))
      (ra_data_base args) (tr_data_file (trace_of ps))"
    using assms(1) by (simp add: s ran_def static_def Let_def)
  then show ?thesis
    using assms(3) by (simp add: card_packets_def read_write_mem_other trace_packets_trace_of [OF assms(2)])
qed

text \<open>C23: One stress case on the card.  For a legal case whose descriptors end below the data base, a chunk
  size of -1 or a positive one (below \<open>2^63\<close>), any card behaviour and any timeout, the case returns:
  with a result, or, only under --require-no-drop, with the SystemExit of that case.  Either way the
  card has been stopped, cleared and then started once, and at the moment of that start its memory held
  exactly the packets of the case and the port had the packet count and trace size that match them;
  both are still so at the end, and a run that timed out has been stopped and cleared again.  A result
  under --require-no-drop has no drop, stall, late or underrun count.\<close>

theorem run_case_on_card:
  assumes "p < 2" and "read_size_ok (ta_chunk_bytes args)" and "0 < ta_tick_hz args" and "0 \<le> ra_packet_count args"
    and "pattern_fits (ra_packet_count args) [(frame_len, gap)]"
    and "ra_desc_base args + ra_packet_count args * 64 \<le> ra_data_base args"
  shows "\<exists>r w completed. run_case (board_os hw) args (tx_port_base p) frame_len gap b = Some (r, w)
     \<and> (case r of Inr res \<Rightarrow> cr_completed res = completed \<and> (ta_require_no_drop args \<longrightarrow> \<not> stress_unclean (cr_counters res))
        | Inl e \<Rightarrow> ta_require_no_drop args \<and> e = SystemExit (''strict preload case failed: frame_len='' @ show_int frame_len @ '' gap='' @ show_int gap))
     \<and> card_packets (c_mem (bd_card w)) (ra_desc_base args) (ra_packet_count args * 64)
         (ra_data_base args) (ra_packet_count args * align_up frame_len 64)
       = map (\<lambda>i. (gap, pst_make_frame (int i) frame_len)) [0..<nat (ra_packet_count args)]
     \<and> c_cfg (bd_card w) p = run_cfg args (ra_packet_count args * 64) (ra_packet_count args * align_up frame_len 64) (c_cfg (bd_card b) p)
     \<and> c_pulses (bd_card w) = c_pulses (bd_card b) @ [(p, Stop), (p, Clear), (p, Start)] @ (if completed then [] else [(p, Stop), (p, Clear)])
     \<and> (\<exists>m g. c_starts (bd_card w) = c_starts (bd_card b) @ [(p, m, g)]
         \<and> card_packets m (ra_desc_base args) (ra_packet_count args * 64) (ra_data_base args) (ra_packet_count args * align_up frame_len 64)
           = map (\<lambda>i. (gap, pst_make_frame (int i) frame_len)) [0..<nat (ra_packet_count args)]
         \<and> g p = run_cfg args (ra_packet_count args * 64) (ra_packet_count args * align_up frame_len 64) (c_cfg (bd_card b) p))"
proof -
  let ?n = "ra_packet_count args"
  let ?ps = "map (\<lambda>i. (gap, pst_make_frame (int i) frame_len)) [0..<nat ?n]"
  obtain out where t: "pst_make_trace ?n frame_len gap = Inr (out, int (length (tr_desc_file out)), int (length (tr_data_file out)))"
    and out: "out = trace_of ?ps" "trace_ok ?ps"
    using pst_make_trace_files [OF assms(5,4)] by blast
  have l: "0 < frame_len" using assms(5) by (simp add: pattern_fits_def pattern_ok_def)
  have sizes: "int (length (tr_desc_file out)) = ?n * 64" "int (length (tr_data_file out)) = ?n * align_up frame_len 64"
    using data_size [OF l _ assms(4), where frame = "\<lambda>i. pst_make_frame (int i) frame_len" and gap = gap] l assms(4)
    by (simp_all add: out(1) length_desc_file length_pst_make_frame)
  have fin: "card_packets (c_mem (bd_card w)) (ra_desc_base args) (?n * 64) (ra_data_base args) (?n * align_up frame_len 64) = ?ps
      \<and> c_cfg (bd_card w) p = run_cfg args (?n * 64) (?n * align_up frame_len 64) (c_cfg (bd_card b) p)
      \<and> c_pulses (bd_card w) = c_pulses (bd_card b) @ [(p, Stop), (p, Clear), (p, Start)] @ (if completed then [] else [(p, Stop), (p, Clear)])
      \<and> c_starts (bd_card w) = c_starts (bd_card b) @ [(p, c_mem (bd_card w), c_cfg (bd_card w))]"
    if w: "static (bd_card w) = ran args p out completed (static (bd_card b))" for w completed
    using card_packets_ran [OF w [unfolded out(1)] out(2)] w assms(6) sizes
    by (simp add: out(1) ran_def static_def Let_def)
  from spec_outcome [OF board.run_case_static [OF assms(1-3) t, where s = "static (bd_card b)" and hw = hw], of b, OF refl]
  show ?thesis
  proof (elim disjE exE conjE)
    fix r w assume "run_case (board_os hw) args (tx_port_base p) frame_len gap b = Some (Inr r, w)"
      and st: "static (bd_card w) = ran args p out (cr_completed r) (static (bd_card b))"
      and "ta_require_no_drop args \<longrightarrow> \<not> stress_unclean (cr_counters r)"
    with fin [OF st] show ?thesis by (intro exI [of _ "Inr r"] exI [of _ w] exI [of _ "cr_completed r"]) simp
  next
    fix e w completed assume "run_case (board_os hw) args (tx_port_base p) frame_len gap b = Some (Inl e, w)"
      and st: "static (bd_card w) = ran args p out completed (static (bd_card b))" and "ta_require_no_drop args"
      and "e = SystemExit (''strict preload case failed: frame_len='' @ show_int frame_len @ '' gap='' @ show_int gap)"
    with fin [OF st] show ?thesis by (intro exI [of _ "Inl e"] exI [of _ w] exI [of _ completed]) simp
  qed
qed

definition demo_test_args :: test_args where
  "demo_test_args = \<lparr> ra_desc_base = 0x400000000, ra_data_base = 0x410000000, ra_packet_count = 3,
     ra_rate_q16_16 = 0x10000, ra_force_link_up = True, ra_force_tx_ready = False, ra_no_auto_drop = True,
     ta_port = 1, ta_reg_base = None, ta_cases = [(64, 3), (1518, 38)], ta_tick_hz = 300000000, ta_wire_overhead_bytes = 24,
     ta_require_no_drop = True, ta_timeout = 60, ta_chunk_bytes = 4194304 \<rparr>"

theorem run_case_on_card_witness:
  "\<exists>r w. run_case (board_os demo_hw) demo_test_args 0x10000 64 3 demo_board = Some (r, w)
     \<and> cfg_pkt_count (c_cfg (bd_card w) 1) = 3
     \<and> card_packets (c_mem (bd_card w)) 0x400000000 192 0x410000000 192
       = map (\<lambda>i. (3, pst_make_frame (int i) 64)) [0..<3]"
  using run_case_on_card [of 1 demo_test_args 64 3 demo_hw demo_board]
  by (auto simp: demo_test_args_def demo_board_def read_size_ok_def pattern_fits_def pattern_ok_def tx_port_base_def align_up_def run_cfg_def)

text \<open>C12: The stress test never leaves a failed port running.  With a positive packet count, cases of
  positive frame length and any card behaviour, the test returns.  It ends normally with one result
  per requested case, in order, all clean under --require-no-drop; or it ends with an exception, and
  then the last commands the port received are a stop and a clear.\<close>

theorem stress_main_outcome:
  assumes "ta_port args < 2" and "ta_reg_base args = None" and "ta_chunk_bytes args \<noteq> 0" and "0 < ta_tick_hz args"
    and "0 < ra_packet_count args" and "\<forall>(frame_len, gap) \<in> set (ta_cases args). 0 < frame_len"
  shows "(\<exists>rs w. stress_main (board_os hw) args b = Some (Inr rs, w)
       \<and> map (\<lambda>r. (cr_frame_len r, cr_gap_ticks r)) rs = stress_cases args
       \<and> (ta_require_no_drop args \<longrightarrow> (\<forall>r \<in> set rs. \<not> stress_unclean (cr_counters r))))
     \<or> (\<exists>e w ps. stress_main (board_os hw) args b = Some (Inl e, w)
       \<and> c_pulses (bd_card w) = ps @ [(ta_port args, Stop), (ta_port args, Clear)])"
  using spec_outcome [OF board.stress_main_spec [OF assms, where hw = hw], of b] by (auto simp: case_inv_def)

theorem stress_main_outcome_witness:
  "\<exists>r w. stress_main (board_os demo_hw) demo_test_args demo_board = Some (r, w)"
  using stress_main_outcome [of demo_test_args demo_hw demo_board] by (auto simp: demo_test_args_def)

text \<open>The mixed test on the card.  For a legal pattern whose descriptors end below the data base and any
  card behaviour, the test returns; the port is started on a memory that holds exactly the pattern's
  packets, and the tick error it reports is the hardware's tick count minus the sum of their gaps.
  Under --require-no-drop it ends normally only if the run completed with no drop, late, underrun or
  stall count.\<close>

theorem mixed_main_on_card:
  assumes "ta_port args < 2" and "read_size_ok (ta_chunk_bytes args)" and "0 < ta_tick_hz args" and "0 \<le> ra_packet_count args"
    and "pattern_fits (ra_packet_count args) (ta_cases args)"
    and "ra_desc_base args + ra_packet_count args * 64 \<le> ra_data_base args"
  shows "\<exists>r w data_size. mixed_main (board_os hw) args b = Some (r, w)
     \<and> (case r of Inr res \<Rightarrow> (ta_require_no_drop args \<longrightarrow> mr_completed res \<and> drop_pkts (mr_counters res) = 0
            \<and> late_pkts (mr_counters res) = 0 \<and> underrun_pkts (mr_counters res) = 0 \<and> stall_events (mr_counters res) = 0)
          \<and> mr_tick_error res = ticks (mr_counters res) - sum_list (map fst (map (pattern_pk (ta_cases args)) [0..<nat (ra_packet_count args)]))
        | Inl e \<Rightarrow> ta_require_no_drop args \<and> e = SystemExit ''strict mixed preload case failed'')
     \<and> card_packets (c_mem (bd_card w)) (ra_desc_base args) (ra_packet_count args * 64) (ra_data_base args) data_size
       = map (pattern_pk (ta_cases args)) [0..<nat (ra_packet_count args)]
     \<and> c_cfg (bd_card w) (ta_port args) = run_cfg args (ra_packet_count args * 64) data_size (c_cfg (bd_card b) (ta_port args))
     \<and> c_starts (bd_card w) = c_starts (bd_card b) @ [(ta_port args, c_mem (bd_card w), c_cfg (bd_card w))]"
proof -
  let ?n = "ra_packet_count args"
  let ?ps = "map (pattern_pk (ta_cases args)) [0..<nat ?n]"
  obtain st where t: "make_mixed_trace ?n (ta_cases args)
       = Inr (st, int (length (tr_desc_file (mx_out st))), int (length (tr_data_file (mx_out st))))"
    and out: "mx_out st = trace_of ?ps" and inv: "mixed_inv (ta_cases args) (nat ?n) st"
    using make_mixed_trace_files [OF assms(5,4)] by blast
  let ?d = "int (length (tr_data_file (mx_out st)))"
  have size: "int (length (tr_desc_file (mx_out st))) = ?n * 64" using assms(4) by (simp add: out length_desc_file)
  have fin: "card_packets (c_mem (bd_card w)) (ra_desc_base args) (?n * 64) (ra_data_base args) ?d = ?ps
      \<and> c_cfg (bd_card w) (ta_port args) = run_cfg args (?n * 64) ?d (c_cfg (bd_card b) (ta_port args))
      \<and> c_starts (bd_card w) = c_starts (bd_card b) @ [(ta_port args, c_mem (bd_card w), c_cfg (bd_card w))]"
    if w: "static (bd_card w) = ran args (ta_port args) (mx_out st) completed (static (bd_card b))" for w completed
    using card_packets_ran [OF w [unfolded out] pattern_trace_ok [OF assms(5)]] w assms(6) size
    by (simp add: out ran_def static_def Let_def)
  from spec_outcome [OF board.mixed_main_static [OF assms(1-3) t, where s = "static (bd_card b)" and hw = hw], of b, OF refl]
  show ?thesis
  proof (elim disjE exE conjE)
    fix r w assume "mixed_main (board_os hw) args b = Some (Inr r, w)"
      and st: "static (bd_card w) = ran args (ta_port args) (mx_out st) (mr_completed r) (static (bd_card b))"
      and "mr_tick_error r = ticks (mr_counters r) - mx_expected_ticks st"
      and "ta_require_no_drop args \<longrightarrow> mr_completed r \<and> drop_pkts (mr_counters r) = 0 \<and> late_pkts (mr_counters r) = 0
            \<and> underrun_pkts (mr_counters r) = 0 \<and> stall_events (mr_counters r) = 0"
    with fin [OF st] inv show ?thesis by (intro exI [of _ "Inr r"] exI [of _ w] exI [of _ ?d]) (simp add: mixed_inv_def)
  next
    fix e w completed assume "mixed_main (board_os hw) args b = Some (Inl e, w)"
      and st: "static (bd_card w) = ran args (ta_port args) (mx_out st) completed (static (bd_card b))" and "ta_require_no_drop args"
      and "e = SystemExit ''strict mixed preload case failed''"
    with fin [OF st] show ?thesis by (intro exI [of _ "Inl e"] exI [of _ w] exI [of _ ?d]) simp
  qed
qed

theorem mixed_main_on_card_witness:
  "\<exists>r w. mixed_main (board_os demo_hw) demo_test_args demo_board = Some (r, w) \<and> cfg_pkt_count (c_cfg (bd_card w) 1) = 3"
  using mixed_main_on_card [of demo_test_args demo_hw demo_board]
  by (auto simp: demo_test_args_def read_size_ok_def pattern_fits_def pattern_ok_def run_cfg_def)

end
