(* ===== verification/StreamRing.thy ===== *)
theory StreamRing
  imports LoadTrace PreloadRun TraceToStream
begin

text \<open>
  xdma_stream_ring.py: stream a file of any length through a ring buffer in the card's DDR.  The loader
  parses the file record by record, copies each record behind the committed bytes once the reader has
  made room for it, and commits the new end.  RingSafety proves that the reader only ever sees the
  bytes of the file.
\<close>

section \<open>Arguments\<close>

record ring_args =
  rg_stream :: "string option"
  rg_manifest :: "(string \<times> string \<times> int option) option"
  rg_port :: nat
  rg_reg_base :: "int option"
  rg_ring_base :: int
  rg_ring_size :: int
  rg_prefill_bytes :: int
  rg_guard_bytes :: int
  rg_batch_bytes :: int
  rg_poll_interval :: rat
  rg_start_time :: int
  rg_rate_q16_16 :: int
  rg_watermark :: int
  rg_tick_hz :: int
  rg_timeout :: rat
  rg_feed_timeout :: rat
  rg_force_link_up :: bool
  rg_force_tx_ready :: bool
  rg_no_wait :: bool

text \<open>The manifest is its directory, its stream file and its packet count.\<close>

definition ring_manifest :: "ring_args \<Rightarrow> string option \<times> int" where
  "ring_manifest args = (case rg_manifest args of
     None \<Rightarrow> (rg_stream args, 0)
   | Some (dir, stream_file, packet_count) \<Rightarrow>
       ((if rg_stream args = None then Some (path_join dir (basename stream_file)) else rg_stream args),
        (case packet_count of None \<Rightarrow> 0 | Some n \<Rightarrow> n)))"

section \<open>Records and the ring\<close>

text \<open>One record of the file, and the rest of it; both counts it reads are never negative.\<close>

definition read_record :: "bytes \<Rightarrow> (bytes option \<times> bytes) res" where
  "read_record fh =
     (let header = take 64 fh; fh = drop (length header) fh in
      if header = [] then Inr (None, fh)
      else if length header \<noteq> 64 then Inl (RuntimeError ''short stream header'')
      else let frame_len = le_int (pyslice 12 14 header);
               payload_len = align_up frame_len 64;
               payload = take (nat payload_len) fh;
               fh = drop (length payload) fh
           in if int (length payload) \<noteq> payload_len then Inl (RuntimeError ''short stream payload'')
              else Inr (Some (header @ payload), fh))"

definition pwrite_ring :: "'w os \<Rightarrow> bytes \<Rightarrow> int \<Rightarrow> int \<Rightarrow> int \<Rightarrow> ('w, unit) io" where
  "pwrite_ring os data ring_base ring_size write_count = loop_io (\<lambda>(offset, done).
     if done < int (length data)
     then let chunk_len = min (int (length data) - done) (ring_size - offset) in
          seq_io (write_chunk_all os (take (nat chunk_len) (drop (nat done) data)) (ring_base + offset))
                 (ret (Continue (0, done + chunk_len)))
     else ret (Break ())) (write_count mod ring_size, 0)"

section \<open>Control\<close>

definition ring_configure :: "'w os \<Rightarrow> int \<Rightarrow> ring_args \<Rightarrow> ('w, unit) io" where
  "ring_configure os base args =
     seq_io (write32 os (base + 0x00) 0x2)
    (seq_io (sleep os (1 / 1000))
    (seq_io (write32 os (base + 0x00) 0x4)
    (seq_io (sleep os (1 / 1000))
    (seq_io (write32 os (base + 0x04) 1)
    (seq_io (write64 os (base + 0x10) (base + 0x14) (rg_ring_base args))
    (seq_io (write64 os (base + 0x18) (base + 0x1c) 0)
    (seq_io (write64 os (base + 0x20) (base + 0x24) 0)
    (seq_io (write64 os (base + 0x28) (base + 0x2c) 0)
    (seq_io (write64 os (base + 0x40) (base + 0x44) (rg_start_time args))
    (seq_io (write32 os (base + 0x48) (rg_rate_q16_16 args))
    (seq_io (write32 os (base + 0x4c) (rg_watermark args))
    (seq_io (write64 os (base + 0xa0) (base + 0xa4) 0)
    (seq_io (write64 os (base + 0xb0) (base + 0xb4) (rg_ring_size args))
    (seq_io (write32 os (base + 0xb8) 0)
    (bind_io (read32 os (base + 0x54)) (\<lambda>debug.
       let debug = (if rg_force_link_up args then debug OR 0x1 else debug);
           debug = (if rg_force_tx_ready args then debug OR 0x2 else debug)
       in write32 os (base + 0x54) debug))))))))))))))))"

definition check_stream_status :: "'w os \<Rightarrow> int \<Rightarrow> ('w, int) io" where
  "check_stream_status os base = bind_io (read32 os (base + 0xbc)) (\<lambda>status.
     let fatal = push_bit 6 1 OR push_bit 10 1 OR push_bit 12 1;
         shown = ''status=0x'' @ pad_left 8 (CHR ''0'') (show_base 16 (nat status)) in
     if status AND fatal \<noteq> 0 then raise (RuntimeError (''FPGA stream ring error: '' @ shown))
     else if status \<noteq> 0 \<and> status AND push_bit 7 1 = 0
     then raise (RuntimeError (''FPGA stream reader is not in ring mode: '' @ shown))
     else if status \<noteq> 0 \<and> status AND push_bit 9 1 = 0
     then raise (RuntimeError (''FPGA stream ring size is invalid: '' @ shown))
     else ret status)"

definition start_replay :: "'w os \<Rightarrow> int \<Rightarrow> ('w, unit) io" where
  "start_replay os base = write32 os (base + 0x00) 0x1"

definition ring_wait_done :: "'w os \<Rightarrow> int \<Rightarrow> rat \<Rightarrow> ('w, bool \<times> rat) io" where
  "ring_wait_done os base timeout = bind_io (perf_counter os) (\<lambda>t0. loop_io (\<lambda>_.
     bind_io (read32 os (base + 0x08)) (\<lambda>status.
     if status AND 0x2 \<noteq> 0 \<and> status AND 0x1 = 0
     then bind_io (elapsed os t0) (\<lambda>t. ret (Break (True, t)))
     else bind_io (elapsed os t0) (\<lambda>t.
       if timeout < t then bind_io (elapsed os t0) (\<lambda>t. ret (Break (False, t)))
       else seq_io (sleep os (1 / 100)) (ret (Continue ()))))) ())"

section \<open>The feeding loop\<close>

record feed =
  fd_fh :: bytes
  fd_pending :: "bytes option"
  fd_eof :: bool
  fd_started :: bool
  fd_write_count :: int
  fd_packet_count :: int
  fd_max_level :: int
  fd_min_free :: int

text \<open>A non-negative number with three decimals.\<close>

definition show_fixed3 :: "rat \<Rightarrow> string" where
  "show_fixed3 x = (let n = round_half_even (x * 1000) in
     show_int (n div 1000) @ ''.'' @ pad_left 3 (CHR ''0'') (show_int (n mod 1000)))"

definition feed_deadline :: "'w os \<Rightarrow> rat \<Rightarrow> rat \<Rightarrow> ('w, unit) io" where
  "feed_deadline os feed_timeout load_start =
     (if 0 < feed_timeout
      then bind_io (elapsed os load_start) (\<lambda>t.
           if feed_timeout < t then raise (RuntimeError (''ring feed timeout after '' @ show_fixed3 feed_timeout @ ''s''))
           else ret ())
      else ret ())"

text \<open>The start of the replay, at most once.\<close>

definition start_once :: "'w os \<Rightarrow> int \<Rightarrow> bool \<Rightarrow> feed \<Rightarrow> ('w, feed) io" where
  "start_once os base wanted st =
     (if \<not> fd_started st \<and> wanted then seq_io (start_replay os base) (ret (st\<lparr>fd_started := True\<rparr>)) else ret st)"

definition feed_read :: "'w os \<Rightarrow> int \<Rightarrow> int \<Rightarrow> feed \<Rightarrow> ('w, feed) io" where
  "feed_read os base manifest_packets st =
     (if fd_pending st = None \<and> \<not> fd_eof st
      then bind_io (lift_res (read_record (fd_fh st))) (\<lambda>(pending, fh).
           let st = st\<lparr>fd_pending := pending, fd_fh := fh\<rparr> in
           if pending = None
           then let st = st\<lparr>fd_eof := True\<rparr> in
                if manifest_packets \<noteq> 0 \<and> manifest_packets \<noteq> fd_packet_count st
                then raise (RuntimeError (''manifest packet_count='' @ show_int manifest_packets @ '' but parsed '' @ show_int (fd_packet_count st)))
                else seq_io (write64 os (base + 0x28) (base + 0x2c) (fd_packet_count st))
                    (seq_io (write32 os (base + 0xb8) 0x1)
                    (start_once os base True st))
           else ret st)
      else ret st)"

text \<open>The copy of a record into the free part of the ring, or a wait.\<close>

definition feed_copy :: "'w os \<Rightarrow> int \<Rightarrow> ring_args \<Rightarrow> int \<Rightarrow> bytes \<Rightarrow> int \<Rightarrow> feed \<Rightarrow> ('w, feed) io" where
  "feed_copy os base args prefill pending free st =
     (if int (length pending) \<le> free
      then seq_io (pwrite_ring os pending (rg_ring_base args) (rg_ring_size args) (fd_write_count st))
          (let st = st\<lparr>fd_write_count := fd_write_count st + int (length pending), fd_packet_count := fd_packet_count st + 1\<rparr> in
           seq_io (write64 os (base + 0xa0) (base + 0xa4) (fd_write_count st))
           (let st = st\<lparr>fd_pending := None\<rparr> in
            start_once os base (prefill \<le> fd_write_count st) st))
      else bind_io (start_once os base (fd_write_count st \<noteq> 0) st) (\<lambda>st.
           seq_io (sleep os (rg_poll_interval args)) (ret st)))"

definition feed_push :: "'w os \<Rightarrow> int \<Rightarrow> ring_args \<Rightarrow> int \<Rightarrow> bytes \<Rightarrow> feed \<Rightarrow> ('w, feed) io" where
  "feed_push os base args prefill pending st =
     bind_io (read64 os (base + 0xa8) (base + 0xac)) (\<lambda>read_count.
     seq_io (check_stream_status os base)
    (if fd_write_count st < read_count
     then raise (RuntimeError (''FPGA read pointer advanced past host write pointer: '' @ show_int read_count @ ''>'' @ show_int (fd_write_count st)))
     else
       let level = fd_write_count st - read_count;
           free = rg_ring_size args - level - rg_guard_bytes args
       in feed_copy os base args prefill pending free
            (st\<lparr>fd_max_level := max (fd_max_level st) level, fd_min_free := min (fd_min_free st) free\<rparr>)))"

definition feed_step :: "'w os \<Rightarrow> int \<Rightarrow> ring_args \<Rightarrow> int \<Rightarrow> int \<Rightarrow> rat \<Rightarrow> rat \<Rightarrow> feed \<Rightarrow> ('w, (feed, feed) ctl) io" where
  "feed_step os base args manifest_packets prefill feed_timeout load_start st =
     seq_io (feed_deadline os feed_timeout load_start)
    (bind_io (feed_read os base manifest_packets st) (\<lambda>st.
     case fd_pending st of
       None \<Rightarrow> ret (Break st)
     | Some pending \<Rightarrow>
         if rg_ring_size args < int (length pending) + rg_guard_bytes args
         then raise (RuntimeError ''one stream record is too large for the selected ring'')
         else bind_io (feed_push os base args prefill pending st) (\<lambda>st. ret (Continue st))))"

definition feed_init :: "bytes \<Rightarrow> ring_args \<Rightarrow> feed" where
  "feed_init file args = \<lparr> fd_fh = file, fd_pending = None, fd_eof = False, fd_started = False, fd_write_count = 0,
     fd_packet_count = 0, fd_max_level = 0, fd_min_free = rg_ring_size args \<rparr>"

section \<open>The program\<close>

record ring_result =
  rr_committed_bytes :: int
  rr_committed_packets :: int
  rr_completed :: bool
  rr_tx_packets :: int
  rr_tx_bytes :: int
  rr_late_packets :: int
  rr_underrun_packets :: int
  rr_stream_status :: int
  rr_final_level :: int
  rr_max_level :: int
  rr_min_free :: int
  rr_load_gbps :: rat
  rr_hw_gbps :: rat
  rr_load_seconds :: rat
  rr_wall_seconds :: rat

definition ring_report :: "'w os \<Rightarrow> int \<Rightarrow> ring_args \<Rightarrow> feed \<Rightarrow> rat \<Rightarrow> bool \<Rightarrow> rat \<Rightarrow> ('w, ring_result) io" where
  "ring_report os base args st load_seconds completed wall_seconds =
     bind_io (read64 os (base + 0x60) (base + 0x64)) (\<lambda>tx_pkts.
     bind_io (read64 os (base + 0x68) (base + 0x6c)) (\<lambda>tx_bytes.
     bind_io (read64 os (base + 0x70) (base + 0x74)) (\<lambda>late_pkts.
     bind_io (read64 os (base + 0x78) (base + 0x7c)) (\<lambda>underrun_pkts.
     bind_io (read64 os (base + 0x94) (base + 0x98)) (\<lambda>ticks.
     bind_io (read32 os (base + 0xbc)) (\<lambda>stream_status.
     bind_io (read64 os (base + 0xc0) (base + 0xc4)) (\<lambda>stream_level.
     bind_io (lift_res (scheduled_seconds ticks (rg_tick_hz args) wall_seconds)) (\<lambda>hw_seconds.
     ret \<lparr> rr_committed_bytes = fd_write_count st, rr_committed_packets = fd_packet_count st, rr_completed = completed,
       rr_tx_packets = tx_pkts, rr_tx_bytes = tx_bytes, rr_late_packets = late_pkts, rr_underrun_packets = underrun_pkts,
       rr_stream_status = stream_status, rr_final_level = stream_level, rr_max_level = fd_max_level st, rr_min_free = fd_min_free st,
       rr_load_gbps = per_second_1e9 (fd_write_count st * 8) load_seconds, rr_hw_gbps = per_second_1e9 (tx_bytes * 8) hw_seconds,
       rr_load_seconds = load_seconds, rr_wall_seconds = wall_seconds \<rparr>))))))))"

definition ring_checks :: "ring_args \<Rightarrow> unit res" where
  "ring_checks args =
     bind_res (check (0 < rg_ring_size args \<and> rg_ring_size args mod 64 = 0) (SystemExit ''--ring-size must be a positive 64-byte multiple'')) (\<lambda>_.
     bind_res (check (64 \<le> rg_guard_bytes args) (SystemExit ''--guard-bytes must be at least 64'')) (\<lambda>_.
     bind_res (check (rg_guard_bytes args < rg_ring_size args) (SystemExit ''--guard-bytes must be smaller than --ring-size'')) (\<lambda>_.
     check (64 \<le> rg_batch_bytes args) (SystemExit ''--batch-bytes must be at least 64''))))"

definition ring_prefill :: "ring_args \<Rightarrow> int" where
  "ring_prefill args =
     (let prefill = (if rg_prefill_bytes args \<noteq> 0 then rg_prefill_bytes args else min (rg_ring_size args div 2) (64 * 1024 * 1024))
      in max 64 (min prefill (rg_ring_size args - rg_guard_bytes args)))"

definition ring_run :: "'w os \<Rightarrow> int \<Rightarrow> ring_args \<Rightarrow> int \<Rightarrow> bytes \<Rightarrow> rat \<Rightarrow> ('w, ring_result) io" where
  "ring_run os base args manifest_packets file load_start =
    (let feed_timeout = (if 0 < rg_feed_timeout args then rg_feed_timeout args else rg_timeout args) in
     seq_io (ring_configure os base args)
    (bind_io (loop_io (feed_step os base args manifest_packets (ring_prefill args) feed_timeout load_start) (feed_init file args)) (\<lambda>st.
     bind_io (elapsed os load_start) (\<lambda>load_seconds.
     bind_io (if rg_no_wait args then ret (False, 0) else ring_wait_done os base (rg_timeout args)) (\<lambda>(completed, wall_seconds).
     bind_io (ring_report os base args st load_seconds completed wall_seconds) (\<lambda>result.
     seq_io (if \<not> completed \<and> \<not> rg_no_wait args then stop_and_clear os base else ret ())
    (ret result)))))))"

definition ring_main :: "'w os \<Rightarrow> (string \<Rightarrow> bytes option) \<Rightarrow> ring_args \<Rightarrow> ('w, ring_result) io" where
  "ring_main os fs args = (case ring_manifest args of (stream, manifest_packets) \<Rightarrow>
     bind_io (lift_res (require_file fs stream ''--stream'')) (\<lambda>file.
     seq_io (lift_res (ring_checks args))
    (let base = (case rg_reg_base args of None \<Rightarrow> tx_port_base (rg_port args) | Some b \<Rightarrow> b) in
     bind_io (perf_counter os) (\<lambda>load_start.
     on_error (ring_run os base args manifest_packets file load_start) (stop_and_clear os base)))))"

end
