(* ===== verification/RingSafety.thy ===== *)
theory RingSafety
  imports StreamRing
begin

text \<open>
  The ring protocol between xdma_stream_ring.py and the reader of the card.  The invariant \<open>ring_ok\<close>
  relates the card to the file: the bytes between the read count and the last byte written are those
  of the file, the reader may only advance to the committed count, and nothing is written over a byte
  it has not consumed.
\<close>

section \<open>The invariant\<close>

text \<open>
  \<open>lb\<close> is a lower bound of the read count, \<open>wc\<close> the committed count and \<open>hi\<close> the number of bytes written.
\<close>

definition window_ok :: "(int \<Rightarrow> byte) \<Rightarrow> int \<Rightarrow> nat \<Rightarrow> bytes \<Rightarrow> nat \<Rightarrow> nat \<Rightarrow> bool" where
  "window_ok m base ring file lo hi \<longleftrightarrow> (\<forall>i. lo \<le> i \<and> i < hi \<longrightarrow> m (base + int (i mod ring)) = file ! i)"

definition ring_ok :: "nat \<Rightarrow> int \<Rightarrow> nat \<Rightarrow> bytes \<Rightarrow> bool \<Rightarrow> nat \<Rightarrow> nat \<Rightarrow> nat \<Rightarrow> card \<Rightarrow> bool" where
  "ring_ok p base ring file started lb wc hi c \<longleftrightarrow> (let g = c_cfg c p; r = c_reader c p in
     cfg_mode g = 1 \<and> \<not> cfg_stream_pingpong g \<and> uint (cfg_desc_base g) = base \<and> unat (cfg_stream_ring_size g) = ring
     \<and> unat (cfg_stream_write_count g) = wc \<and> wc \<le> hi \<and> hi \<le> length file
     \<and> lb \<le> rd_count r \<and> rd_count r \<le> wc \<and> hi \<le> rd_count r + ring \<and> rd_count r mod 64 = 0
     \<and> window_ok (c_mem c) base ring file (rd_count r) hi
     \<and> (if started then rd_active r \<and> rd_base r = base \<and> rd_ring r = ring \<and> rd_bytes r = take (rd_count r) file
        else \<not> rd_active r \<and> rd_count r = 0))"

lemma ring_ok_advance:
  assumes "ring_ok p base ring file started lb wc hi c"
  shows "ring_ok p base ring file started lb wc hi (card_advance k c)"
proof (cases started)
  case False
  with assms show ?thesis by (auto simp: ring_ok_def Let_def card_advance_def reader_take_def)
next
  case True
  let ?r = "c_reader c p"
  define n where "n = 64 * min (k p) ((wc - rd_count ?r) div 64)"
  have n64: "(x + n) mod 64 = x mod 64" for x by (simp add: n_def)
  have n: "n \<le> wc - rd_count ?r" unfolding n_def by (metis min.cobounded2 mult.commute mult_le_mono2 div_times_less_eq_dividend order_trans)
  have inv: "rd_count ?r \<le> wc" "wc \<le> hi" "hi \<le> length file" "window_ok (c_mem c) base ring file (rd_count ?r) hi"
    using assms by (simp_all add: ring_ok_def Let_def)
  have "rd_count ?r + n \<le> wc" using n inv(1) by linarith
  moreover have "ring_bytes (c_mem c) base ring (rd_count ?r) n = take n (drop (rd_count ?r) file)"
    using n inv by (intro nth_equalityI) (auto simp: ring_bytes_def window_ok_def)
  moreover from this have "take (rd_count ?r) file @ ring_bytes (c_mem c) base ring (rd_count ?r) n = take (rd_count ?r + n) file"
    by (simp add: take_add)
  moreover have "c_reader (card_advance k c) p = ?r\<lparr>rd_count := rd_count ?r + n,
      rd_bytes := rd_bytes ?r @ ring_bytes (c_mem c) base ring (rd_count ?r) n\<rparr>"
    using assms True by (simp add: ring_ok_def Let_def card_advance_def reader_take_def n_def)
  moreover have "window_ok (c_mem c) base ring file (rd_count ?r + n) hi" using inv(4) by (simp add: window_ok_def)
  ultimately show ?thesis using assms True n n64 by (simp add: ring_ok_def Let_def)
qed

lemma mod_ring_distinct:
  fixes i j ring :: nat
  assumes "i < j" and "j < i + ring"
  shows "i mod ring \<noteq> j mod ring"
proof
  assume "i mod ring = j mod ring"
  then have "ring dvd j - i" using assms(1) by (metis less_imp_le mod_eq_dvd_iff_nat)
  with assms show False by (auto dest!: dvd_imp_le)
qed

lemma mod_ring_run:
  fixes hi ring :: nat
  assumes "hi \<le> i" and "hi mod ring + (i - hi) < ring"
  shows "i mod ring = hi mod ring + (i - hi)"
proof -
  have "i mod ring = (hi + (i - hi)) mod ring" using assms(1) by simp
  also have "\<dots> = (hi mod ring + (i - hi)) mod ring" by (simp add: mod_add_left_eq)
  finally show ?thesis using assms(2) by simp
qed

text \<open>Writing behind the written bytes, within the room the reader has made.\<close>

lemma ring_ok_write:
  assumes ok: "ring_ok p base ring file started lb wc hi c" and room: "hi + length bs \<le> lb + ring"
    and fit: "hi mod ring + length bs \<le> ring" and bs: "bs = take (length bs) (drop hi file)" and ring: "0 < ring"
  shows "ring_ok p base ring file started lb wc (hi + length bs)
     (c\<lparr>c_mem := write_mem (c_mem c) (base + int (hi mod ring)) bs\<rparr>)"
proof -
  let ?r = "c_reader c p" and ?a = "base + int (hi mod ring)"
  have inv: "rd_count ?r \<le> wc" "wc \<le> hi" "hi \<le> length file" "lb \<le> rd_count ?r"
    "window_ok (c_mem c) base ring file (rd_count ?r) hi"
    using ok by (simp_all add: ring_ok_def Let_def)
  have len: "hi + length bs \<le> length file"
    using bs inv(3) by (metis length_drop length_take min.cobounded1 le_diff_conv2 add.commute)
  have new: "write_mem (c_mem c) ?a bs (base + int (i mod ring)) = file ! i" if i: "rd_count ?r \<le> i" "i < hi + length bs" for i
  proof (cases "hi \<le> i")
    case True
    have m: "i mod ring = hi mod ring + (i - hi)" by (rule mod_ring_run) (use True i fit in linarith)+
    have "bs ! (i - hi) = file ! i"
      using True i len by (subst bs) (simp add: nth_append)
    moreover have "nat (int i - int hi) = i - hi" using True by linarith
    ultimately show ?thesis using True i m by (simp add: write_mem_def)
  next
    case False
    have "\<not> (hi mod ring \<le> i mod ring \<and> i mod ring < hi mod ring + length bs)"
    proof
      assume h: "hi mod ring \<le> i mod ring \<and> i mod ring < hi mod ring + length bs"
      define j where "j = hi + (i mod ring - hi mod ring)"
      have "j mod ring = hi mod ring + (j - hi)" by (rule mod_ring_run) (use h mod_less_divisor [OF ring, of i] in \<open>unfold j_def, linarith, simp\<close>)
      then have "j mod ring = i mod ring" using h by (simp add: j_def)
      moreover have "i < j" "j < i + ring" unfolding j_def using False h room inv i by linarith+
      ultimately show False using mod_ring_distinct [of i j ring] by simp
    qed
    then show ?thesis using False i inv(5) by (auto simp: write_mem_def window_ok_def)
  qed
  then have "window_ok (write_mem (c_mem c) ?a bs) base ring file (rd_count ?r) (hi + length bs)" by (simp add: window_ok_def)
  then show ?thesis using ok room inv len by (simp add: ring_ok_def Let_def)
qed

text \<open>Register writes that do not concern the ring.\<close>

lemma ring_ok_cfg:
  assumes "ring_ok p base ring file started lb wc hi c" and "axi_write off (word_of_int v) 15 (c_cfg c p) = (g', [])"
    and "cfg_mode g' = cfg_mode (c_cfg c p)" "cfg_stream_pingpong g' = cfg_stream_pingpong (c_cfg c p)"
      "cfg_desc_base g' = cfg_desc_base (c_cfg c p)" "cfg_stream_ring_size g' = cfg_stream_ring_size (c_cfg c p)"
      "cfg_stream_write_count g' = cfg_stream_write_count (c_cfg c p)"
  shows "ring_ok p base ring file started lb wc hi (card_reg_write p off v c)"
  using assms by (simp add: ring_ok_def Let_def card_reg_write_def)

lemma ring_ok_start:
  assumes "ring_ok p base ring file False lb wc hi c" and "0 < ring" and "ring mod 64 = 0"
  shows "ring_ok p base ring file True lb wc hi (card_reg_write p 0 1 c)"
  using assms by (auto simp: ring_ok_def Let_def card_reg_write_def axi_simps bit_word_of_int_iff reader_pulse_def)

text \<open>The commit: the high half of the write count takes effect together with the low half before it.\<close>

lemma ring_ok_commit:
  assumes ok: "ring_ok p base ring file started lb wc hi c" and sh: "lo32 (cfg_stream_write_shadow (c_cfg c p)) = word_of_int (int hi)"
    and hi: "hi < 2 ^ 64"
  shows "ring_ok p base ring file started lb hi hi (card_reg_write p 0xa4 (take_bit 32 (drop_bit 32 (int hi))) c)"
proof -
  let ?d = "word_of_int (take_bit 32 (drop_bit 32 (int hi))) :: 32 word"
  have d: "?d = word_of_int (drop_bit 32 (int hi))" by (simp add: wi_bintr)
  have w: "axi_write 0xa4 ?d 15 (c_cfg c p) = ((c_cfg c p)\<lparr>cfg_stream_write_shadow := set_hi ?d 15 (cfg_stream_write_shadow (c_cfg c p)),
      cfg_stream_write_count := join64 ?d (lo32 (cfg_stream_write_shadow (c_cfg c p)))\<rparr>, [])"
    by (simp add: axi_write_def)
  have j: "join64 ?d (lo32 (cfg_stream_write_shadow (c_cfg c p))) = word_of_int (int hi)"
    unfolding sh d by (rule join64_of_int)
  have u: "unat (word_of_int (int hi) :: 64 word) = hi" using hi by (simp add: unat_of_nat take_bit_nat_eq_self)
  have "wc \<le> hi" using ok by (simp add: ring_ok_def Let_def)
  then show ?thesis using ok u
    unfolding card_reg_write_def w j prod.case by (simp add: ring_ok_def Let_def)
qed

section \<open>Copying a record\<close>

text \<open>The invariant together with a fact about the configuration and the pulses, which copying leaves alone.\<close>

definition ring_with :: "((nat \<Rightarrow> axi_cfg) \<Rightarrow> (nat \<times> pulse) list \<Rightarrow> bool) \<Rightarrow> nat \<Rightarrow> int \<Rightarrow> nat \<Rightarrow> bytes
    \<Rightarrow> bool \<Rightarrow> nat \<Rightarrow> nat \<Rightarrow> nat \<Rightarrow> card \<Rightarrow> bool" where
  "ring_with R p base ring file started lb wc hi c \<longleftrightarrow> ring_ok p base ring file started lb wc hi c \<and> R (c_cfg c) (c_pulses c)"

lemma ring_with_advance: "ring_with R p base ring file started lb wc hi c \<Longrightarrow> ring_with R p base ring file started lb wc hi (card_advance k c)"
  by (simp add: ring_with_def ring_ok_advance)

lemma ring_with_write:
  assumes "ring_with R p base ring file started lb wc hi c" and "hi + length bs \<le> lb + ring"
    and "hi mod ring + length bs \<le> ring" and "bs = take (length bs) (drop hi file)" and "0 < ring"
  shows "ring_with R p base ring file started lb wc (hi + length bs)
     (c\<lparr>c_mem := write_mem (c_mem c) (base + int (hi mod ring)) bs\<rparr>)"
  using ring_ok_write [OF _ assms(2-5)] assms(1) by (simp add: ring_with_def)

lemma drop_take_part:
  assumes "data = take (length data) (drop w file)" and "j + m \<le> n" and "d + n \<le> length data"
  shows "take m (drop j (take n (drop d data))) = take m (drop (w + d + j) file)"
proof -
  have "take m (drop j (take n (drop d data))) = take m (drop (d + j) data)"
    using assms(2) by (simp add: drop_take min_def add.commute)
  also have "\<dots> = take m (drop (d + j) (take (length data) (drop w file)))" using assms(1) by simp
  also have "\<dots> = take m (drop (w + d + j) file)"
    using assms(2,3) by (simp add: drop_take min_def ac_simps)
  finally show ?thesis .
qed

context timed_card begin

lemma ring_chunk_holds:
  assumes ring: "0 < ring" and room: "wc + length data \<le> lb + ring" and seg: "data = take (length data) (drop wc file)"
    and fit: "(wc + d) mod ring + n \<le> ring" and d: "d + n \<le> length data"
  shows "spec (holds (ring_with R p base ring file started lb wc (wc + d)) T)
     (write_chunk_all os (take n (drop d data)) (base + int ((wc + d) mod ring)))
     (\<lambda>_. holds (ring_with R p base ring file started lb wc (wc + d + n)) T) E"
proof -
  let ?chunk = "take n (drop d data)"
  have len: "length ?chunk = n" using d by simp
  have "spec (holds (ring_with R p base ring file started lb wc (wc + d + 0)) T)
     (write_chunk_all os ?chunk (base + int ((wc + d) mod ring)))
     (\<lambda>_. holds (ring_with R p base ring file started lb wc (wc + d + length ?chunk)) T) E"
  proof (rule chunk_holds)
    fix j m k c
    assume ok: "ring_with R p base ring file started lb wc (wc + d + j) c" and m: "0 < m" "j + m \<le> length ?chunk"
    let ?bs = "take m (drop j ?chunk)"
    have j: "j + m \<le> n" using m len by simp
    have bs: "?bs = take m (drop (wc + d + j) file)" by (rule drop_take_part [OF seg j d])
    have lbs: "length ?bs = m" using j len by simp
    have a: "(wc + d + j) mod ring = (wc + d) mod ring + j"
      using mod_ring_run [of "wc + d" "wc + d + j" ring] j m(1) fit by simp
    have "ring_with R p base ring file started lb wc (wc + d + j + length ?bs)
      ((card_advance k c)\<lparr>c_mem := write_mem (c_mem (card_advance k c)) (base + int ((wc + d + j) mod ring)) ?bs\<rparr>)"
    proof (rule ring_with_write [OF ring_with_advance [OF ok] _ _ _ ring])
      show "wc + d + j + length ?bs \<le> lb + ring" using room j d lbs by linarith
      show "(wc + d + j) mod ring + length ?bs \<le> ring" using a fit j lbs by linarith
      show "?bs = take (length ?bs) (drop (wc + d + j) file)" unfolding lbs by (rule bs)
    qed
    then show "ring_with R p base ring file started lb wc (wc + d + (j + m))
        ((card_advance k c)\<lparr>c_mem := write_mem (c_mem c) (base + int ((wc + d) mod ring) + int j) ?bs\<rparr>)"
      unfolding lbs a by (simp add: add.assoc)
  qed
  then show ?thesis unfolding len by simp
qed

lemma pwrite_ring_holds:
  assumes ring: "0 < ring" and room: "wc + length data \<le> lb + ring" and seg: "data = take (length data) (drop wc file)"
  shows "spec (holds (ring_with R p base ring file started lb wc wc) T) (pwrite_ring os data base (int ring) (int wc))
     (\<lambda>_. holds (ring_with R p base ring file started lb wc (wc + length data)) T) E"
proof -
  let ?I = "\<lambda>(off :: int, dn :: int) w. \<exists>d. dn = int d \<and> d \<le> length data \<and> (d < length data \<longrightarrow> off = int ((wc + d) mod ring))
     \<and> holds (ring_with R p base ring file started lb wc (wc + d)) T w"
  have "spec (?I (int wc mod int ring, 0)) (pwrite_ring os data base (int ring) (int wc))
     (\<lambda>_. holds (ring_with R p base ring file started lb wc (wc + length data)) T) E"
    unfolding pwrite_ring_def
  proof (rule spec_loop [where I = ?I and m = "\<lambda>(off, dn) w. nat (int (length data) - dn)"], rule spec_assume)
    fix s :: "int \<times> int" and v assume inv: "?I s v"
    obtain off d where s: "s = (off, int d)" and d: "d \<le> length data" "d < length data \<longrightarrow> off = int ((wc + d) mod ring)"
      and h: "holds (ring_with R p base ring file started lb wc (wc + d)) T v"
      using inv by (cases s) auto
    show "spec (\<lambda>w. w = v) (case s of (offset, done) \<Rightarrow>
        if done < int (length data)
        then let chunk_len = min (int (length data) - done) (int ring - offset) in
             seq_io (write_chunk_all os (take (nat chunk_len) (drop (nat done) data)) (base + offset))
                    (ret (Continue (0, done + chunk_len)))
        else ret (Break ()))
      (\<lambda>c w. case c of Continue s' \<Rightarrow> ?I s' w \<and> (case s' of (off, dn) \<Rightarrow> \<lambda>w. nat (int (length data) - dn)) w < (case s of (off, dn) \<Rightarrow> \<lambda>w. nat (int (length data) - dn)) v
        | Break a \<Rightarrow> holds (ring_with R p base ring file started lb wc (wc + length data)) T w) E"
    proof (cases "d < length data")
      case False
      then show ?thesis using d h s by (auto intro!: spec_ret)
    next
      case True
      define r where "r = (wc + d) mod ring"
      define n where "n = min (length data - d) (ring - r)"
      have r: "r < ring" using ring by (simp add: r_def)
      then have n: "0 < n" "d + n \<le> length data" "r + n \<le> ring" using True by (auto simp: n_def)
      have off: "off = int r" using True d by (simp add: r_def)
      have cl: "min (int (length data) - int d) (int ring - int r) = int n"
        using True r by (simp add: n_def of_nat_diff)
      have wrap: "int 0 = int ((wc + (d + n)) mod ring)" if "d + n < length data"
      proof -
        have "n = ring - r" using that True by (simp add: n_def)
        then have "wc + (d + n) = wc + d + (ring - r)" by simp
        moreover have "(wc + d + (ring - r)) mod ring = (r + (ring - r)) mod ring" by (simp add: r_def mod_add_left_eq)
        ultimately show ?thesis using r by simp
      qed
      have "spec (\<lambda>w. w = v) (write_chunk_all os (take n (drop d data)) (base + int r))
          (\<lambda>_. holds (ring_with R p base ring file started lb wc (wc + d + n)) T) E"
        by (rule spec_conseq [OF ring_chunk_holds [OF ring room seg n(3) [unfolded r_def] n(2), of R p base started T E, folded r_def]])
          (use h in simp_all)
      then have "spec (\<lambda>w. w = v) (seq_io (write_chunk_all os (take n (drop d data)) (base + int r)) (ret (Continue (0, int d + int n))))
        (\<lambda>c w. case c of Continue s' \<Rightarrow> ?I s' w \<and> (case s' of (off, dn) \<Rightarrow> \<lambda>w. nat (int (length data) - dn)) w < (case s of (off, dn) \<Rightarrow> \<lambda>w. nat (int (length data) - dn)) v
          | Break a \<Rightarrow> holds (ring_with R p base ring file started lb wc (wc + length data)) T w) E"
        by (rule spec_bind, intro spec_ret) (use n wrap in \<open>auto intro!: exI [of _ "d + n"] simp: add.assoc s\<close>)
      then show ?thesis using True unfolding s off by (simp add: cl Let_def)
    qed
  qed
  then show ?thesis
    by (rule spec_conseq) (auto simp: zmod_int intro!: exI [of _ 0])
qed

end

section \<open>Records\<close>

definition is_record :: "bytes \<Rightarrow> bool" where
  "is_record b \<longleftrightarrow> read_record b = Inr (Some b, [])"

lemma read_record_None: "read_record fh = Inr (None, fh') \<Longrightarrow> fh = [] \<and> fh' = []"
  by (auto simp: read_record_def Let_def split: if_splits)

lemma read_record_Some:
  assumes "read_record fh = Inr (Some b, fh')"
  shows "fh = b @ fh' \<and> is_record b \<and> b \<noteq> []"
proof -
  define header where "header = take 64 fh"
  define n where "n = align_up (le_int (pyslice 12 14 header)) 64"
  define payload where "payload = take (nat n) (drop 64 fh)"
  have "0 \<le> le_int (pyslice 12 14 header)" by (rule le_int_nonneg)
  then have n: "0 \<le> n" using align_up_ge [of 64 "le_int (pyslice 12 14 header)"] by (simp add: n_def)
  have h: "length header = 64" and pl: "int (length payload) = n" and b: "b = header @ payload" and fh': "fh' = drop (length payload) (drop 64 fh)"
    using assms by (auto simp: read_record_def Let_def header_def n_def payload_def split: if_splits)
  have "payload = take (length payload) (drop 64 fh)"
    unfolding payload_def by (simp add: min_def)
  then have "payload @ fh' = drop 64 fh" unfolding fh' by (metis append_take_drop_id)
  then have fh: "fh = b @ fh'" unfolding b header_def by simp
  have r: "take 64 b = header" "drop (length header) b = payload" "take (nat n) payload = payload"
    using h pl n by (simp_all add: b)
  have "header \<noteq> []" using h by auto
  then have "read_record b = Inr (Some b, [])"
    unfolding read_record_def Let_def r n_def [symmetric] using h pl by (simp add: b)
  then show ?thesis using fh h b by (auto simp: is_record_def)
qed

section \<open>The feeding loop\<close>

text \<open>What the state of the loop says of the file, and what the card then holds.\<close>

definition feed_pure :: "bytes \<Rightarrow> feed \<Rightarrow> bool" where
  "feed_pure file st \<longleftrightarrow> 0 \<le> fd_write_count st \<and> fd_write_count st \<le> int (length file)
     \<and> (\<exists>rs. concat rs = take (nat (fd_write_count st)) file \<and> list_all is_record rs \<and> int (length rs) = fd_packet_count st)
     \<and> (case fd_pending st of None \<Rightarrow> drop (nat (fd_write_count st)) file = fd_fh st
        | Some b \<Rightarrow> is_record b \<and> drop (nat (fd_write_count st)) file = b @ fd_fh st)
     \<and> (fd_eof st \<longrightarrow> fd_pending st = None \<and> fd_fh st = [])"

definition feed_card :: "nat \<Rightarrow> int \<Rightarrow> nat \<Rightarrow> bytes \<Rightarrow> (nat \<times> pulse) list \<Rightarrow> nat \<Rightarrow> nat \<Rightarrow> nat \<Rightarrow> feed \<Rightarrow> card \<Rightarrow> bool" where
  "feed_card p base ring file ps lb wc hi st c \<longleftrightarrow> ring_ok p base ring file (fd_started st) lb wc hi c
     \<and> c_pulses c = ps @ (if fd_started st then [(p, Start)] else [])
     \<and> (fd_eof st \<longrightarrow> cfg_stream_eof (c_cfg c p) \<and> cfg_pkt_count (c_cfg c p) = word_of_int (fd_packet_count st))"

definition feed_inv :: "nat \<Rightarrow> int \<Rightarrow> nat \<Rightarrow> bytes \<Rightarrow> (nat \<times> pulse) list \<Rightarrow> feed \<Rightarrow> card \<Rightarrow> bool" where
  "feed_inv p base ring file ps st c \<longleftrightarrow> feed_pure file st
     \<and> feed_card p base ring file ps 0 (nat (fd_write_count st)) (nat (fd_write_count st)) st c"

text \<open>Whatever happens, the card is in such a state.\<close>

definition fed :: "nat \<Rightarrow> int \<Rightarrow> nat \<Rightarrow> bytes \<Rightarrow> (nat \<times> pulse) list \<Rightarrow> card \<Rightarrow> bool" where
  "fed p base ring file ps c \<longleftrightarrow> (\<exists>started wc hi. ring_ok p base ring file started 0 wc hi c
     \<and> c_pulses c = ps @ (if started then [(p, Start)] else []))"

lemma ring_ok_lb: "ring_ok p base ring file started lb wc hi c \<Longrightarrow> lb' \<le> lb \<Longrightarrow> ring_ok p base ring file started lb' wc hi c"
  by (simp add: ring_ok_def Let_def)

lemma feed_card_advance [simp]: "feed_card p base ring file ps lb wc hi st c \<Longrightarrow> feed_card p base ring file ps lb wc hi st (card_advance k c)"
  by (simp add: feed_card_def ring_ok_advance)

lemma feed_inv_advance [simp]: "feed_inv p base ring file ps st c \<Longrightarrow> feed_inv p base ring file ps st (card_advance k c)"
  by (simp add: feed_inv_def)

lemma fed_advance [simp]: "fed p base ring file ps c \<Longrightarrow> fed p base ring file ps (card_advance k c)"
  unfolding fed_def card_advance_simps by (blast intro: ring_ok_advance)

lemma feed_card_lb: "feed_card p base ring file ps lb wc hi st c \<Longrightarrow> lb' \<le> lb \<Longrightarrow> feed_card p base ring file ps lb' wc hi st c"
  unfolding feed_card_def by (blast intro: ring_ok_lb)

lemma feed_card_fed: "feed_card p base ring file ps lb wc hi st c \<Longrightarrow> fed p base ring file ps c"
  unfolding feed_card_def fed_def by (blast intro: ring_ok_lb)

lemma feed_inv_fed: "feed_inv p base ring file ps st c \<Longrightarrow> fed p base ring file ps c"
  unfolding feed_inv_def by (blast intro: feed_card_fed)

lemma feed_card_start:
  assumes ok: "feed_card p base ring file ps lb wc hi st c" and st: "\<not> fd_started st" and ring: "0 < ring" "ring mod 64 = 0"
  shows "feed_card p base ring file ps lb wc hi (st\<lparr>fd_started := True\<rparr>) (card_reg_write p 0 1 c)"
proof -
  have r: "ring_ok p base ring file False lb wc hi c" and ps: "c_pulses c = ps" and e: "fd_eof st \<longrightarrow>
      cfg_stream_eof (c_cfg c p) \<and> cfg_pkt_count (c_cfg c p) = word_of_int (fd_packet_count st)"
    using ok st by (simp_all add: feed_card_def)
  have w: "axi_write 0 (word_of_int 1) 15 (c_cfg c p) = ((c_cfg c p)\<lparr>pause := False\<rparr>, [Start])"
    by (simp add: axi_simps bit_word_of_int_iff)
  have "ring_ok p base ring file True lb wc hi (card_reg_write p 0 1 c)" by (rule ring_ok_start [OF r ring])
  moreover have "c_pulses (card_reg_write p 0 1 c) = ps @ [(p, Start)]" unfolding card_reg_write_def w using ps by simp
  moreover have "c_cfg (card_reg_write p 0 1 c) p = (c_cfg c p)\<lparr>pause := False\<rparr>" unfolding card_reg_write_def w by simp
  ultimately show ?thesis using e by (simp add: feed_card_def)
qed

lemma spec_ex: "(\<And>n. spec (P n) m Q E) \<Longrightarrow> spec (\<lambda>w. \<exists>n. P n w) m Q E"
  by (auto simp: spec_def)

context timed_card begin

lemma start_once_holds:
  assumes p: "p < 2" and ring: "0 < ring" "ring mod 64 = 0"
  shows "spec (holds (feed_card p base ring file ps lb wc hi st) T) (start_once os (tx_port_base p) wanted st)
     (\<lambda>st' w. st' = st\<lparr>fd_started := fd_started st \<or> wanted\<rparr> \<and> holds (feed_card p base ring file ps lb wc hi st') T w) E"
proof (cases "\<not> fd_started st \<and> wanted")
  case False
  then have "st\<lparr>fd_started := fd_started st \<or> wanted\<rparr> = st" by (cases st) auto
  then show ?thesis unfolding start_once_def if_not_P [OF False] by (intro spec_ret) simp
next
  case True
  have d: "decode (tx_port_base p + 0x00) = Some (p, 0x00)" by (rule decode_port) (use p in simp_all)
  have st: "st\<lparr>fd_started := fd_started st \<or> wanted\<rparr> = st\<lparr>fd_started := True\<rparr>" using True by simp
  show ?thesis
    unfolding start_once_def if_P [OF True] start_replay_def
  proof (rule spec_bind [OF write32_holds [OF d, where Q = "feed_card p base ring file ps lb wc hi (st\<lparr>fd_started := True\<rparr>)"]])
    fix k c assume "feed_card p base ring file ps lb wc hi st c"
    then have "feed_card p base ring file ps lb wc hi st (card_advance k c)" by (rule feed_card_advance)
    then have "feed_card p base ring file ps lb wc hi (st\<lparr>fd_started := True\<rparr>) (card_reg_write p 0 1 (card_advance k c))"
      by (rule feed_card_start) (use True ring in simp_all)
    then show "feed_card p base ring file ps lb wc hi (st\<lparr>fd_started := True\<rparr>) (card_reg_write p 0x00 (take_bit 32 0x1) (card_advance k c))"
      by simp
  qed (rule spec_ret, simp add: st)
qed

lemma feed_deadline_holds:
  assumes L: "\<And>t. L \<le> t \<Longrightarrow> feed_timeout < fl (fl t - load_start)" and pos: "0 < feed_timeout"
    and P: "\<And>k c. P c \<Longrightarrow> P (card_advance k c)"
  shows "spec (holds P T) (feed_deadline os feed_timeout load_start) (\<lambda>_ w. holds P T w \<and> T < L) (\<lambda>e w. P (view w))"
  unfolding feed_deadline_def if_P [OF pos]
proof (rule spec_bind [OF elapsed_holds [where P = P, OF P]], assumption, rule spec_assume)
  fix t assume t: "fl (fl T - load_start) \<le> t"
  show "spec (holds P T) (if feed_timeout < t then raise (RuntimeError (''ring feed timeout after '' @ show_fixed3 feed_timeout @ ''s''))
      else ret ()) (\<lambda>_ w. holds P T w \<and> T < L) (\<lambda>e w. P (view w))"
  proof (cases "feed_timeout < t")
    case True
    then show ?thesis by (auto intro!: spec_raise simp: holds_def)
  next
    case False
    have "T < L"
    proof (rule ccontr)
      assume "\<not> T < L"
      then have "feed_timeout < fl (fl T - load_start)" by (intro L) simp
      with False t show False by linarith
    qed
    then show ?thesis unfolding if_not_P [OF False] by (intro spec_ret) simp
  qed
qed

lemma check_stream_status_holds:
  assumes p: "p < 2" and P: "\<And>k c. P c \<Longrightarrow> P (card_advance k c)"
  shows "spec (holds P T) (check_stream_status os (tx_port_base p)) (\<lambda>_. holds P T) (\<lambda>e w. P (view w))"
  unfolding check_stream_status_def Let_def
proof (rule spec_bind [OF read32_holds [OF decode_port [OF p], where P = P, OF _ _ P]], simp, simp, assumption)
  fix status
  show "spec (\<lambda>w. holds P (T + access_time) w \<and> (\<exists>s. status = uint (axi_read 0xbc (c_cfg (view w) p) s)
      \<and> stat_stream_read_count s = word_of_nat (rd_count (c_reader (view w) p))))
    (if status AND (push_bit 6 1 OR push_bit 10 1 OR push_bit 12 1) \<noteq> 0
     then raise (RuntimeError (''FPGA stream ring error: '' @ ''status=0x'' @ pad_left 8 (CHR ''0'') (show_base 16 (nat status))))
     else if status \<noteq> 0 \<and> status AND push_bit 7 1 = 0
     then raise (RuntimeError (''FPGA stream reader is not in ring mode: '' @ ''status=0x'' @ pad_left 8 (CHR ''0'') (show_base 16 (nat status))))
     else if status \<noteq> 0 \<and> status AND push_bit 9 1 = 0
     then raise (RuntimeError (''FPGA stream ring size is invalid: '' @ ''status=0x'' @ pad_left 8 (CHR ''0'') (show_base 16 (nat status))))
     else ret status) (\<lambda>_. holds P T) (\<lambda>e w. P (view w))"
    using access_time_pos by (auto intro!: spec_ret spec_raise simp: holds_def)
qed

text \<open>The read count is below \<open>2^32\<close>, so its high half is zero and the plain 64-bit read cannot tear.\<close>

lemma read_count_holds:
  assumes p: "p < 2" and wc: "wc < 2 ^ 32"
  shows "spec (holds (feed_card p base ring file ps 0 wc hi st) T) (read64 os (tx_port_base p + 0xa8) (tx_port_base p + 0xac))
     (\<lambda>x w. \<exists>n. x = int n \<and> holds (feed_card p base ring file ps n wc hi st) (T + access_time) w) E"
  unfolding read64_def
proof (rule spec_bind [OF read32_holds [OF decode_port [OF p]]], simp, simp, simp)
  fix l
  have small: "rd_count (c_reader c p) < 2 ^ 32" if "feed_card p base ring file ps lb wc hi st c" for c lb
    using that wc by (simp add: feed_card_def ring_ok_def Let_def)
  have lo: "uint (lo32 (word_of_nat n)) = int n" if "n < 2 ^ 32" for n
    using that by (simp add: lo32_def unsigned_ucast_eq unsigned_of_nat take_bit_int_eq_self_iff take_bit_nat_eq_self)
  have hi: "uint (hi32 (word_of_nat n)) = 0" if "n < 2 ^ 32" for n
  proof -
    have "uint (drop_bit 32 (word_of_nat n :: 64 word)) = 0"
      using that by (simp add: unsigned_drop_bit_eq unsigned_of_nat take_bit_int_eq_self take_bit_nat_eq_self drop_bit_eq_div uint_div)
    then have "drop_bit 32 (word_of_nat n :: 64 word) = 0" by (simp add: word_uint_eq_iff)
    then show ?thesis by (simp add: hi32_def)
  qed
  show "spec (\<lambda>w. holds (feed_card p base ring file ps 0 wc hi st) (T + access_time) w \<and>
        (\<exists>s. l = uint (axi_read 0xa8 (c_cfg (view w) p) s) \<and> stat_stream_read_count s = word_of_nat (rd_count (c_reader (view w) p))))
      (bind_io (read32 os (tx_port_base p + 0xac)) (\<lambda>h. ret (l OR push_bit 32 h)))
      (\<lambda>x w. \<exists>n. x = int n \<and> holds (feed_card p base ring file ps n wc hi st) (T + access_time) w) E"
  proof (rule spec_conseq [where P' = "\<lambda>w. \<exists>n. l = int n \<and> holds (feed_card p base ring file ps n wc hi st) (T + access_time) w", rotated])
    fix w assume w: "holds (feed_card p base ring file ps 0 wc hi st) (T + access_time) w \<and>
        (\<exists>s. l = uint (axi_read 0xa8 (c_cfg (view w) p) s) \<and> stat_stream_read_count s = word_of_nat (rd_count (c_reader (view w) p)))"
    then have "l = uint (lo32 (word_of_nat (rd_count (c_reader (view w) p))))" by (auto simp: axi_read_def)
    then have "l = int (rd_count (c_reader (view w) p))" using lo small [where lb = 0] w by (simp add: holds_def)
    moreover have "feed_card p base ring file ps (rd_count (c_reader (view w) p)) wc hi st (view w)"
      using w by (simp add: holds_def feed_card_def ring_ok_def Let_def)
    ultimately show "\<exists>n. l = int n \<and> holds (feed_card p base ring file ps n wc hi st) (T + access_time) w"
      using w by (auto simp: holds_def)
  next
    show "spec (\<lambda>w. \<exists>n. l = int n \<and> holds (feed_card p base ring file ps n wc hi st) (T + access_time) w)
      (bind_io (read32 os (tx_port_base p + 0xac)) (\<lambda>h. ret (l OR push_bit 32 h)))
      (\<lambda>x w. \<exists>n. x = int n \<and> holds (feed_card p base ring file ps n wc hi st) (T + access_time) w) E"
    proof (rule spec_ex)
      fix n
      show "spec (\<lambda>w. l = int n \<and> holds (feed_card p base ring file ps n wc hi st) (T + access_time) w)
        (bind_io (read32 os (tx_port_base p + 0xac)) (\<lambda>h. ret (l OR push_bit 32 h)))
        (\<lambda>x w. \<exists>n. x = int n \<and> holds (feed_card p base ring file ps n wc hi st) (T + access_time) w) E"
      proof (subst conj_commute, rule spec_assume, rule spec_bind [OF read32_holds [OF decode_port [OF p]]], simp, simp, simp)
        fix h assume n: "l = int n"
        show "spec (\<lambda>w. holds (feed_card p base ring file ps n wc hi st) (T + access_time + access_time) w \<and>
            (\<exists>s. h = uint (axi_read 0xac (c_cfg (view w) p) s) \<and> stat_stream_read_count s = word_of_nat (rd_count (c_reader (view w) p))))
          (ret (l OR push_bit 32 h))
          (\<lambda>x w. \<exists>n. x = int n \<and> holds (feed_card p base ring file ps n wc hi st) (T + access_time) w) E"
        proof (rule spec_ret)
          fix w assume w: "holds (feed_card p base ring file ps n wc hi st) (T + access_time + access_time) w \<and>
            (\<exists>s. h = uint (axi_read 0xac (c_cfg (view w) p) s) \<and> stat_stream_read_count s = word_of_nat (rd_count (c_reader (view w) p)))"
          then have "h = 0" using hi small [where lb = n] by (auto simp: axi_read_def holds_def)
          then show "\<exists>n. l OR push_bit 32 h = int n \<and> holds (feed_card p base ring file ps n wc hi st) (T + access_time) w"
            using w n access_time_pos by (auto simp: holds_def)
        qed
      qed
    qed
  qed auto
qed

end

end
