(* ===== verification/RingRun.thy ===== *)
theory RingRun
  imports RingSafety
begin

text \<open>
  The whole of xdma_stream_ring.py against the card: the feeding loop keeps the invariant of
  RingSafety in every round, ends by the end of the file or by an error, and the program leaves a
  reader that has seen nothing but a prefix of the file.  Last, what happens to a ring state above 4 GiB when
  the reader crosses a multiple of it between the two reads of its count.
\<close>

section \<open>The state of the loop\<close>

lemma feed_pure_record:
  assumes f: "feed_pure file st" and st: "fd_pending st = None" "\<not> fd_eof st" and r: "read_record (fd_fh st) = Inr (Some b, fh)"
  shows "feed_pure file (st\<lparr>fd_pending := Some b, fd_fh := fh\<rparr>)"
  using f st read_record_Some [OF r] by (simp add: feed_pure_def)

lemma feed_pure_eof:
  assumes f: "feed_pure file st" and st: "fd_pending st = None" and r: "read_record (fd_fh st) = Inr (None, fh)"
  shows "feed_pure file (st\<lparr>fd_pending := None, fd_fh := fh, fd_eof := True\<rparr>)" and "fd_write_count st = int (length file)"
proof -
  have e: "fd_fh st = []" "fh = []" using read_record_None [OF r] by simp_all
  show "feed_pure file (st\<lparr>fd_pending := None, fd_fh := fh, fd_eof := True\<rparr>)"
    using f st e by (simp add: feed_pure_def del: drop_eq_Nil)
  show "fd_write_count st = int (length file)"
    using f st e by (simp add: feed_pure_def) linarith
qed

lemma feed_pure_push:
  assumes f: "feed_pure file st" and b: "fd_pending st = Some b"
  shows "feed_pure file (st\<lparr>fd_write_count := fd_write_count st + int (length b), fd_packet_count := fd_packet_count st + 1, fd_pending := None\<rparr>)"
    and "b = take (length b) (drop (nat (fd_write_count st)) file)" and "nat (fd_write_count st) + length b \<le> length file"
proof -
  let ?w = "nat (fd_write_count st)"
  obtain rs where rs: "concat rs = take ?w file" "list_all is_record rs" "int (length rs) = fd_packet_count st"
    and w: "0 \<le> fd_write_count st" "fd_write_count st \<le> int (length file)"
    and d: "is_record b" "drop ?w file = b @ fd_fh st" and e: "\<not> fd_eof st"
    using f b by (auto simp: feed_pure_def)
  have len: "length (drop ?w file) = length b + length (fd_fh st)" using d(2) by simp
  then have n: "?w + length b \<le> length file" "nat (fd_write_count st + int (length b)) = ?w + length b"
    using w by (simp_all add: nat_add_distrib)
  have "take (?w + length b) file = take ?w file @ b" using d(2) by (simp add: take_add)
  then have "concat (rs @ [b]) = take (?w + length b) file \<and> list_all is_record (rs @ [b])
      \<and> int (length (rs @ [b])) = fd_packet_count st + 1"
    using rs d(1) by simp
  moreover have "drop (?w + length b) file = fd_fh st" using d(2) by (simp flip: drop_drop add: add.commute)
  ultimately show "feed_pure file (st\<lparr>fd_write_count := fd_write_count st + int (length b), fd_packet_count := fd_packet_count st + 1, fd_pending := None\<rparr>)"
    using w n e unfolding feed_pure_def by (intro conjI exI [of _ "rs @ [b]"]) simp_all
  show "b = take (length b) (drop ?w file)" unfolding d(2) by simp
  show "?w + length b \<le> length file" by (rule n(1))
qed

lemma feed_pure_started [simp]: "feed_pure file (st\<lparr>fd_started := x\<rparr>) = feed_pure file st"
  by (cases "fd_pending st") (simp_all add: feed_pure_def)

section \<open>One round\<close>

context timed_card begin

lemma feed_holds_lb: "holds (feed_card p base ring file ps lb wc hi st) T w \<Longrightarrow> T' \<le> T
    \<Longrightarrow> holds (feed_card p base ring file ps 0 wc hi st) T' w"
  using feed_card_lb [OF _ le0] by (auto simp: holds_def)

lemma reg_pair_holds:
  assumes p: "p < 2" and lo: "0 \<le> lo" "lo < 0x10000" and hi: "0 \<le> hi" "hi < 0x10000"
    and P: "\<And>k c. P c \<Longrightarrow> P (card_advance k c)" and R: "\<And>k c. R c \<Longrightarrow> R (card_advance k c)"
    and l: "\<And>c. P c \<Longrightarrow> R (card_reg_write p lo v c)" and h: "\<And>c. R c \<Longrightarrow> Q (card_reg_write p hi (take_bit 32 (drop_bit 32 v)) c)"
  shows "spec (holds P T) (write64 os (tx_port_base p + lo) (tx_port_base p + hi) v) (\<lambda>_. holds Q T) E"
  unfolding write64_def
proof (rule spec_bind)
  have tb: "card_reg_write p lo (take_bit 32 v) c = card_reg_write p lo v c" for c
    by (simp add: card_reg_write_def wi_bintr)
  show "spec (holds P T) (write32 os (tx_port_base p + lo) v) (\<lambda>_. holds R T) E"
    by (rule write32_holds [OF decode_port [OF p lo]]) (simp add: tb P l)
  show "spec (holds R T) (write32 os (tx_port_base p + hi) (drop_bit 32 v)) (\<lambda>_. holds Q T) E"
    by (rule write32_holds [OF decode_port [OF p hi]]) (rule h, rule R)
qed

text \<open>The end of the file: the packet count and the end mark.\<close>

lemma feed_card_ctrl:
  assumes "feed_card p base ring file ps lb wc hi st c" and "axi_write off (word_of_int v) 15 (c_cfg c p) = (g', [])"
    and "cfg_mode g' = cfg_mode (c_cfg c p)" "cfg_stream_pingpong g' = cfg_stream_pingpong (c_cfg c p)"
      "cfg_desc_base g' = cfg_desc_base (c_cfg c p)" "cfg_stream_ring_size g' = cfg_stream_ring_size (c_cfg c p)"
      "cfg_stream_write_count g' = cfg_stream_write_count (c_cfg c p)"
    and "fd_started st' = fd_started st" and "fd_eof st' \<longrightarrow> cfg_stream_eof g' \<and> cfg_pkt_count g' = word_of_int (fd_packet_count st')"
  shows "feed_card p base ring file ps lb wc hi st' (card_reg_write p off v c)"
proof -
  have "ring_ok p base ring file (fd_started st) lb wc hi (card_reg_write p off v c)"
    using assms(1) by (intro ring_ok_cfg [OF _ assms(2-7)]) (simp add: feed_card_def)
  moreover have "c_pulses (card_reg_write p off v c) = c_pulses c" "c_cfg (card_reg_write p off v c) p = g'"
    using assms(2) by (simp_all add: card_reg_write_def)
  ultimately show ?thesis using assms(1,8,9) by (simp add: feed_card_def)
qed

lemma write_eof_holds:
  assumes p: "p < 2" and eof: "\<not> fd_eof st"
  shows "spec (holds (feed_card p base ring file ps lb wc hi st) T)
     (seq_io (write64 os (tx_port_base p + 0x28) (tx_port_base p + 0x2c) (fd_packet_count st)) (write32 os (tx_port_base p + 0xb8) 0x1))
     (\<lambda>_. holds (feed_card p base ring file ps lb wc hi (st\<lparr>fd_eof := True\<rparr>)) T) E"
proof -
  let ?P = "feed_card p base ring file ps lb wc hi st"
  let ?n = "fd_packet_count st"
  let ?R = "\<lambda>c. ?P c \<and> lo32 (cfg_pkt_count (c_cfg c p)) = word_of_int ?n"
  let ?S = "\<lambda>c. ?P c \<and> cfg_pkt_count (c_cfg c p) = word_of_int ?n"
  have "spec (holds ?P T) (write64 os (tx_port_base p + 0x28) (tx_port_base p + 0x2c) ?n) (\<lambda>_. holds ?S T) E"
  proof (rule reg_pair_holds [where P = ?P and R = ?R and Q = ?S, OF p])
    fix c assume "?P c"
    then have "?P (card_reg_write p 0x28 ?n c)"
      by (rule feed_card_ctrl [where g' = "(c_cfg c p)\<lparr>cfg_pkt_count := set_lo (word_of_int ?n) 15 (cfg_pkt_count (c_cfg c p))\<rparr>"])
        (use eof in \<open>simp_all add: axi_write_def\<close>)
    then show "?R (card_reg_write p 0x28 ?n c)" by (simp add: card_reg_write_def axi_write_def set_lo_def)
  next
    let ?d = "word_of_int (take_bit 32 (drop_bit 32 ?n)) :: 32 word"
    have d: "?d = word_of_int (drop_bit 32 ?n)" by (simp add: wi_bintr)
    fix c assume c: "?R c"
    then have "?P (card_reg_write p 0x2c (take_bit 32 (drop_bit 32 ?n)) c)"
      by (intro feed_card_ctrl [where g' = "(c_cfg c p)\<lparr>cfg_pkt_count := set_hi ?d 15 (cfg_pkt_count (c_cfg c p))\<rparr>" and st = st])
        (use eof in \<open>simp_all add: axi_write_def\<close>)
    moreover have "c_cfg (card_reg_write p 0x2c (take_bit 32 (drop_bit 32 ?n)) c) p =
        (c_cfg c p)\<lparr>cfg_pkt_count := set_hi ?d 15 (cfg_pkt_count (c_cfg c p))\<rparr>"
      by (simp add: card_reg_write_def axi_write_def)
    ultimately show "?S (card_reg_write p 0x2c (take_bit 32 (drop_bit 32 ?n)) c)"
      using c unfolding d by (simp add: set_hi_def)
  qed simp_all
  moreover have "spec (holds ?S T) (write32 os (tx_port_base p + 0xb8) 0x1)
     (\<lambda>_. holds (feed_card p base ring file ps lb wc hi (st\<lparr>fd_eof := True\<rparr>)) T) E"
  proof (rule write32_holds [OF decode_port [OF p]])
    fix k c assume c: "?S c"
    have pp: "\<not> cfg_stream_pingpong (c_cfg c p)" using c by (simp add: feed_card_def ring_ok_def Let_def)
    show "feed_card p base ring file ps lb wc hi (st\<lparr>fd_eof := True\<rparr>) (card_reg_write p 0xb8 (take_bit 32 0x1) (card_advance k c))"
      by (rule feed_card_ctrl [where st = st and g' = "(c_cfg c p)\<lparr>cfg_stream_eof := True, cfg_stream_pingpong := False\<rparr>"])
        (use c pp in \<open>simp_all add: axi_simps bit_word_of_int_iff\<close>)
  qed simp_all
  ultimately show ?thesis by (rule spec_bind)
qed


text \<open>The next record of the file, or its end.\<close>

abbreviation feed_holds :: "nat \<Rightarrow> int \<Rightarrow> nat \<Rightarrow> bytes \<Rightarrow> (nat \<times> pulse) list \<Rightarrow> feed \<Rightarrow> rat \<Rightarrow> 'a \<Rightarrow> bool" where
  "feed_holds p base ring file ps st \<equiv>
     holds (feed_card p base ring file ps 0 (nat (fd_write_count st)) (nat (fd_write_count st)) st)"

lemma feed_eof_holds:
  assumes p: "p < 2" and ring: "0 < ring" "ring mod 64 = 0" and eof: "\<not> fd_eof st"
  shows "spec (feed_holds p base ring file ps st T)
     (seq_io (write64 os (tx_port_base p + 0x28) (tx_port_base p + 0x2c) (fd_packet_count st))
       (seq_io (write32 os (tx_port_base p + 0xb8) 0x1) (start_once os (tx_port_base p) True (st\<lparr>fd_fh := fh, fd_eof := True\<rparr>))))
     (\<lambda>st' w. st' = st\<lparr>fd_fh := fh, fd_eof := True, fd_started := True\<rparr> \<and> feed_holds p base ring file ps st' T w) E"
proof -
  let ?F = "feed_card p base ring file ps 0 (nat (fd_write_count st)) (nat (fd_write_count st))"
  have w: "spec (holds (?F st) T)
     (seq_io (write64 os (tx_port_base p + 0x28) (tx_port_base p + 0x2c) (fd_packet_count st)) (write32 os (tx_port_base p + 0xb8) 0x1))
     (\<lambda>_. holds (?F (st\<lparr>fd_fh := fh, fd_eof := True\<rparr>)) T) E"
    by (rule spec_conseq [OF write_eof_holds [OF p eof]]) (auto simp: feed_card_def holds_def)
  show ?thesis unfolding bind_io_assoc [symmetric]
    by (rule spec_conseq [OF spec_bind [OF w start_once_holds [OF p ring]]]) simp_all
qed

lemma feed_read_holds:
  assumes p: "p < 2" and ring: "0 < ring" "ring mod 64 = 0" and pure: "feed_pure file st" and eof: "\<not> fd_eof st"
  shows "spec (feed_holds p base ring file ps st T) (feed_read os (tx_port_base p) mp st)
     (\<lambda>st' w. feed_pure file st' \<and> feed_holds p base ring file ps st' T w \<and> (if fd_pending st' = None
        then fd_eof st' \<and> fd_started st' \<and> fd_write_count st' = int (length file) \<and> (mp = 0 \<or> mp = fd_packet_count st')
        else \<not> fd_eof st'))
     (\<lambda>e w. fed p base ring file ps (view w))"
proof (cases "fd_pending st = None")
  case False
  then show ?thesis unfolding feed_read_def using pure eof by (auto intro!: spec_ret simp: holds_def)
next
  case True
  have fed: "fed p base ring file ps (view w)" if "feed_holds p base ring file ps st T w" for w
    using that by (auto simp: holds_def intro: feed_card_fed)
  have st: "st\<lparr>fd_pending := None, fd_fh := fh, fd_eof := True\<rparr> = st\<lparr>fd_fh := fh, fd_eof := True\<rparr>" for fh
    using True by (cases st) simp
  have read: "feed_read os (tx_port_base p) mp st = bind_io (lift_res (read_record (fd_fh st))) (\<lambda>(pending, fh).
      if pending = None
      then if mp \<noteq> 0 \<and> mp \<noteq> fd_packet_count st
           then raise (RuntimeError (''manifest packet_count='' @ show_int mp @ '' but parsed '' @ show_int (fd_packet_count st)))
           else seq_io (write64 os (tx_port_base p + 0x28) (tx_port_base p + 0x2c) (fd_packet_count st))
               (seq_io (write32 os (tx_port_base p + 0xb8) 0x1)
               (start_once os (tx_port_base p) True (st\<lparr>fd_fh := fh, fd_eof := True\<rparr>)))
      else ret (st\<lparr>fd_pending := pending, fd_fh := fh\<rparr>))"
    unfolding feed_read_def if_P [OF conjI [OF True eof]]
    by (rule arg_cong2 [where f = bind_io, OF refl]) (auto simp: fun_eq_iff Let_def st cong: if_cong)
  show ?thesis
  proof (cases "read_record (fd_fh st)")
    case (Inl e)
    then show ?thesis unfolding read by (auto simp: fed lift_res_def bind_io_def spec_def)
  next
    case (Inr r)
    obtain b fh where r: "read_record (fd_fh st) = Inr (b, fh)" using Inr by (cases r) simp
    show ?thesis
    proof (cases b)
      case (Some b')
      have "feed_pure file (st\<lparr>fd_pending := b, fd_fh := fh\<rparr>)"
        unfolding Some by (rule feed_pure_record [OF pure True eof]) (simp add: r Some)
      then show ?thesis unfolding read r bind_lift_Inr prod.case using eof Some
        by (auto intro!: spec_ret simp: holds_def feed_card_def)
    next
      case None
      show ?thesis
      proof (cases "mp \<noteq> 0 \<and> mp \<noteq> fd_packet_count st")
        case bad: True
        then show ?thesis unfolding read r bind_lift_Inr prod.case None by (auto intro!: spec_raise simp: fed)
      next
        case good: False
        have "feed_pure file (st\<lparr>fd_fh := fh, fd_eof := True, fd_started := True\<rparr>)" "fd_write_count st = int (length file)"
          using feed_pure_eof [OF pure True r [unfolded None]] by (simp_all add: st feed_pure_def)
        then show ?thesis unfolding read r bind_lift_Inr prod.case None if_P [OF refl] if_not_P [OF good]
          by (intro spec_conseq [OF feed_eof_holds [OF p ring eof]]) (use good True in auto)
      qed
    qed
  qed
qed

text \<open>Copying a record behind the committed bytes, and committing it.\<close>

lemma commit_holds:
  assumes p: "p < 2" and hi: "hi < 2 ^ 64" and eof: "\<not> fd_eof st"
  shows "spec (holds (feed_card p base ring file ps lb wc hi st) T)
     (write64 os (tx_port_base p + 0xa0) (tx_port_base p + 0xa4) (int hi))
     (\<lambda>_. holds (feed_card p base ring file ps lb hi hi st) T) E"
proof (rule reg_pair_holds [where P = "feed_card p base ring file ps lb wc hi st" and Q = "feed_card p base ring file ps lb hi hi st"
      and R = "\<lambda>c. feed_card p base ring file ps lb wc hi st c \<and> lo32 (cfg_stream_write_shadow (c_cfg c p)) = word_of_int (int hi)", OF p])
  fix c assume c: "feed_card p base ring file ps lb wc hi st c"
  have "feed_card p base ring file ps lb wc hi st (card_reg_write p 0xa0 (int hi) c)"
    by (rule feed_card_ctrl [OF c, where g' = "(c_cfg c p)\<lparr>cfg_stream_write_shadow := set_lo (word_of_int (int hi)) 15 (cfg_stream_write_shadow (c_cfg c p))\<rparr>"])
      (use eof in \<open>simp_all add: axi_write_def\<close>)
  then show "feed_card p base ring file ps lb wc hi st (card_reg_write p 0xa0 (int hi) c)
      \<and> lo32 (cfg_stream_write_shadow (c_cfg (card_reg_write p 0xa0 (int hi) c) p)) = word_of_int (int hi)"
    by (simp add: card_reg_write_def axi_write_def set_lo_def)
next
  let ?w = "card_reg_write p 0xa4 (take_bit 32 (drop_bit 32 (int hi)))"
  fix c assume c: "feed_card p base ring file ps lb wc hi st c \<and> lo32 (cfg_stream_write_shadow (c_cfg c p)) = word_of_int (int hi)"
  then have "ring_ok p base ring file (fd_started st) lb hi hi (?w c)"
    using hi by (intro ring_ok_commit [where wc = wc]) (simp_all add: feed_card_def)
  moreover have "c_pulses (?w c) = c_pulses c" by (simp add: card_reg_write_def axi_write_def)
  ultimately show "feed_card p base ring file ps lb hi hi st (?w c)" using c eof by (simp add: feed_card_def)
qed simp_all

lemma copy_holds:
  assumes ring: "0 < ring" and room: "wc + length data \<le> lb + ring" and seg: "data = take (length data) (drop wc file)"
  shows "spec (holds (feed_card p base ring file ps lb wc wc st) T) (pwrite_ring os data base (int ring) (int wc))
     (\<lambda>_. holds (feed_card p base ring file ps lb wc (wc + length data) st) T) E"
proof -
  define R :: "(nat \<Rightarrow> axi_cfg) \<Rightarrow> (nat \<times> pulse) list \<Rightarrow> bool" where "R g q \<longleftrightarrow> q = ps @ (if fd_started st then [(p, Start)] else [])
     \<and> (fd_eof st \<longrightarrow> cfg_stream_eof (g p) \<and> cfg_pkt_count (g p) = word_of_int (fd_packet_count st))" for g q
  have f: "feed_card p base ring file ps lb wc hi st = ring_with R p base ring file (fd_started st) lb wc hi" for hi
    by (simp add: fun_eq_iff feed_card_def ring_with_def R_def)
  show ?thesis unfolding f by (rule pwrite_ring_holds [OF ring room seg])
qed


lemma push_room_holds:
  assumes p: "p < 2" and ring: "0 < ring" "ring mod 64 = 0" and len: "length file < 2 ^ 32"
    and pure: "feed_pure file st" and eof: "\<not> fd_eof st" and b: "fd_pending st = Some b"
    and room: "nat (fd_write_count st) + length b \<le> n + ring"
  shows "spec (holds (feed_card p base ring file ps n (nat (fd_write_count st)) (nat (fd_write_count st)) st) T)
     (seq_io (pwrite_ring os b base (int ring) (fd_write_count st))
       (let st = st\<lparr>fd_write_count := fd_write_count st + int (length b), fd_packet_count := fd_packet_count st + 1\<rparr> in
        seq_io (write64 os (tx_port_base p + 0xa0) (tx_port_base p + 0xa4) (fd_write_count st))
        (let st = st\<lparr>fd_pending := None\<rparr> in start_once os (tx_port_base p) (prefill \<le> fd_write_count st) st)))
     (\<lambda>st' w. feed_pure file st' \<and> \<not> fd_eof st' \<and> feed_holds p base ring file ps st' T w) E"
proof -
  let ?w = "nat (fd_write_count st)" and ?hi = "nat (fd_write_count st) + length b"
  define st' where "st' = st\<lparr>fd_write_count := fd_write_count st + int (length b), fd_packet_count := fd_packet_count st + 1, fd_pending := None\<rparr>"
  note push = feed_pure_push [OF pure b]
  have w: "fd_write_count st = int ?w" using pure by (simp add: feed_pure_def)
  have hi: "fd_write_count st + int (length b) = int ?hi" using w by linarith
  have nat_hi: "nat (fd_write_count st + int (length b)) = ?hi" by (subst hi) (rule nat_int)
  have hi': "?hi < 2 ^ 64" using push(3) len by simp
  have copy: "spec (holds (feed_card p base ring file ps n ?w ?w st) T) (pwrite_ring os b base (int ring) (fd_write_count st))
      (\<lambda>_. holds (feed_card p base ring file ps n ?w ?hi st) T) E"
    by (subst w) (rule copy_holds [OF ring(1) room push(2)])
  have commit: "spec (holds (feed_card p base ring file ps n ?w ?hi st) T)
      (write64 os (tx_port_base p + 0xa0) (tx_port_base p + 0xa4) (fd_write_count st + int (length b)))
      (\<lambda>_. holds (feed_card p base ring file ps n ?hi ?hi st') T) E"
    unfolding hi
    by (rule spec_conseq [OF commit_holds [OF p hi' eof]]) (auto simp: holds_def feed_card_def st'_def eof)
  have start: "spec (holds (feed_card p base ring file ps n ?hi ?hi st') T) (start_once os (tx_port_base p) wanted st')
      (\<lambda>st' w. feed_pure file st' \<and> \<not> fd_eof st' \<and> feed_holds p base ring file ps st' T w) E" for wanted
  proof (rule spec_conseq [OF start_once_holds [OF p ring]], assumption)
    fix x w assume x: "x = st'\<lparr>fd_started := fd_started st' \<or> wanted\<rparr> \<and> holds (feed_card p base ring file ps n ?hi ?hi x) T w"
    then have "feed_pure file x" using push(1) [folded st'_def] by simp
    moreover have "nat (fd_write_count x) = ?hi" "\<not> fd_eof x" using x nat_hi eof by (simp_all add: st'_def)
    moreover have "holds (feed_card p base ring file ps 0 ?hi ?hi x) T w"
      by (rule feed_holds_lb [OF conjunct2 [OF x] order_refl])
    ultimately show "feed_pure file x \<and> \<not> fd_eof x \<and> feed_holds p base ring file ps x T w" by simp
  qed
  show ?thesis unfolding Let_def
    by (rule spec_bind [OF copy], simp, rule spec_bind [OF commit], fold st'_def) (rule start)
qed

lemma feed_copy_holds:
  assumes p: "p < 2" and ring: "0 < ring" "ring mod 64 = 0" and len: "length file < 2 ^ 32"
    and pure: "feed_pure file st" and eof: "\<not> fd_eof st" and b: "fd_pending st = Some b"
    and args: "rg_ring_size args = int ring" "rg_ring_base args = base" "0 \<le> rg_guard_bytes args"
    and free: "free = rg_ring_size args - (fd_write_count st - int n) - rg_guard_bytes args"
  shows "spec (holds (feed_card p base ring file ps n (nat (fd_write_count st)) (nat (fd_write_count st)) st) T)
     (feed_copy os (tx_port_base p) args prefill b free st)
     (\<lambda>st' w. feed_pure file st' \<and> \<not> fd_eof st' \<and> feed_holds p base ring file ps st' T w) E"
proof (cases "int (length b) \<le> free")
  case True
  have "0 \<le> fd_write_count st" using pure by (simp add: feed_pure_def)
  then have "nat (fd_write_count st) + length b \<le> n + ring" using True args(1,3) free by linarith
  then show ?thesis unfolding feed_copy_def if_P [OF True] args(1,2) by (rule push_room_holds [OF p ring len pure eof b])
next
  case False
  let ?w = "nat (fd_write_count st)"
  show ?thesis unfolding feed_copy_def if_not_P [OF False]
  proof (rule spec_bind [OF start_once_holds [OF p ring]])
    fix x
    let ?Q = "\<lambda>T. holds (feed_card p base ring file ps n ?w ?w x) T"
    have "spec (?Q T) (sleep os (rg_poll_interval args)) (\<lambda>_. ?Q (T + access_time)) E" by (rule sleep_holds) simp
    then have "spec (?Q T) (seq_io (sleep os (rg_poll_interval args)) (ret x)) (\<lambda>r w. r = x \<and> ?Q (T + access_time) w) E"
      by (rule spec_bind) (simp add: spec_ret)
    then show "spec (\<lambda>w. x = st\<lparr>fd_started := fd_started st \<or> fd_write_count st \<noteq> 0\<rparr> \<and> ?Q T w)
        (seq_io (sleep os (rg_poll_interval args)) (ret x))
        (\<lambda>st' w. feed_pure file st' \<and> \<not> fd_eof st' \<and> feed_holds p base ring file ps st' T w) E"
      apply (subst conj_commute)
      apply (rule spec_assume)
      apply (erule spec_conseq)
      using pure eof access_time_pos by (auto intro: feed_holds_lb)
  qed
qed

lemma feed_push_holds:
  assumes p: "p < 2" and ring: "0 < ring" "ring mod 64 = 0" and len: "length file < 2 ^ 32"
    and pure: "feed_pure file st" and eof: "\<not> fd_eof st" and b: "fd_pending st = Some b"
    and args: "rg_ring_size args = int ring" "rg_ring_base args = base" "0 \<le> rg_guard_bytes args"
  shows "spec (feed_holds p base ring file ps st T) (feed_push os (tx_port_base p) args prefill b st)
     (\<lambda>st' w. feed_pure file st' \<and> \<not> fd_eof st' \<and> feed_holds p base ring file ps st' (T + access_time) w)
     (\<lambda>e w. fed p base ring file ps (view w))"
proof -
  let ?w = "nat (fd_write_count st)" and ?T = "T + access_time"
  let ?P = "\<lambda>n. feed_card p base ring file ps n ?w ?w"
  have w: "fd_write_count st = int ?w" "?w < 2 ^ 32" using pure len by (auto simp: feed_pure_def)
  show ?thesis unfolding feed_push_def
  proof (rule spec_bind [OF read_count_holds [OF p w(2)]], rule spec_ex, subst conj_commute, rule spec_assume)
    fix x n assume x: "x = int n"
    have check: "spec (holds (?P n st) ?T) (check_stream_status os (tx_port_base p)) (\<lambda>_. holds (?P n st) ?T) (\<lambda>e w. fed p base ring file ps (view w))"
      by (rule spec_conseq [OF check_stream_status_holds [OF p, where P = "?P n st"]]) (auto intro: feed_card_fed)
    define level where "level = fd_write_count st - x"
    define free where "free = rg_ring_size args - level - rg_guard_bytes args"
    define st' where "st' = st\<lparr>fd_max_level := max (fd_max_level st) level, fd_min_free := min (fd_min_free st) free\<rparr>"
    have st': "?P n st = feed_card p base ring file ps n (nat (fd_write_count st')) (nat (fd_write_count st')) st'"
      "feed_pure file st'" "\<not> fd_eof st'" "fd_pending st' = Some b"
      using pure eof b by (auto simp: fun_eq_iff feed_card_def feed_pure_def st'_def)
    have copy: "spec (holds (?P n st) ?T) (feed_copy os (tx_port_base p) args prefill b free st')
      (\<lambda>st' w. feed_pure file st' \<and> \<not> fd_eof st' \<and> feed_holds p base ring file ps st' ?T w) (\<lambda>e w. fed p base ring file ps (view w))"
      unfolding st'(1) by (rule feed_copy_holds [OF p ring len st'(2-4) args]) (simp add: free_def level_def x st'_def)
    have bad: "spec (holds (?P n st) ?T) (raise e) (\<lambda>st' w. feed_pure file st' \<and> \<not> fd_eof st' \<and> feed_holds p base ring file ps st' ?T w)
      (\<lambda>e w. fed p base ring file ps (view w))" for e
      by (rule spec_raise) (auto simp: holds_def intro: feed_card_fed)
    show "spec (holds (?P n st) ?T) (seq_io (check_stream_status os (tx_port_base p))
      (if fd_write_count st < x
       then raise (RuntimeError (''FPGA read pointer advanced past host write pointer: '' @ show_int x @ ''>'' @ show_int (fd_write_count st)))
       else let level = fd_write_count st - x; free = rg_ring_size args - level - rg_guard_bytes args
         in feed_copy os (tx_port_base p) args prefill b free
              (st\<lparr>fd_max_level := max (fd_max_level st) level, fd_min_free := min (fd_min_free st) free\<rparr>)))
      (\<lambda>st' w. feed_pure file st' \<and> \<not> fd_eof st' \<and> feed_holds p base ring file ps st' ?T w) (\<lambda>e w. fed p base ring file ps (view w))"
      by (rule spec_bind [OF check]) (simp add: bad copy [unfolded st'_def free_def level_def] Let_def del: append_Cons)
  qed
qed


lemma feed_step_holds:
  assumes p: "p < 2" and ring: "0 < ring" "ring mod 64 = 0" and len: "length file < 2 ^ 32"
    and args: "rg_ring_size args = int ring" "rg_ring_base args = base" "0 \<le> rg_guard_bytes args"
    and timeout: "0 < feed_timeout" and L: "\<And>t. L \<le> t \<Longrightarrow> feed_timeout < fl (fl t - load_start)"
  shows "spec (holds (\<lambda>c. feed_inv p base ring file ps st c \<and> \<not> fd_eof st) T)
      (feed_step os (tx_port_base p) args mp prefill feed_timeout load_start st)
     (\<lambda>c w. case c of
        Continue st' \<Rightarrow> holds (\<lambda>c. feed_inv p base ring file ps st' c \<and> \<not> fd_eof st') (T + access_time) w \<and> T < L
      | Break st' \<Rightarrow> feed_inv p base ring file ps st' (view w) \<and> fd_eof st' \<and> fd_started st'
          \<and> fd_write_count st' = int (length file) \<and> (mp = 0 \<or> mp = fd_packet_count st'))
     (\<lambda>e w. fed p base ring file ps (view w))"
    (is "spec _ _ ?Q ?E")
proof (rule spec_pre)
  fix v assume v: "holds (\<lambda>c. feed_inv p base ring file ps st c \<and> \<not> fd_eof st) T v"
  let ?F = "feed_card p base ring file ps 0 (nat (fd_write_count st)) (nat (fd_write_count st)) st"
  have pure: "feed_pure file st" and eof: "\<not> fd_eof st" and F: "feed_holds p base ring file ps st T v"
    using v by (auto simp: holds_def feed_inv_def)
  have dead: "spec (\<lambda>w. w = v) (feed_deadline os feed_timeout load_start) (\<lambda>_ w. feed_holds p base ring file ps st T w \<and> T < L) ?E"
    by (rule spec_conseq [OF feed_deadline_holds [OF L timeout, where P = ?F]]) (use F in \<open>auto intro: feed_card_fed\<close>)
  show "spec (\<lambda>w. w = v) (feed_step os (tx_port_base p) args mp prefill feed_timeout load_start st) ?Q ?E"
    unfolding feed_step_def
  proof (rule spec_bind [OF dead], rule spec_assume, rule spec_bind [OF feed_read_holds [OF p ring pure eof]])
    fix st' assume TL: "T < L"
    show "spec (\<lambda>w. feed_pure file st' \<and> feed_holds p base ring file ps st' T w \<and> (if fd_pending st' = None
        then fd_eof st' \<and> fd_started st' \<and> fd_write_count st' = int (length file) \<and> (mp = 0 \<or> mp = fd_packet_count st')
        else \<not> fd_eof st'))
      (case fd_pending st' of None \<Rightarrow> ret (Break st')
       | Some pending \<Rightarrow> if rg_ring_size args < int (length pending) + rg_guard_bytes args
           then raise (RuntimeError ''one stream record is too large for the selected ring'')
           else bind_io (feed_push os (tx_port_base p) args prefill pending st') (\<lambda>st. ret (Continue st))) ?Q ?E"
    proof (cases "fd_pending st'")
      case None
      then show ?thesis by (auto intro!: spec_ret simp: holds_def feed_inv_def)
    next
      case (Some b)
      have push: "spec (feed_holds p base ring file ps st' T) (bind_io (feed_push os (tx_port_base p) args prefill b st') (\<lambda>st. ret (Continue st))) ?Q ?E"
        if "feed_pure file st'" "\<not> fd_eof st'"
        by (rule spec_bind [OF feed_push_holds [OF p ring len that Some args]], rule spec_ret) (auto simp: TL holds_def feed_inv_def)
      have big: "spec (feed_holds p base ring file ps st' T) (raise e) ?Q ?E" for e
        by (rule spec_raise) (auto simp: holds_def intro: feed_card_fed)
      have "spec (\<lambda>w. feed_holds p base ring file ps st' T w \<and> feed_pure file st' \<and> \<not> fd_eof st')
        (if rg_ring_size args < int (length b) + rg_guard_bytes args
         then raise (RuntimeError ''one stream record is too large for the selected ring'')
         else bind_io (feed_push os (tx_port_base p) args prefill b st') (\<lambda>st. ret (Continue st))) ?Q ?E"
        by (rule spec_assume) (use push big in \<open>simp del: append_Cons\<close>)
      then show ?thesis unfolding Some option.case by (rule spec_conseq) auto
    qed
  qed
qed

lemma feed_loop_holds:
  assumes p: "p < 2" and ring: "0 < ring" "ring mod 64 = 0" and len: "length file < 2 ^ 32"
    and args: "rg_ring_size args = int ring" "rg_ring_base args = base" "0 \<le> rg_guard_bytes args"
    and timeout: "0 < feed_timeout"
  shows "spec (\<lambda>w. ring_ok p base ring file False 0 0 0 (view w) \<and> c_pulses (view w) = ps)
     (loop_io (feed_step os (tx_port_base p) args mp prefill feed_timeout load_start) (feed_init file args))
     (\<lambda>st w. feed_inv p base ring file ps st (view w) \<and> fd_eof st \<and> fd_started st
          \<and> fd_write_count st = int (length file) \<and> (mp = 0 \<or> mp = fd_packet_count st))
     (\<lambda>e w. fed p base ring file ps (view w))"
proof -
  obtain L where L: "feed_timeout < fl (fl t - load_start)" if "L \<le> t" for t using elapsed_passes by blast
  have init: "feed_inv p base ring file ps (feed_init file args) (view w) \<and> \<not> fd_eof (feed_init file args)"
    if "ring_ok p base ring file False 0 0 0 (view w) \<and> c_pulses (view w) = ps" for w
    using that by (auto simp: feed_inv_def feed_card_def feed_pure_def feed_init_def intro!: exI [of _ "[]"])
  show ?thesis
    by (rule spec_conseq [OF holds_any [OF poll_holds [where I = "\<lambda>st c. feed_inv p base ring file ps st c \<and> \<not> fd_eof st" and L = L,
            OF feed_step_holds [OF p ring len args timeout L]]]])
      (use init in auto)
qed

end

lemma spec_conj: "spec P m Q E \<Longrightarrow> spec P' m Q' E' \<Longrightarrow> spec (\<lambda>w. P w \<and> P' w) m (\<lambda>x w. Q x w \<and> Q' x w) (\<lambda>e w. E e w \<and> E' e w)"
  unfolding spec_def by (fastforce split: option.splits sum.splits prod.splits)

section \<open>Stop and clear\<close>

text \<open>A stopped reader keeps what it has seen.\<close>

definition halted :: "nat \<Rightarrow> bytes \<Rightarrow> (nat \<times> pulse) list \<Rightarrow> bool \<Rightarrow> card \<Rightarrow> bool" where
  "halted p file ps started c \<longleftrightarrow> c_pulses c = ps \<and> \<not> rd_active (c_reader c p)
     \<and> (started \<longrightarrow> (\<exists>n \<le> length file. rd_bytes (c_reader c p) = take n file))"

lemma halted_advance: "halted p file ps started c \<Longrightarrow> halted p file ps started (card_advance k c)"
  by (simp add: halted_def card_advance_def reader_take_def)

lemma halted_stop:
  assumes "c_pulses c = ps" and "started \<longrightarrow> (\<exists>n \<le> length file. rd_bytes (c_reader c p) = take n file)"
  shows "halted p file (ps @ [(p, Stop)]) started (card_reg_write p 0 2 c)"
  using assms by (simp add: halted_def card_reg_write_def axi_simps bit_word_of_int_iff reader_pulse_def Let_def)

lemma halted_clear: "halted p file ps started c \<Longrightarrow> halted p file (ps @ [(p, Clear)]) started (card_reg_write p 0 4 c)"
  by (simp add: halted_def card_reg_write_def axi_simps bit_word_of_int_iff reader_pulse_def Let_def)

text \<open>After the pulses so far, perhaps a start, and then \<open>tail\<close>.\<close>

definition stopped :: "nat \<Rightarrow> bytes \<Rightarrow> (nat \<times> pulse) list \<Rightarrow> pulse list \<Rightarrow> card \<Rightarrow> bool" where
  "stopped p file ps tail c \<longleftrightarrow> (\<exists>started. halted p file (ps @ (if started then [(p, Start)] else []) @ map (Pair p) tail) started c)"

lemma stopped_advance: "stopped p file ps tail c \<Longrightarrow> stopped p file ps tail (card_advance k c)"
  unfolding stopped_def by (blast intro: halted_advance)

lemma stopped_clear: "stopped p file ps tail c \<Longrightarrow> stopped p file ps (tail @ [Clear]) (card_reg_write p 0 4 c)"
  unfolding stopped_def by (elim exE, rule exI, drule halted_clear, simp)

lemma fed_stop:
  assumes "fed p base ring file ps c"
  shows "stopped p file ps [Stop] (card_reg_write p 0 2 c)"
proof -
  obtain started wc hi where ok: "ring_ok p base ring file started 0 wc hi c" and ps: "c_pulses c = ps @ (if started then [(p, Start)] else [])"
    using assms by (auto simp: fed_def)
  have "started \<longrightarrow> rd_bytes (c_reader c p) = take (rd_count (c_reader c p)) file \<and> rd_count (c_reader c p) \<le> length file"
    using ok by (auto simp: ring_ok_def Let_def)
  then have "started \<longrightarrow> (\<exists>n \<le> length file. rd_bytes (c_reader c p) = take n file)" by blast
  from halted_stop [OF ps this] show ?thesis unfolding stopped_def by (intro exI [of _ started]) simp
qed

definition reader_idle :: "nat \<Rightarrow> card \<Rightarrow> bool" where
  "reader_idle p c \<longleftrightarrow> \<not> rd_active (c_reader c p) \<and> rd_count (c_reader c p) = 0"

lemma reader_idle_advance [simp]: "reader_idle p c \<Longrightarrow> reader_idle p (card_advance k c)"
  by (simp add: reader_idle_def card_advance_def reader_take_def)

lemma fold_reader_pulse_idle:
  "Start \<notin> set ps \<Longrightarrow> \<not> rd_active r \<and> rd_count r = 0 \<Longrightarrow> \<not> rd_active (fold (reader_pulse g) ps r) \<and> rd_count (fold (reader_pulse g) ps r) = 0"
  by (induction ps arbitrary: r) (auto simp: reader_pulse_def split: pulse.splits)

lemma reader_idle_write:
  assumes "reader_idle p c" and "off \<noteq> 0 \<or> \<not> bit v 0"
  shows "reader_idle p (card_reg_write p off v c)"
proof -
  have "Start \<notin> set (snd (axi_write off (word_of_int v) 15 (c_cfg c p)))"
    using assms(2) by (auto simp: axi_write_def bit_word_of_int_iff)
  then show ?thesis using assms(1) fold_reader_pulse_idle
    by (auto simp: reader_idle_def card_reg_write_def split: prod.splits)
qed

lemma reader_idle_stop: "reader_idle p (card_reg_write p 0 2 c)"
  by (simp add: reader_idle_def card_reg_write_def axi_simps bit_word_of_int_iff reader_pulse_def Let_def)

section \<open>The whole program\<close>

text \<open>The configuration the program leaves.\<close>

definition ring_cfg :: "ring_args \<Rightarrow> axi_cfg \<Rightarrow> axi_cfg" where
  "ring_cfg args c = c\<lparr>
     pause := False, cfg_mode := 1, cfg_desc_base := word_of_int (rg_ring_base args), cfg_data_base := 0,
     cfg_trace_bytes := 0, cfg_pkt_count := 0, cfg_start_time := word_of_int (rg_start_time args),
     cfg_rate_q16_16 := word_of_int (rg_rate_q16_16 args), cfg_watermark := word_of_int (rg_watermark args),
     cfg_stream_ring_size := word_of_int (rg_ring_size args), cfg_stream_write_count := 0, cfg_stream_write_shadow := 0,
     cfg_stream_eof := False, cfg_stream_pingpong := False,
     cfg_force_link_up := (rg_force_link_up args \<or> cfg_force_link_up c),
     cfg_force_tx_ready := (rg_force_tx_ready args \<or> cfg_force_tx_ready c) \<rparr>"

lemma ring_debug_bits:
  "bit (if r then (if l then debug_value c OR 1 else debug_value c) OR 2 else if l then debug_value c OR 1 else debug_value c) 0 = (l \<or> cfg_force_link_up c)"
  "bit (if r then (if l then debug_value c OR 1 else debug_value c) OR 2 else if l then debug_value c OR 1 else debug_value c) (Suc 0) = (r \<or> cfg_force_tx_ready c)"
  "bit (if r then (if l then debug_value c OR 1 else debug_value c) OR 2 else if l then debug_value c OR 1 else debug_value c) 2 = cfg_auto_tx_drop c"
  by (cases "cfg_force_link_up c"; cases "cfg_force_tx_ready c"; cases "cfg_auto_tx_drop c";
      simp add: debug_value_def flags_word_3 Let_def bit_or_iff)+

context timed_card begin

lemma stop_and_clear_halts:
  assumes p: "p < 2"
  shows "spec (holds (fed p base ring file ps) T) (stop_and_clear os (tx_port_base p))
    (\<lambda>_. holds (stopped p file ps [Stop, Clear]) T) E"
  unfolding stop_and_clear_def
proof (rule spec_bind [OF write32_holds [OF decode_port [OF p], where Q = "stopped p file ps [Stop]"]], simp, simp)
  fix k c assume "fed p base ring file ps c"
  from fed_stop [OF fed_advance [OF this]]
  show "stopped p file ps [Stop] (card_reg_write p 0x00 (take_bit 32 0x2) (card_advance k c))" by simp
next
  have clear: "spec (holds (stopped p file ps [Stop]) T) (write32 os (tx_port_base p + 0x00) 0x4) (\<lambda>_. holds (stopped p file ps [Stop, Clear]) T) E"
    by (rule write32_holds [OF decode_port [OF p]]) (use stopped_clear [OF stopped_advance, where tail = "[Stop]"] in simp_all)
  have wait: "spec (holds (stopped p file ps tail) T) (sleep os t) (\<lambda>_. holds (stopped p file ps tail) T) E" for t tail
    by (rule spec_conseq [OF sleep_holds [where P = "stopped p file ps tail"]])
      (use access_time_pos in \<open>auto intro: stopped_advance elim: holds_mono\<close>)
  show "spec (holds (stopped p file ps [Stop]) T)
      (seq_io (sleep os (1 / 1000)) (seq_io (write32 os (tx_port_base p + 0x00) 0x4) (sleep os (1 / 1000))))
      (\<lambda>_. holds (stopped p file ps [Stop, Clear]) T) E"
    by (rule spec_bind [OF wait], rule spec_bind [OF clear], rule wait)
qed

text \<open>Setting the ring up.\<close>

lemma ring_configure_static:
  assumes p: "p < 2"
  shows "spec (\<lambda>w. static (view w) = (m, g, ps, ss)) (ring_configure os (tx_port_base p) args)
    (\<lambda>_ w. static (view w) = (m, g(p := ring_cfg args (g p)), ps @ [(p, Stop), (p, Clear)], ss)) E"
proof -
  define g1 where "g1 = (g p)\<lparr>
     pause := False, cfg_mode := 1, cfg_desc_base := word_of_int (rg_ring_base args), cfg_data_base := 0,
     cfg_trace_bytes := 0, cfg_pkt_count := 0, cfg_start_time := word_of_int (rg_start_time args),
     cfg_rate_q16_16 := word_of_int (rg_rate_q16_16 args), cfg_watermark := word_of_int (rg_watermark args),
     cfg_stream_ring_size := word_of_int (rg_ring_size args), cfg_stream_write_count := 0, cfg_stream_write_shadow := 0,
     cfg_stream_eof := False, cfg_stream_pingpong := False\<rparr>"
  have w: "reg_step p 0xb8 0 (reg_step p 0xb4 (drop_bit 32 (rg_ring_size args)) (reg_step p 0xb0 (rg_ring_size args)
      (reg_step p 0xa4 (drop_bit 32 0) (reg_step p 0xa0 0 (reg_step p 0x4c (rg_watermark args) (reg_step p 0x48 (rg_rate_q16_16 args)
      (reg_step p 0x44 (drop_bit 32 (rg_start_time args)) (reg_step p 0x40 (rg_start_time args)
      (reg_step p 0x2c (drop_bit 32 0) (reg_step p 0x28 0
      (reg_step p 0x24 (drop_bit 32 0) (reg_step p 0x20 0
      (reg_step p 0x1c (drop_bit 32 0) (reg_step p 0x18 0
      (reg_step p 0x14 (drop_bit 32 (rg_ring_base args)) (reg_step p 0x10 (rg_ring_base args)
      (reg_step p 0x04 1 (reg_step p 0x00 0x4 (reg_step p 0x00 0x2 (m, g, ps, ss)))))))))))))))))))) = (m, g(p := g1), ps @ [(p, Stop), (p, Clear)], ss)"
    by (cases "g p") (simp add: g1_def reg_step_eq axi_simps Let_def bit_word_of_int_iff)
  show ?thesis
    unfolding ring_configure_def
    apply ((rule write32_then [OF p], simp | rule write64_then [OF p], simp, simp | rule sleep_then)+)
    apply (unfold w)
    apply (unfold Let_def)
    apply (rule spec_conseq [OF rmw_debug [OF p]])
      apply assumption
     apply (cases "g p"; simp add: g1_def ring_cfg_def Let_def ring_debug_bits)
    apply assumption
    done
qed

lemma write32_idle:
  assumes "p < 2" and "off \<in> {0..<0x10000}" and "off \<noteq> 0 \<or> \<not> bit v 0"
  shows "spec (holds (reader_idle p) T) (write32 os (tx_port_base p + off) v) (\<lambda>_. holds (reader_idle p) T) E"
  by (rule write32_holds [OF decode_port [OF assms(1)]])
    (use assms in \<open>auto intro!: reader_idle_write simp: bit_take_bit_iff\<close>)

lemma write64_idle:
  assumes "p < 2" and "lo \<in> {1..<0x10000}" and "hi \<in> {1..<0x10000}"
  shows "spec (holds (reader_idle p) T) (write64 os (tx_port_base p + lo) (tx_port_base p + hi) v) (\<lambda>_. holds (reader_idle p) T) E"
  unfolding write64_def by (rule spec_bind; rule write32_idle) (use assms in auto)


lemma ring_configure_idle:
  assumes p: "p < 2"
  shows "spec (holds (\<lambda>_. True) T) (ring_configure os (tx_port_base p) args) (\<lambda>_. holds (reader_idle p) T) E"
proof -
  have stop: "spec (holds (\<lambda>_. True) T) (write32 os (tx_port_base p + 0x00) 0x2) (\<lambda>_. holds (reader_idle p) T) E"
    by (rule write32_holds [OF decode_port [OF p]]) (simp_all add: reader_idle_stop)
  have wait: "spec (holds (reader_idle p) T) (sleep os t) (\<lambda>_. holds (reader_idle p) T) E" for t
    by (rule spec_conseq [OF sleep_holds [where P = "reader_idle p"]])
      (use access_time_pos in \<open>auto elim: holds_mono\<close>)
  have read: "spec (holds (reader_idle p) T) (read32 os (tx_port_base p + 0x54)) (\<lambda>_. holds (reader_idle p) T) E"
    by (rule spec_conseq [OF read32_holds [OF decode_port [OF p], where P = "reader_idle p"]])
      (use access_time_pos in \<open>auto elim: holds_mono\<close>)
  note w = write32_idle [OF p] write64_idle [OF p]
  show ?thesis
    unfolding ring_configure_def Let_def
    apply (rule spec_bind [OF stop])
    apply (rule spec_bind [OF wait])
    apply (rule spec_bind [OF w(1)], simp, simp)
    apply (rule spec_bind [OF wait])
    apply ((rule spec_bind [OF w(1)], simp, simp) | (rule spec_bind [OF w(2)], simp, simp))+
    apply (rule spec_bind [OF read])
    apply (rule w(1); simp)
    done
qed

lemma ring_configure_holds:
  assumes p: "p < 2" and base: "0 \<le> rg_ring_base args" "rg_ring_base args < 2 ^ 64"
    and ring: "rg_ring_size args = int ring" "ring < 2 ^ 64"
  shows "spec (\<lambda>w. c_pulses (view w) = ps) (ring_configure os (tx_port_base p) args)
    (\<lambda>_ w. ring_ok p (rg_ring_base args) ring file False 0 0 0 (view w) \<and> c_pulses (view w) = ps @ [(p, Stop), (p, Clear)]) E"
proof (rule spec_pre)
  fix v assume v: "c_pulses (view v) = ps"
  have u: "uint (word_of_int (rg_ring_base args) :: 64 word) = rg_ring_base args" "unat (word_of_int (rg_ring_size args) :: 64 word) = ring"
    using base ring by (simp_all add: unsigned_of_int take_bit_int_eq_self unat_of_nat take_bit_nat_eq_self)
  show "spec (\<lambda>w. w = v) (ring_configure os (tx_port_base p) args)
    (\<lambda>_ w. ring_ok p (rg_ring_base args) ring file False 0 0 0 (view w) \<and> c_pulses (view w) = ps @ [(p, Stop), (p, Clear)]) E"
    by (rule spec_conseq [OF spec_conj [OF
          ring_configure_static [OF p, where m = "c_mem (view v)" and g = "c_cfg (view v)" and ps = ps and ss = "c_starts (view v)"]
          ring_configure_idle [OF p, where T = "now v"]]])
      (use v u in \<open>auto simp: static_def holds_def ring_ok_def Let_def ring_cfg_def reader_idle_def window_ok_def\<close>)
qed

text \<open>Waiting and reporting change nothing that is stable under the progress of the readers.\<close>

definition stable :: "(card \<Rightarrow> bool) \<Rightarrow> bool" where
  "stable P \<longleftrightarrow> (\<forall>k c. P c \<longrightarrow> P (card_advance k c))"

lemma stableD: "stable P \<Longrightarrow> P c \<Longrightarrow> P (card_advance k c)"
  by (simp add: stable_def)

lemma read32_stable:
  assumes p: "p < 2" and off: "0 \<le> off" "off < 0x10000" and P: "stable P"
  shows "spec (holds P T) (read32 os (tx_port_base p + off)) (\<lambda>x w. holds P (T + access_time) w \<and> 0 \<le> x \<and> x < 2 ^ 32) E"
  by (rule spec_conseq [OF read32_holds [OF decode_port [OF p off], where P = P, OF stableD [OF P]]])
    (use uint_bounded [where 'a = 32] in auto)

lemma ring_wait_done_stable:
  assumes p: "p < 2" and P: "stable P"
  shows "spec (\<lambda>w. P (view w)) (ring_wait_done os (tx_port_base p) timeout) (\<lambda>_ w. P (view w)) E"
  unfolding ring_wait_done_def
proof (rule holds_any, rule spec_bind [OF clock_holds [where P = P, OF stableD [OF P]]], assumption, rule spec_assume)
  fix T start
  obtain L where L: "timeout < fl (fl t - start)" if "L \<le> t" for t using elapsed_passes by blast
  note el = elapsed_holds [where P = P, OF stableD [OF P]]
  let ?Q = "\<lambda>T c w. case c of Continue u \<Rightarrow> holds P (T + access_time) w \<and> T < L | Break x \<Rightarrow> P (view w)"
  have found: "spec (holds P T') (bind_io (elapsed os start) (\<lambda>t. ret (Break (b, t)))) (?Q T) E" for b T' T
    by (rule spec_bind [OF el], assumption, rule spec_ret) (simp add: holds_def)
  have waited: "spec (holds P (T + access_time)) (bind_io (elapsed os start) (\<lambda>t.
       if timeout < t then bind_io (elapsed os start) (\<lambda>t. ret (Break (False, t)))
       else seq_io (sleep os (1 / 100)) (ret (Continue ())))) (?Q T) E" for T
  proof (rule spec_bind [OF el], assumption, rule spec_assume)
    fix t assume t: "fl (fl (T + access_time) - start) \<le> t"
    show "spec (holds P (T + access_time)) (if timeout < t then bind_io (elapsed os start) (\<lambda>t. ret (Break (False, t)))
        else seq_io (sleep os (1 / 100)) (ret (Continue ()))) (?Q T) E"
    proof (cases "timeout < t")
      case True
      then show ?thesis by (simp add: found)
    next
      case False
      have "T < L"
      proof (rule ccontr)
        assume "\<not> T < L"
        then have "timeout < fl (fl (T + access_time) - start)" by (intro L) (simp add: access_time_def)
        with False t show False by linarith
      qed
      then show ?thesis unfolding if_not_P [OF False]
        by (intro spec_bind [OF sleep_holds [where P = P, OF stableD [OF P]]] spec_ret) (auto simp: holds_def access_time_def)
    qed
  qed
  show "spec (holds P T) (loop_io (\<lambda>_ :: unit.
     bind_io (read32 os (tx_port_base p + 0x08)) (\<lambda>status.
     if status AND 0x2 \<noteq> 0 \<and> status AND 0x1 = 0
     then bind_io (elapsed os start) (\<lambda>t. ret (Break (True, t)))
     else bind_io (elapsed os start) (\<lambda>t.
       if timeout < t then bind_io (elapsed os start) (\<lambda>t. ret (Break (False, t)))
       else seq_io (sleep os (1 / 100)) (ret (Continue ()))))) ()) (\<lambda>_ w. P (view w)) E"
  proof (rule poll_holds [where I = "\<lambda>_. P" and L = L])
    fix u :: unit and T
    show "spec (holds P T) (bind_io (read32 os (tx_port_base p + 0x08)) (\<lambda>status.
     if status AND 0x2 \<noteq> 0 \<and> status AND 0x1 = 0
     then bind_io (elapsed os start) (\<lambda>t. ret (Break (True, t)))
     else bind_io (elapsed os start) (\<lambda>t.
       if timeout < t then bind_io (elapsed os start) (\<lambda>t. ret (Break (False, t)))
       else seq_io (sleep os (1 / 100)) (ret (Continue ()))))) (?Q T) E"
      by (rule spec_bind [OF read32_stable [OF p _ _ P]], simp, simp, rule spec_assume) (simp add: found waited)
  qed
qed

lemma read64_stable:
  assumes p: "p < 2" and off: "0 \<le> lo" "lo < 0x10000" "0 \<le> hi" "hi < 0x10000" and P: "stable P"
    and k: "\<And>x. 0 \<le> x \<Longrightarrow> x < 2 ^ 64 \<Longrightarrow> spec (\<lambda>w. P (view w)) (k x) Q E"
  shows "spec (\<lambda>w. P (view w)) (bind_io (read64 os (tx_port_base p + lo) (tx_port_base p + hi)) k) Q E"
proof (rule spec_bind)
  show "spec (\<lambda>w. P (view w)) (read64 os (tx_port_base p + lo) (tx_port_base p + hi)) (\<lambda>x w. P (view w) \<and> 0 \<le> x \<and> x < 2 ^ 64) E"
    unfolding read64_def
  proof (rule holds_any, rule spec_bind [OF read32_stable [OF p off(1,2) P]], rule spec_assume,
      rule spec_bind [OF read32_stable [OF p off(3,4) P]], rule spec_assume)
    fix T l h assume "0 \<le> l \<and> l < (2 :: int) ^ 32" and "0 \<le> h \<and> h < (2 :: int) ^ 32"
    then have "0 \<le> l OR push_bit 32 h \<and> l OR push_bit 32 h < 2 ^ 64" by (subst or_push_32; simp)+
    then show "spec (holds P (T + access_time + access_time)) (ret (l OR push_bit 32 h)) (\<lambda>x w. P (view w) \<and> 0 \<le> x \<and> x < 2 ^ 64) E"
      by (intro spec_ret) (simp add: holds_def)
  qed
  show "spec (\<lambda>w. P (view w) \<and> 0 \<le> x \<and> x < 2 ^ 64) (k x) Q E" for x
    by (rule spec_assume, rule k; simp)
qed

lemma read32_stable_then:
  assumes p: "p < 2" and off: "0 \<le> off" "off < 0x10000" and P: "stable P"
    and k: "\<And>x. spec (\<lambda>w. P (view w)) (k x) Q E"
  shows "spec (\<lambda>w. P (view w)) (bind_io (read32 os (tx_port_base p + off)) k) Q E"
  by (rule holds_any, rule spec_bind [OF read32_stable [OF p off P]]) (rule spec_conseq [OF k], simp_all add: holds_def)

lemma ring_report_stable:
  assumes p: "p < 2" and P: "stable P" and hz: "0 < rg_tick_hz args"
  shows "spec (\<lambda>w. P (view w)) (ring_report os (tx_port_base p) args st load_seconds completed wall)
    (\<lambda>res w. P (view w) \<and> rr_committed_bytes res = fd_write_count st \<and> rr_committed_packets res = fd_packet_count st
       \<and> rr_completed res = completed) E"
  unfolding ring_report_def
proof ((rule read64_stable [OF p _ _ _ _ P], simp, simp, simp, simp)+, rule read32_stable_then [OF p _ _ P], simp, simp,
    rule read64_stable [OF p _ _ _ _ P], simp, simp, simp, simp)
  fix pkts bytes late under ticks status level :: int
  assume "0 \<le> ticks" and "ticks < 2 ^ 64"
  then obtain x where x: "scheduled_seconds ticks (rg_tick_hz args) wall = Inr x" using scheduled_seconds_ok [OF _ _ hz] by blast
  show "spec (\<lambda>w. P (view w)) (bind_io (lift_res (scheduled_seconds ticks (rg_tick_hz args) wall)) (\<lambda>hw_seconds.
     ret \<lparr> rr_committed_bytes = fd_write_count st, rr_committed_packets = fd_packet_count st, rr_completed = completed,
       rr_tx_packets = pkts, rr_tx_bytes = bytes, rr_late_packets = late, rr_underrun_packets = under,
       rr_stream_status = status, rr_final_level = level, rr_max_level = fd_max_level st, rr_min_free = fd_min_free st,
       rr_load_gbps = per_second_1e9 (fd_write_count st * 8) load_seconds, rr_hw_gbps = per_second_1e9 (bytes * 8) hw_seconds,
       rr_load_seconds = load_seconds, rr_wall_seconds = wall \<rparr>))
    (\<lambda>res w. P (view w) \<and> rr_committed_bytes res = fd_write_count st \<and> rr_committed_packets res = fd_packet_count st
       \<and> rr_completed res = completed) E"
    unfolding x bind_lift_Inr by (rule spec_ret) simp
qed

lemma stop_running:
  assumes p: "p < 2" and st: "fd_started st"
  shows "spec (\<lambda>w. feed_inv p base ring file ps st (view w)) (stop_and_clear os (tx_port_base p))
    (\<lambda>_ w. stopped p file ps [Stop, Clear] (view w) \<and> c_pulses (view w) = ps @ map (Pair p) [Start, Stop, Clear]) E"
proof -
  have pulses: "spec (\<lambda>w. c_pulses (view w) = qs) (stop_and_clear os (tx_port_base p)) (\<lambda>_ w. c_pulses (view w) = qs @ [(p, Stop), (p, Clear)]) E" for qs
  proof (rule spec_pre)
    fix v assume "c_pulses (view v) = qs"
    then show "spec (\<lambda>w. w = v) (stop_and_clear os (tx_port_base p)) (\<lambda>_ w. c_pulses (view w) = qs @ [(p, Stop), (p, Clear)]) E"
      by (intro spec_conseq [OF stop_and_clear_static [OF p, where m = "c_mem (view v)" and g = "c_cfg (view v)" and ps = qs and ss = "c_starts (view v)"]])
        (auto simp: static_def)
  qed
  have halts: "spec (\<lambda>w. fed p base ring file ps (view w)) (stop_and_clear os (tx_port_base p)) (\<lambda>_ w. stopped p file ps [Stop, Clear] (view w)) E"
    by (rule holds_any, rule spec_conseq [OF stop_and_clear_halts [OF p]]) (assumption, simp_all add: holds_def)
  show ?thesis
    by (rule spec_conseq [OF spec_conj [OF halts pulses [of "ps @ [(p, Start)]"]]])
      (use st feed_inv_fed [of p base ring "file" ps st] in \<open>auto simp: feed_inv_def feed_card_def\<close>)
qed

text \<open>What the program leaves: a fed ring, or a stopped reader.\<close>

lemma ring_run_outcome:
  assumes p: "p < 2" and base: "0 \<le> rg_ring_base args" "rg_ring_base args < 2 ^ 64"
    and size: "rg_ring_size args = int ring" "0 < ring" "ring mod 64 = 0" "ring < 2 ^ 64" and guard: "0 \<le> rg_guard_bytes args"
    and len: "length file < 2 ^ 32" and timeout: "0 < (if 0 < rg_feed_timeout args then rg_feed_timeout args else rg_timeout args)"
    and hz: "0 < rg_tick_hz args"
  shows "spec (\<lambda>w. c_pulses (view w) = ps) (ring_run os (tx_port_base p) args mp file load_start)
    (\<lambda>res w. \<exists>st. rr_committed_bytes res = fd_write_count st \<and> rr_committed_packets res = fd_packet_count st
       \<and> feed_pure file st \<and> fd_eof st \<and> fd_started st \<and> fd_write_count st = int (length file) \<and> (mp = 0 \<or> mp = fd_packet_count st)
       \<and> (if rr_completed res \<or> rg_no_wait args then feed_inv p (rg_ring_base args) ring file (ps @ [(p, Stop), (p, Clear)]) st (view w)
          else stopped p file (ps @ [(p, Stop), (p, Clear)]) [Stop, Clear] (view w)
            \<and> c_pulses (view w) = (ps @ [(p, Stop), (p, Clear)]) @ map (Pair p) [Start, Stop, Clear]))
    (\<lambda>e w. fed p (rg_ring_base args) ring file (ps @ [(p, Stop), (p, Clear)]) (view w))" (is "spec _ _ ?Q ?E")
proof -
  let ?b = "rg_ring_base args" and ?ps = "ps @ [(p, Stop), (p, Clear)]"
  let ?good = "\<lambda>st. feed_pure file st \<and> fd_eof st \<and> fd_started st \<and> fd_write_count st = int (length file) \<and> (mp = 0 \<or> mp = fd_packet_count st)"
  have st: "stable (feed_inv p ?b ring file ?ps st)" for st by (simp add: stable_def)
  have wait: "spec (\<lambda>w. feed_inv p ?b ring file ?ps st (view w))
      (if rg_no_wait args then ret (False, 0) else ring_wait_done os (tx_port_base p) (rg_timeout args))
      (\<lambda>_ w. feed_inv p ?b ring file ?ps st (view w)) ?E" for st
    using ring_wait_done_stable [OF p st] by (simp add: spec_ret)
  have load: "spec (\<lambda>w. feed_inv p ?b ring file ?ps st (view w)) (elapsed os load_start) (\<lambda>_ w. feed_inv p ?b ring file ?ps st (view w)) ?E" for st
    by (rule holds_any, rule spec_conseq [OF elapsed_holds [where P = "feed_inv p ?b ring file ?ps st"]]) (auto simp: holds_def)
  have stop: "spec (\<lambda>w. feed_inv p ?b ring file ?ps st (view w)) (stop_and_clear os (tx_port_base p))
      (\<lambda>_ w. stopped p file ?ps [Stop, Clear] (view w) \<and> c_pulses (view w) = ?ps @ map (Pair p) [Start, Stop, Clear]) ?E" if "fd_started st" for st
    by (rule stop_running [OF p that])
  have last: "spec (\<lambda>w. feed_inv p ?b ring file ?ps st (view w) \<and> rr_committed_bytes res = fd_write_count st \<and> rr_committed_packets res = fd_packet_count st
        \<and> rr_completed res = completed)
      (seq_io (if \<not> completed \<and> \<not> rg_no_wait args then stop_and_clear os (tx_port_base p) else ret ()) (ret res)) ?Q ?E"
    if good: "?good st" for st res completed
  proof (rule spec_assume)
    assume res: "rr_committed_bytes res = fd_write_count st \<and> rr_committed_packets res = fd_packet_count st \<and> rr_completed res = completed"
    show "spec (\<lambda>w. feed_inv p ?b ring file ?ps st (view w))
      (seq_io (if \<not> completed \<and> \<not> rg_no_wait args then stop_and_clear os (tx_port_base p) else ret ()) (ret res)) ?Q ?E"
    proof (cases "\<not> completed \<and> \<not> rg_no_wait args")
      case True
      then show ?thesis unfolding if_P [OF True] by (intro spec_bind [OF stop] spec_ret, simp add: good, intro exI [of _ st]) (use good res True in simp)
    next
      case False
      then show ?thesis unfolding if_not_P [OF False] by (intro spec_bind [OF spec_ret] spec_ret) (assumption, rule exI [of _ st], use good res False in simp)
    qed
  qed
  have loop: "spec (\<lambda>w. ring_ok p ?b ring file False 0 0 0 (view w) \<and> c_pulses (view w) = ?ps)
     (loop_io (feed_step os (tx_port_base p) args mp prefill (if 0 < rg_feed_timeout args then rg_feed_timeout args else rg_timeout args) load_start)
       (feed_init file args)) (\<lambda>st w. feed_inv p ?b ring file ?ps st (view w) \<and> ?good st) ?E" for prefill
    by (rule spec_conseq [OF feed_loop_holds [OF p size(2,3) len size(1) refl guard timeout]]) (auto simp: feed_inv_def)
  show ?thesis
    unfolding ring_run_def Let_def
  proof (rule spec_bind [OF ring_configure_holds [OF p base size(1,4)]], rule spec_bind [OF loop], rule spec_assume,
      rule spec_bind [OF load], rule spec_bind [OF wait], rule spec_prod, rule spec_bind [OF ring_report_stable [OF p st hz]])
    fix st res completed assume good: "?good st"
    show "spec (\<lambda>w. feed_inv p ?b ring file ?ps st (view w) \<and> rr_committed_bytes res = fd_write_count st \<and> rr_committed_packets res = fd_packet_count st
        \<and> rr_completed res = completed)
      (seq_io (if \<not> completed \<and> \<not> rg_no_wait args then stop_and_clear os (tx_port_base p) else ret ()) (ret res)) ?Q ?E"
      by (rule last [OF good])
  qed
qed

end

section \<open>Properties\<close>

text \<open>A call with arguments that pass the checks, an existing file below 4 GiB, and a feeding time limit.\<close>

definition ring_setting :: "(string \<Rightarrow> bytes option) \<Rightarrow> ring_args \<Rightarrow> bytes \<Rightarrow> int \<Rightarrow> bool" where
  "ring_setting fs args file mp \<longleftrightarrow> rg_port args < 2 \<and> rg_reg_base args = None
     \<and> mp = snd (ring_manifest args) \<and> require_file fs (fst (ring_manifest args)) ''--stream'' = Inr file
     \<and> ring_checks args = Inr () \<and> 0 \<le> rg_ring_base args \<and> rg_ring_base args < 2 ^ 64 \<and> rg_ring_size args < 2 ^ 64
     \<and> length file < 2 ^ 32 \<and> 0 < (if 0 < rg_feed_timeout args then rg_feed_timeout args else rg_timeout args)
     \<and> 0 < rg_tick_hz args"

definition ring_outcome :: "ring_args \<Rightarrow> bytes \<Rightarrow> int \<Rightarrow> (nat \<times> pulse) list \<Rightarrow> ring_result \<Rightarrow> card \<Rightarrow> bool" where
  "ring_outcome args file mp ps res c \<longleftrightarrow> (\<exists>st. rr_committed_bytes res = fd_write_count st \<and> rr_committed_packets res = fd_packet_count st
     \<and> feed_pure file st \<and> fd_eof st \<and> fd_started st \<and> fd_write_count st = int (length file) \<and> (mp = 0 \<or> mp = fd_packet_count st)
     \<and> (if rr_completed res \<or> rg_no_wait args
        then feed_inv (rg_port args) (rg_ring_base args) (nat (rg_ring_size args)) file (ps @ [(rg_port args, Stop), (rg_port args, Clear)]) st c
        else stopped (rg_port args) file (ps @ [(rg_port args, Stop), (rg_port args, Clear)]) [Stop, Clear] c
          \<and> c_pulses c = (ps @ [(rg_port args, Stop), (rg_port args, Clear)]) @ map (Pair (rg_port args)) [Start, Stop, Clear]))"

context timed_card begin

lemma ring_main_outcome:
  assumes "ring_setting fs args file mp"
  shows "spec (\<lambda>w. c_pulses (view w) = ps) (ring_main os fs args)
    (\<lambda>res w. ring_outcome args file mp ps res (view w))
    (\<lambda>e w. stopped (rg_port args) file (ps @ [(rg_port args, Stop), (rg_port args, Clear)]) [Stop, Clear] (view w))"
proof -
  have s: "rg_port args < 2" "rg_reg_base args = None" "ring_manifest args = (fst (ring_manifest args), mp)"
    "require_file fs (fst (ring_manifest args)) ''--stream'' = Inr file" "ring_checks args = Inr ()"
    "0 \<le> rg_ring_base args" "rg_ring_base args < 2 ^ 64" "rg_ring_size args < 2 ^ 64" "length file < 2 ^ 32"
    "0 < (if 0 < rg_feed_timeout args then rg_feed_timeout args else rg_timeout args)" "0 < rg_tick_hz args"
    using assms by (simp_all add: ring_setting_def)
  have c: "0 < rg_ring_size args" "rg_ring_size args mod 64 = 0" "64 \<le> rg_guard_bytes args"
    using s(5) by (auto simp: ring_checks_def check_def bind_res_def split: if_splits)
  let ?ring = "nat (rg_ring_size args)"
  have ring: "rg_ring_size args = int ?ring" "0 < ?ring" "?ring < 2 ^ 64" using c s(8) by simp_all
  have "int (?ring mod 64) = 0" using c(1,2) by (simp add: zmod_int)
  then have mod: "?ring mod 64 = 0" by linarith
  let ?ps = "ps @ [(rg_port args, Stop), (rg_port args, Clear)]"
  have stop: "spec (\<lambda>w. fed (rg_port args) (rg_ring_base args) ?ring file ?ps (view w)) (stop_and_clear os (tx_port_base (rg_port args)))
      (\<lambda>_ w. stopped (rg_port args) file ?ps [Stop, Clear] (view w)) (\<lambda>_ w. stopped (rg_port args) file ?ps [Stop, Clear] (view w))"
    by (rule holds_any, rule spec_conseq [OF stop_and_clear_halts [OF s(1)]]) (assumption, simp_all add: holds_def)
  have run: "spec (\<lambda>w. c_pulses (view w) = ps) (ring_run os (tx_port_base (rg_port args)) args mp file start)
    (\<lambda>res w. ring_outcome args file mp ps res (view w)) (\<lambda>e w. fed (rg_port args) (rg_ring_base args) ?ring file ?ps (view w))" for start
    unfolding ring_outcome_def
    by (rule ring_run_outcome [OF s(1,6,7) ring(1,2) mod ring(3) _ s(9-11)]) (use c(3) in simp)
  have start: "spec (\<lambda>w. c_pulses (view w) = ps) (perf_counter os) (\<lambda>_ w. c_pulses (view w) = ps) E" for E
    by (rule holds_any, rule spec_conseq [OF clock_holds [where P = "\<lambda>c. c_pulses c = ps"]]) (auto simp: holds_def)
  show ?thesis
    unfolding ring_main_def
    apply (subst s(3))
    unfolding s(2,4,5) prod.case bind_lift_Inr Let_def option.case
    by (rule spec_bind [OF start], rule spec_on_error [OF run stop])
qed

end

lemma is_record_64:
  assumes "is_record b"
  shows "64 dvd length b"
proof -
  define n where "n = align_up (le_int (pyslice 12 14 (take 64 b))) 64"
  have r: "read_record b = Inr (Some b, [])" using assms by (simp add: is_record_def)
  have "int (length b) = 64 + n"
    using r by (auto simp: read_record_def Let_def n_def split: if_splits) 
  moreover have "64 dvd n" by (simp add: n_def align_up_def)
  ultimately have "64 dvd int (length b)" by simp
  then show ?thesis by presburger
qed

lemma records_64: "list_all is_record rs \<Longrightarrow> 64 dvd length (concat rs)"
  by (induction rs) (simp_all add: is_record_64 dvd_add)

text \<open>A reader that keeps being served gets to the committed count.\<close>

lemma ring_drains:
  assumes "ring_ok p base ring file True 0 (length file) (length file) c" and "64 dvd length file"
    and "length file div 64 \<le> rd_count (c_reader c p) div 64 + sum_list (map (\<lambda>k. k p) ks)"
  shows "rd_bytes (c_reader (fold card_advance ks c) p) = file"
  using assms
proof (induction ks arbitrary: c)
  case Nil
  then have "rd_count (c_reader c p) = length file" by (auto simp: ring_ok_def Let_def elim!: dvdE)
  then show ?case using Nil by (simp add: ring_ok_def Let_def)
next
  case (Cons k ks)
  let ?r = "c_reader c p"
  have r: "rd_active ?r" "rd_count ?r \<le> length file" "rd_count ?r mod 64 = 0" "unat (cfg_stream_write_count (c_cfg c p)) = length file"
    using Cons.prems(1) by (simp_all add: ring_ok_def Let_def)
  obtain l q where lq: "length file = 64 * l" "rd_count ?r = 64 * q" using Cons.prems(2) r(3) by (elim dvdE) (auto elim: dvdE)
  have "64 * l - 64 * q = 64 * (l - q)" by simp
  then have "rd_count (c_reader (card_advance k c) p) = 64 * (q + min (k p) (l - q))"
    using r lq by (simp add: card_advance_def reader_take_def Let_def del: right_diff_distrib_numeral) 
  then have "length file div 64 \<le> rd_count (c_reader (card_advance k c) p) div 64 + sum_list (map (\<lambda>k. k p) ks)"
    using Cons.prems(3) r(2) lq by simp
  then show ?case using Cons.IH [OF ring_ok_advance [OF Cons.prems(1)] Cons.prems(2)] by simp
qed

lemma stopped_outcome:
  assumes "stopped p file (ps @ [(p, Stop), (p, Clear)]) [Stop, Clear] c"
  shows "\<exists>qs. c_pulses c = ps @ map (Pair p) qs \<and> \<not> rd_active (c_reader c p) \<and> qs \<in> {[Stop, Clear, Stop, Clear], [Stop, Clear, Start, Stop, Clear]}
     \<and> (Start \<in> set qs \<longrightarrow> (\<exists>n \<le> length file. rd_bytes (c_reader c p) = take n file))"
proof -
  obtain started where h: "halted p file ((ps @ [(p, Stop), (p, Clear)]) @ (if started then [(p, Start)] else []) @ map (Pair p) [Stop, Clear]) started c"
    using assms by (auto simp: stopped_def)
  show ?thesis
    by (rule exI [of _ "[Stop, Clear] @ (if started then [Start] else []) @ [Stop, Clear]"]) (use h in \<open>simp add: halted_def\<close>)
qed

lemma fed_outcome:
  assumes "feed_inv p base ring file (ps @ [(p, Stop), (p, Clear)]) st c" and "fd_eof st" and "fd_started st" and "fd_write_count st = int (length file)"
  shows "c_pulses c = ps @ map (Pair p) [Stop, Clear, Start]" and "ring_ok p base ring file True 0 (length file) (length file) c"
    and "rd_bytes (c_reader c p) = take (rd_count (c_reader c p)) file" and "rd_count (c_reader c p) \<le> length file"
    and "cfg_stream_eof (c_cfg c p)" and "cfg_pkt_count (c_cfg c p) = word_of_int (fd_packet_count st)"
  using assms by (simp_all add: feed_inv_def feed_card_def ring_ok_def Let_def)

lemma ring_outcome_cases:
  assumes "ring_outcome args file mp ps res c"
  shows "\<exists>qs. c_pulses c = ps @ map (Pair (rg_port args)) qs
     \<and> (\<exists>n \<le> length file. rd_bytes (c_reader c (rg_port args)) = take n file)
     \<and> qs = [Stop, Clear, Start] @ (if rr_completed res \<or> rg_no_wait args then [] else [Stop, Clear])
     \<and> rr_committed_bytes res = int (length file)
     \<and> (\<exists>rs. concat rs = file \<and> list_all is_record rs \<and> rr_committed_packets res = int (length rs) \<and> (mp = 0 \<or> mp = int (length rs)))"
proof -
  let ?ps = "ps @ [(rg_port args, Stop), (rg_port args, Clear)]"
  obtain st where res: "rr_committed_bytes res = fd_write_count st" "rr_committed_packets res = fd_packet_count st"
    and good: "feed_pure file st" "fd_eof st" "fd_started st" "fd_write_count st = int (length file)" "mp = 0 \<or> mp = fd_packet_count st"
    and left: "if rr_completed res \<or> rg_no_wait args
        then feed_inv (rg_port args) (rg_ring_base args) (nat (rg_ring_size args)) file ?ps st c
        else stopped (rg_port args) file ?ps [Stop, Clear] c \<and> c_pulses c = ?ps @ map (Pair (rg_port args)) [Start, Stop, Clear]"
    using assms by (auto simp: ring_outcome_def)
  have rs: "\<exists>rs. concat rs = file \<and> list_all is_record rs \<and> rr_committed_packets res = int (length rs) \<and> (mp = 0 \<or> mp = int (length rs))"
    using good res by (auto simp: feed_pure_def)
  show ?thesis
  proof (cases "rr_completed res \<or> rg_no_wait args")
    case True
    have inv: "feed_inv (rg_port args) (rg_ring_base args) (nat (rg_ring_size args)) file ?ps st c" using left unfolding if_P [OF True] .
    note fed = fed_outcome [OF inv good(2-4)]
    show ?thesis unfolding if_P [OF True] using fed rs res good(4) by (intro exI [of _ "[Stop, Clear, Start]"]) auto
  next
    case False
    have st: "stopped (rg_port args) file ?ps [Stop, Clear] c" "c_pulses c = ?ps @ map (Pair (rg_port args)) [Start, Stop, Clear]"
      using left unfolding if_not_P [OF False] by simp_all
    have "\<exists>n \<le> length file. rd_bytes (c_reader c (rg_port args)) = take n file"
      using stopped_outcome [OF st(1)] st(2) by auto
    then show ?thesis unfolding if_not_P [OF False] using st(2) rs res good(4)
      by (intro exI [of _ "[Stop, Clear, Start, Stop, Clear]"]) auto
  qed
qed

lemma ring_outcome_left:
  assumes "ring_outcome args file mp ps res c" and ks: "length file div 64 \<le> sum_list (map (\<lambda>k. k (rg_port args)) ks)"
  shows "if rr_completed res \<or> rg_no_wait args
     then cfg_stream_eof (c_cfg c (rg_port args)) \<and> cfg_pkt_count (c_cfg c (rg_port args)) = word_of_int (rr_committed_packets res)
       \<and> rd_bytes (c_reader (fold card_advance ks c) (rg_port args)) = file
     else \<not> rd_active (c_reader c (rg_port args))"
proof (cases "rr_completed res \<or> rg_no_wait args")
  case False
  then show ?thesis using assms(1) stopped_outcome by (auto simp: ring_outcome_def)
next
  case True
  then obtain st where res: "rr_committed_packets res = fd_packet_count st"
    and good: "feed_pure file st" "fd_eof st" "fd_started st" "fd_write_count st = int (length file)"
    and inv: "feed_inv (rg_port args) (rg_ring_base args) (nat (rg_ring_size args)) file (ps @ [(rg_port args, Stop), (rg_port args, Clear)]) st c"
    using assms(1) by (auto simp: ring_outcome_def)
  note fed = fed_outcome [OF inv good(2-4)]
  have "\<exists>rs. concat rs = file \<and> list_all is_record rs" using good by (auto simp: feed_pure_def)
  then have "64 dvd length file" using records_64 by auto
  from ring_drains [OF fed(2) this] ks have "rd_bytes (c_reader (fold card_advance ks c) (rg_port args)) = file" by simp
  then show ?thesis unfolding if_P [OF True] using fed(5,6) res by simp
qed

lemma ring_main_on_board:
  assumes "ring_setting fs args file mp"
  shows "(\<exists>res w. ring_main (board_os hw) fs args b = Some (Inr res, w) \<and> ring_outcome args file mp (c_pulses (bd_card b)) res (bd_card w))
    \<or> (\<exists>e w. ring_main (board_os hw) fs args b = Some (Inl e, w)
        \<and> stopped (rg_port args) file (c_pulses (bd_card b) @ [(rg_port args, Stop), (rg_port args, Clear)]) [Stop, Clear] (bd_card w))"
  by (rule spec_outcome [OF board.ring_main_outcome [OF assms] refl])

text \<open>C2: Ring streaming is safe for a file below 4 GiB.  With arguments that pass the program's checks and a
  positive feeding time limit, and for every card (whatever its reader consumes between two accesses, how
  many bytes its transfers move, what its status inputs say): the program returns; once it has started the
  reader, the bytes the reader has consumed are a prefix of the file, so it never sees a byte that was not
  yet written or that was overwritten too early, also across the wrap of the ring.  A normal return has
  committed the whole file, cut into well-formed records whose number is reported and agrees with the
  manifest's, with one start pulse, and a stop and a clear after it if the wait timed out; an error return
  has stopped and cleared the port.\<close>

theorem ring_reader_sees_the_file:
  assumes "ring_setting fs args file mp"
  shows "\<exists>r w qs. ring_main (board_os hw) fs args b = Some (r, w)
    \<and> c_pulses (bd_card w) = c_pulses (bd_card b) @ map (Pair (rg_port args)) qs
    \<and> (Start \<in> set qs \<longrightarrow> (\<exists>n \<le> length file. rd_bytes (c_reader (bd_card w) (rg_port args)) = take n file))
    \<and> (case r of
        Inl e \<Rightarrow> qs \<in> {[Stop, Clear, Stop, Clear], [Stop, Clear, Start, Stop, Clear]} \<and> \<not> rd_active (c_reader (bd_card w) (rg_port args))
      | Inr res \<Rightarrow> rr_committed_bytes res = int (length file)
          \<and> (\<exists>rs. concat rs = file \<and> list_all is_record rs \<and> rr_committed_packets res = int (length rs) \<and> (mp = 0 \<or> mp = int (length rs)))
          \<and> qs = [Stop, Clear, Start] @ (if rr_completed res \<or> rg_no_wait args then [] else [Stop, Clear]))"
proof -
  let ?p = "rg_port args" and ?ps = "c_pulses (bd_card b)"
  from ring_main_on_board [OF assms, of hw b]
  show ?thesis
  proof (elim disjE exE conjE)
    fix res w
    assume run: "ring_main (board_os hw) fs args b = Some (Inr res, w)" and out: "ring_outcome args file mp ?ps res (bd_card w)"
    from ring_outcome_cases [OF out] obtain qs where qs: "c_pulses (bd_card w) = ?ps @ map (Pair ?p) qs"
      "\<exists>n \<le> length file. rd_bytes (c_reader (bd_card w) ?p) = take n file"
      "qs = [Stop, Clear, Start] @ (if rr_completed res \<or> rg_no_wait args then [] else [Stop, Clear])"
      "rr_committed_bytes res = int (length file)"
      "\<exists>rs. concat rs = file \<and> list_all is_record rs \<and> rr_committed_packets res = int (length rs) \<and> (mp = 0 \<or> mp = int (length rs))"
      by blast
    show ?thesis by (intro exI [of _ "Inr res"] exI [of _ w] exI [of _ qs]) (use run qs in simp)
  next
    fix e w
    assume run: "ring_main (board_os hw) fs args b = Some (Inl e, w)"
      and st: "stopped ?p file (?ps @ [(?p, Stop), (?p, Clear)]) [Stop, Clear] (bd_card w)"
    from stopped_outcome [OF st] obtain qs where qs: "c_pulses (bd_card w) = ?ps @ map (Pair ?p) qs" "\<not> rd_active (c_reader (bd_card w) ?p)"
      "qs \<in> {[Stop, Clear, Stop, Clear], [Stop, Clear, Start, Stop, Clear]}"
      "Start \<in> set qs \<longrightarrow> (\<exists>n \<le> length file. rd_bytes (c_reader (bd_card w) ?p) = take n file)" by blast
    show ?thesis by (intro exI [of _ "Inl e"] exI [of _ w] exI [of _ qs]) (use run qs in simp)
  qed
qed

text \<open>C6: A streamed file drains.  Under the same conditions, when the program has returned normally and left
  the port running (the replay completed, or it was told not to wait), the whole file is committed with its
  end mark and packet count; then any sequence of reader steps that offers enough 64-byte beats, in whatever
  portions, leads to the reader having consumed exactly the file.\<close>

theorem ring_file_drains:
  assumes "ring_setting fs args file mp" and "length file div 64 \<le> sum_list (map (\<lambda>k. k (rg_port args)) ks)"
  shows "\<exists>r w. ring_main (board_os hw) fs args b = Some (r, w)
    \<and> (case r of Inl e \<Rightarrow> True
      | Inr res \<Rightarrow> if rr_completed res \<or> rg_no_wait args
          then cfg_stream_eof (c_cfg (bd_card w) (rg_port args))
             \<and> cfg_pkt_count (c_cfg (bd_card w) (rg_port args)) = word_of_int (rr_committed_packets res)
             \<and> rd_bytes (c_reader (fold card_advance ks (bd_card w)) (rg_port args)) = file
          else \<not> rd_active (c_reader (bd_card w) (rg_port args)))"
  using ring_main_on_board [OF assms(1), of hw b]
  by (elim disjE exE conjE) (auto dest: ring_outcome_left [OF _ assms(2)])

definition demo_ring_args :: ring_args where
  "demo_ring_args = \<lparr> rg_stream = Some ''s'', rg_manifest = None, rg_port = 1, rg_reg_base = None, rg_ring_base = 0x20000000,
     rg_ring_size = 256, rg_prefill_bytes = 0, rg_guard_bytes = 64, rg_batch_bytes = 64, rg_poll_interval = 1 / 1000,
     rg_start_time = 0, rg_rate_q16_16 = 0x10000, rg_watermark = 0, rg_tick_hz = 322265625, rg_timeout = 1000000, rg_feed_timeout = 0,
     rg_force_link_up = True, rg_force_tx_ready = False, rg_no_wait = True \<rparr>"

definition demo_ring_fs :: "string \<Rightarrow> bytes option" where
  "demo_ring_fs = (\<lambda>f. if f = ''s'' then Some (replicate 64 0) else None)"

lemma demo_ring_setting: "ring_setting demo_ring_fs demo_ring_args (replicate 64 0) 0"
  by (simp add: ring_setting_def demo_ring_args_def demo_ring_fs_def ring_manifest_def require_file_def ring_checks_def check_def bind_res_def)

theorem ring_reader_sees_the_file_witness:
  "\<exists>r w qs. ring_main (board_os demo_hw) demo_ring_fs demo_ring_args demo_board = Some (r, w)
    \<and> c_pulses (bd_card w) = map (Pair 1) qs \<and> (Start \<notin> set qs \<or> (\<exists>n. rd_bytes (c_reader (bd_card w) 1) = take n (replicate 64 0)))"
  using ring_reader_sees_the_file [OF demo_ring_setting, of demo_hw demo_board] by (auto simp: demo_ring_args_def demo_board_def)

theorem ring_file_drains_witness:
  "\<exists>r w. ring_main (board_os demo_hw) demo_ring_fs demo_ring_args demo_board = Some (r, w)
    \<and> (case r of Inl e \<Rightarrow> True | Inr res \<Rightarrow> rd_bytes (c_reader (fold card_advance [\<lambda>_. 1] (bd_card w)) 1) = replicate 64 0)"
proof -
  have a: "rg_port demo_ring_args = 1" "rg_no_wait demo_ring_args" by (simp_all add: demo_ring_args_def)
  have "length (replicate 64 0 :: bytes) div 64 \<le> sum_list (map (\<lambda>k. k (rg_port demo_ring_args)) [\<lambda>_. 1])" by simp
  from ring_file_drains [OF demo_ring_setting this, of demo_hw demo_board, unfolded a] show ?thesis
    by (elim exE) (rename_tac r w, rule_tac x = r in exI, rule_tac x = w in exI, auto simp: a split: sum.splits)
qed

section \<open>The 4 GiB boundary\<close>

lemma board_read32:
  assumes "decode a = Some (p, off)"
  shows "read32 (board_os hw) a b = (let b' = board_advance hw b in Some (Inr (uint (axi_read off (c_cfg (bd_card b') p)
     ((hw_stats hw b' p)\<lparr>stat_stream_read_count := word_of_nat (rd_count (c_reader (bd_card b') p))\<rparr>))), b'))"
proof -
  have "le_int (le_bytes 4 (uint w)) = uint w" for w :: "32 word"
    using uint_bounded [of w] by (intro le_int_le_bytes) simp_all
  then show ?thesis by (simp add: read32_def pread_def board_os_def board_pread_def assms bind_io_def ret_def Let_def)
qed

lemma uint_hi32: "uint (hi32 w) = uint w div 2 ^ 32 mod 2 ^ 32"
proof -
  have "take_bit 64 (uint w) = uint w" by (rule take_bit_int_eq_self) (use uint_bounded [of w] in simp_all)
  then have "uint (hi32 w) = take_bit 32 (drop_bit 32 (uint w))" by (simp add: hi32_def unsigned_ucast_eq unsigned_drop_bit_eq)
  then show ?thesis by (simp add: take_bit_eq_mod drop_bit_eq_div)
qed

lemma torn_count:
  assumes "(c1 :: int) div 2 ^ 32 < c2 div 2 ^ 32" and "c2 < c1 + 2 ^ 32"
  shows "c1 mod 2 ^ 32 OR push_bit 32 (c2 div 2 ^ 32) = c1 + 2 ^ 32"
proof -
  have "c2 div 2 ^ 32 \<le> (c1 + 2 ^ 32) div 2 ^ 32" using assms(2) by (intro zdiv_mono1) simp_all
  then have "c2 div 2 ^ 32 = c1 div 2 ^ 32 + 1" using assms(1) by simp
  moreover have "c1 mod 2 ^ 32 + (c1 div 2 ^ 32 + 1) * 2 ^ 32 = c1 + 2 ^ 32" by simp
  ultimately show ?thesis by (subst or_push_32) simp_all
qed


text \<open>Such a state: a file of zero-filled records, four gigabytes of which were committed.\<close>

definition zero_bytes :: "nat \<Rightarrow> bytes" where
  "zero_bytes n = replicate n 0"

lemma zero_bytes_simps: "length (zero_bytes n) = n" "i < n \<Longrightarrow> zero_bytes n ! i = 0" "take k (zero_bytes n) = zero_bytes (min k n)"
  "drop k (zero_bytes n) = zero_bytes (n - k)" "zero_bytes j @ zero_bytes k = zero_bytes (j + k)" "zero_bytes 0 = []"
  by (simp_all add: zero_bytes_def replicate_add take_replicate)

lemma zero_records: "concat (replicate n (zero_bytes 64)) = zero_bytes (64 * n)"
  by (induction n) (simp_all add: zero_bytes_simps algebra_simps)

definition torn_args :: ring_args where
  "torn_args = demo_ring_args\<lparr>rg_ring_size := 0x8000000\<rparr>"

definition torn_board :: board where
  "torn_board = demo_board\<lparr>bd_card := \<lparr> c_mem = (\<lambda>_. 0),
     c_cfg = (\<lambda>_. axi_reset\<lparr>cfg_mode := 1, cfg_desc_base := 0x20000000, cfg_stream_ring_size := 0x8000000, cfg_stream_write_count := 0x100000040\<rparr>),
     c_reader = (\<lambda>_. \<lparr> rd_active = True, rd_base = 0x20000000, rd_ring = 0x8000000, rd_count = 0xFFFFFF80, rd_bytes = zero_bytes 0xFFFFFF80 \<rparr>),
     c_pulses = [(0, Start)], c_starts = [] \<rparr>\<rparr>"

definition torn_feed :: feed where
  "torn_feed = (feed_init [] torn_args)\<lparr>fd_started := True, fd_write_count := 0x100000040, fd_packet_count := 0x4000001,
     fd_pending := Some (zero_bytes 64)\<rparr>"

lemma torn_inv: "feed_inv 0 0x20000000 0x8000000 (zero_bytes 0x100000080) [] torn_feed (bd_card torn_board)"
proof -
  have rec: "is_record (zero_bytes 64)"
    by (simp add: is_record_def read_record_def zero_bytes_def pyslice_def align_up_def Let_def numeral_2_eq_2)
  have rs: "\<exists>rs. concat rs = zero_bytes 0x100000040 \<and> list_all is_record rs \<and> int (length rs) = 0x4000001"
    by (rule exI [of _ "replicate 0x4000001 (zero_bytes 64)"]) (simp only: zero_records list_all_length length_replicate nth_replicate, simp add: rec)
  then have "feed_pure (zero_bytes 0x100000080) torn_feed"
    by (simp add: feed_pure_def torn_feed_def feed_init_def zero_bytes_simps rec)
  moreover have "feed_card 0 0x20000000 0x8000000 (zero_bytes 0x100000080) [] 0 0x100000040 0x100000040 torn_feed (bd_card torn_board)"
    by (simp add: feed_card_def ring_ok_def torn_feed_def torn_board_def feed_init_def axi_reset_def window_ok_def zero_bytes_simps Let_def)
  ultimately show ?thesis by (simp add: feed_inv_def) (simp add: torn_feed_def)
qed


end
