(* ===== verification/RxCore.thy ===== *)
theory RxCore
  imports XdmaIo AxiLiteRegs
begin

text \<open>
  The measurement side of a receive port (rtl/rx_capture_bd_core.sv) as the scripts read it: two ring
  memories, of the last inter-packet gaps and of the last events, each behind an index register and a
  64-bit data register.  The locale \<open>sample_ring\<close> is the contract of such a ring; both rings of the
  core interpret it.  The core is seen between accesses with its clocks running and its resets released:
  no traffic arrives, a clear has run its 128 cycles before the next access, and a core that is being
  enabled has nothing left in its packet FIFO or its capture writer (\<open>rx_idle\<close>).
\<close>

section \<open>A ring of samples\<close>

text \<open>
  Of a sequence of samples a ring of \<open>d\<close> slots keeps the last \<open>d\<close>: sample \<open>j\<close> is in slot \<open>j mod d\<close> until
  it is overwritten.  A slot that none of them reached holds what the memory held before, \<open>old\<close>.
\<close>

definition slot :: "(nat \<Rightarrow> 'a) \<Rightarrow> 'a list \<Rightarrow> nat \<Rightarrow> nat \<Rightarrow> 'a" where
  "slot old xs d i =
    (let n = int (length xs); j = n - 1 - (n - 1 - int i) mod int d in if 0 \<le> j then xs ! nat j else old i)"

lemma slot_recent:
  assumes "j < length xs" and "length xs \<le> j + d"
  shows "slot old xs d (j mod d) = xs ! j"
proof -
  have "(int (length xs) - 1 - int (j mod d)) mod int d = (int (length xs) - 1 - int j) mod int d"
    by (simp add: zmod_int mod_diff_right_eq)
  also have "\<dots> = int (length xs) - 1 - int j" using assms by (intro mod_pos_pos_trivial) auto
  finally show ?thesis using assms(1) by (simp add: slot_def Let_def)
qed

lemma slot_empty: "i < d \<Longrightarrow> slot old [] d i = old i"
proof -
  assume "i < d"
  then have "0 \<le> (- 1 - int i) mod int d" by simp
  then show ?thesis by (simp add: slot_def Let_def)
qed

lemma uint_64_range: "0 \<le> uint (x :: 64 word)" "uint (x :: 64 word) < 18446744073709551616"
  using uint_bounded [of x] by simp_all

lemma div_small: "n < 18446744073709551616 \<Longrightarrow> n div 4294967296 < (4294967296 :: int)"
  by linarith

locale sample_ring =
  fixes os :: "'w os" and sel lo hi :: int and depth :: nat
    and residue :: "'w \<Rightarrow> nat \<Rightarrow> 64 word" and samples :: "'w \<Rightarrow> 64 word list" and selected :: "'w \<Rightarrow> nat"
  assumes depth_pos: "0 < depth" and depth_32: "int depth \<le> 2 ^ 32"
    and select: "\<And>i w. i < depth \<Longrightarrow> \<exists>w'. os_pwrite os User (le_bytes 4 (int i)) sel w = (Inr 4, w')
      \<and> residue w' = residue w \<and> samples w' = samples w \<and> selected w' = i"
    and data: "\<And>w. \<exists>w'. os_pread os User 4 lo w
        = (Inr (le_bytes 4 (uint (slot (residue w) (samples w) depth (selected w)) mod 2 ^ 32)), w')
      \<and> residue w' = residue w \<and> samples w' = samples w \<and> selected w' = selected w"
      "\<And>w. \<exists>w'. os_pread os User 4 hi w
        = (Inr (le_bytes 4 (uint (slot (residue w) (samples w) depth (selected w)) div 2 ^ 32)), w')
      \<and> residue w' = residue w \<and> samples w' = samples w \<and> selected w' = selected w"
begin

text \<open>Selecting a slot and reading the data register returns the slot.\<close>

definition read_slot :: "nat \<Rightarrow> ('w, int) io" where
  "read_slot i = seq_io (write32 os sel (int i)) (read64 os lo hi)"

lemma read32_word:
  assumes "os_pread os User 4 a w = (Inr (le_bytes 4 v), w')" and "0 \<le> v" and "v < 2 ^ 32"
  shows "read32 os a w = Some (Inr v, w')"
  using assms by (simp add: read32_def pread_def bind_io_def ret_def le_int_le_bytes)

lemma read_slot_run:
  assumes "i < depth"
  shows "spec (\<lambda>w. residue w = old \<and> samples w = xs) (read_slot i)
    (\<lambda>x w. (residue w = old \<and> samples w = xs) \<and> x = uint (slot old xs depth i)) E"
proof (unfold spec_def, intro allI impI)
  fix w assume w: "residue w = old \<and> samples w = xs"
  have "(take_bit 32 (int i) :: int) = int i" using assms depth_32 by (simp add: take_bit_int_eq_self_iff)
  moreover obtain w1 where w1: "os_pwrite os User (le_bytes 4 (int i)) sel w = (Inr 4, w1)"
      "residue w1 = old" "samples w1 = xs" "selected w1 = i"
    using select [OF assms, of w] w by auto
  ultimately have s: "write32 os sel (int i) w = Some (Inr (), w1)"
    using assms depth_32 by (simp add: write32_def pack_le_def pwrite_def bind_io_def lift_res_def ret_def
        take_bit_eq_mask mask_numeral)
  let ?x = "uint (slot old xs depth i)"
  have x: "0 \<le> ?x" "?x < 2 ^ 64" by (simp_all add: uint_64_range)
  obtain w2 where w2: "os_pread os User 4 lo w1 = (Inr (le_bytes 4 (?x mod 2 ^ 32)), w2)"
      "residue w2 = old" "samples w2 = xs" "selected w2 = i"
    using data(1) [of w1] w1 by auto
  obtain w3 where w3: "os_pread os User 4 hi w2 = (Inr (le_bytes 4 (?x div 2 ^ 32)), w3)" "residue w3 = old" "samples w3 = xs"
    using data(2) [of w2] w2 by auto
  have "read64 os lo hi w1 = Some (Inr (?x mod 2 ^ 32 OR push_bit 32 (?x div 2 ^ 32)), w3)"
    using read32_word [OF w2(1)] read32_word [OF w3(1)] div_small [of ?x] x
    by (simp add: read64_def bind_io_def ret_def pos_imp_zdiv_nonneg_iff)
  then have "read64 os lo hi w1 = Some (Inr ?x, w3)" by (simp only: split_64)
  with s show "case read_slot i w of None \<Rightarrow> False | Some (Inl e, w') \<Rightarrow> E e w'
      | Some (Inr x, w') \<Rightarrow> (residue w' = old \<and> samples w' = xs) \<and> x = ?x"
    by (simp add: read_slot_def bind_io_def w3)
qed

end

section \<open>The core\<close>

text \<open>The histogram bin of a gap: its binary logarithm, cut off at 15.\<close>

definition gap_hist_bin :: "int \<Rightarrow> nat" where
  "gap_hist_bin gap = fold (\<lambda>i result. if 2 ^ i \<le> gap then i else result) [1..<16] 0"

definition EVENT_RING_SAMPLES :: nat where "EVENT_RING_SAMPLES = 524288"
definition GAP_SAMPLE_DEPTH :: nat where "GAP_SAMPLE_DEPTH = 4096"

text \<open>
  \<open>rc_measured\<close>: the gaps measured since the core was last enabled and cleared; \<open>rc_gaps\<close> and
  \<open>rc_events\<close>: those that reached the two rings since the last clear, oldest first (events arrive in
  words of eight); \<open>rc_gap_old\<close> and \<open>rc_event_old\<close>: what the two memories held at that clear, which does
  not touch them; \<open>rc_writer\<close> to \<open>rc_remaining\<close>: the capture writer, the packet FIFO and the link, as
  STATUS and DEBUG show them; \<open>rc_words\<close>: the packet counters and the tick, by offset.
\<close>

record rx_core =
  rc_enable :: bool
  rc_capture :: bool
  rc_ring_base :: "64 word"
  rc_ring_size :: "32 word"
  rc_trunc_bytes :: "32 word"
  rc_write_ptr :: "32 word"
  rc_events :: "64 word list"
  rc_event_old :: "nat \<Rightarrow> 64 word"
  rc_event_sel :: "19 word"
  rc_gaps :: "64 word list"
  rc_gap_old :: "nat \<Rightarrow> 64 word"
  rc_gap_sel :: "12 word"
  rc_measured :: "64 word list"
  rc_hist_sel :: "4 word"
  rc_writer :: "2 word"
  rc_overflow :: bool
  rc_link_up :: bool
  rc_fifo_valid :: bool
  rc_fifo_ready :: bool
  rc_bvalid :: bool
  rc_wvalid :: bool
  rc_awvalid :: bool
  rc_in_packet :: bool
  rc_remaining :: "32 word"
  rc_words :: "int \<Rightarrow> 32 word"

definition word_lo :: "int \<Rightarrow> int" where "word_lo n = n mod 2 ^ 32"
definition word_hi :: "int \<Rightarrow> int" where "word_hi n = n div 2 ^ 32 mod 2 ^ 32"

definition hist_count :: "rx_core \<Rightarrow> nat \<Rightarrow> int" where
  "hist_count r i = int (length (filter (\<lambda>g. gap_hist_bin (uint g) = i) (rc_measured r)))"

definition gap_least :: "64 word list \<Rightarrow> int" where
  "gap_least gs = (case gs of [] \<Rightarrow> 0 | g # rest \<Rightarrow> fold min (map uint rest) (uint g))"

definition gap_greatest :: "64 word list \<Rightarrow> int" where
  "gap_greatest gs = (case gs of [] \<Rightarrow> 0 | g # rest \<Rightarrow> fold max (map uint rest) (uint g))"

definition gap_last :: "64 word list \<Rightarrow> int" where
  "gap_last gs = (if gs = [] then 0 else uint (last gs))"

definition gap_memory :: "rx_core \<Rightarrow> nat \<Rightarrow> 64 word" where
  "gap_memory r = slot (rc_gap_old r) (rc_gaps r) GAP_SAMPLE_DEPTH"

definition event_memory :: "rx_core \<Rightarrow> nat \<Rightarrow> 64 word" where
  "event_memory r = slot (rc_event_old r) (rc_events r) EVENT_RING_SAMPLES"

definition rx_status_word :: "rx_core \<Rightarrow> int" where
  "rx_status_word r = 128 * uint (rc_writer r) + 64 * of_bool (rc_overflow r) + 32 * of_bool (rc_link_up r)
     + 16 * of_bool (rc_fifo_valid r) + 8 * of_bool (rc_fifo_ready r) + 4 * of_bool (rc_bvalid r)
     + 2 * of_bool (rc_wvalid r) + of_bool (rc_awvalid r)"

definition rx_debug_word :: "rx_core \<Rightarrow> int" where
  "rx_debug_word r = 256 * (uint (rc_remaining r) mod 2 ^ 16) + 4 * of_bool (rc_in_packet r) + uint (rc_writer r)"

text \<open>A register read, as the value of its 32 bits.\<close>

definition rx_read :: "int \<Rightarrow> rx_core \<Rightarrow> int" where
  "rx_read off r =
    (if off = 0x00 then of_bool (rc_enable r) + 4 * of_bool (rc_capture r)
     else if off = 0x04 then rx_status_word r
     else if off = 0x10 then word_lo (uint (rc_ring_base r))
     else if off = 0x14 then word_hi (uint (rc_ring_base r))
     else if off = 0x18 then uint (rc_ring_size r)
     else if off = 0x1c then uint (rc_trunc_bytes r)
     else if off = 0x20 then uint (rc_write_ptr r)
     else if off = 0x60 then rx_debug_word r
     else if off = 0x64 then word_lo (int (length (rc_measured r)))
     else if off = 0x68 then word_hi (int (length (rc_measured r)))
     else if off = 0x6c then word_lo (uint (sum_list (rc_measured r)))
     else if off = 0x70 then word_hi (uint (sum_list (rc_measured r)))
     else if off = 0x74 then word_lo (gap_least (rc_measured r))
     else if off = 0x78 then word_hi (gap_least (rc_measured r))
     else if off = 0x7c then word_lo (gap_greatest (rc_measured r))
     else if off = 0x80 then word_hi (gap_greatest (rc_measured r))
     else if off = 0x84 then word_lo (gap_last (rc_measured r))
     else if off = 0x88 then word_hi (gap_last (rc_measured r))
     else if off = 0x94 then uint (rc_gap_sel r)
     else if off = 0x98 then int (min (length (rc_gaps r)) GAP_SAMPLE_DEPTH)
     else if off = 0x9c then uint (gap_memory r (unat (rc_gap_sel r))) mod 2 ^ 32
     else if off = 0xa0 then uint (gap_memory r (unat (rc_gap_sel r))) div 2 ^ 32
     else if off = 0xa4 then int (length (rc_gaps r) mod GAP_SAMPLE_DEPTH)
     else if off = 0xa8 then uint (rc_event_sel r)
     else if off = 0xac then word_lo (int (length (rc_events r)))
     else if off = 0xb0 then word_hi (int (length (rc_events r)))
     else if off = 0xb4 then uint (event_memory r (unat (rc_event_sel r))) mod 2 ^ 32
     else if off = 0xb8 then uint (event_memory r (unat (rc_event_sel r))) div 2 ^ 32
     else if off = 0xbc then 8 * (int (length (rc_events r) div 8) mod 65536)
     else if off = 0xc8 then int EVENT_RING_SAMPLES
     else if off = 0xcc then uint (rc_hist_sel r)
     else if off = 0xd0 then word_lo (hist_count r (unat (rc_hist_sel r)))
     else if off = 0xd4 then word_hi (hist_count r (unat (rc_hist_sel r)))
     else if off = 0xd8 then 7
     else if off \<in> set [0x30, 0x34, 0x38, 0x3c, 0x40, 0x44, 0x48, 0x4c, 0x50, 0x54, 0x58, 0x5c, 0x8c, 0x90, 0xc0, 0xc4]
       then uint (rc_words r off)
     else 0)"

text \<open>
  A clear empties the rings, the counters and the packet FIFO, aborts the capture writer (which then
  accepts a write response that was waiting) and forgets an overflow; it keeps the configuration, the
  selected gap slot and the contents of the two memories.  A disabled core holds the counters and the
  overflow flag of its receive side at zero.
\<close>

definition rx_clear_core :: "rx_core \<Rightarrow> rx_core" where
  "rx_clear_core r = r\<lparr>rc_write_ptr := 0,
     rc_events := [], rc_event_old := event_memory r, rc_event_sel := 0,
     rc_gaps := [], rc_gap_old := gap_memory r,
     rc_measured := [], rc_hist_sel := 0,
     rc_writer := 0, rc_overflow := False, rc_fifo_valid := False, rc_fifo_ready := True,
     rc_bvalid := False, rc_wvalid := False, rc_awvalid := False,
     rc_in_packet := False, rc_remaining := 0,
     rc_words := \<lambda>off. if off \<in> {0x30..0x5c} \<union> {0x8c..0x90} \<union> {0xc0..0xc4} then 0 else rc_words r off\<rparr>"

definition rx_hold_core :: "rx_core \<Rightarrow> rx_core" where
  "rx_hold_core r = (if rc_enable r then r else r\<lparr>rc_measured := [], rc_overflow := False,
     rc_words := \<lambda>off. if off \<in> {0x30..0x44} \<union> {0x8c..0x90} \<union> {0xc0..0xc4} then 0 else rc_words r off\<rparr>)"

definition rx_write :: "int \<Rightarrow> int \<Rightarrow> rx_core \<Rightarrow> rx_core" where
  "rx_write off v r =
    (if off = 0x00 then
       let r' = r\<lparr>rc_enable := bit v 0, rc_capture := bit v 2\<rparr> in
       rx_hold_core (if bit v 1 then rx_clear_core r' else r')
     else if off = 0x10 then r\<lparr>rc_ring_base := set_lo (word_of_int v) 15 (rc_ring_base r)\<rparr>
     else if off = 0x14 then r\<lparr>rc_ring_base := set_hi (word_of_int v) 15 (rc_ring_base r)\<rparr>
     else if off = 0x18 then r\<lparr>rc_ring_size := word_of_int v\<rparr>
     else if off = 0x1c then r\<lparr>rc_trunc_bytes := word_of_int v\<rparr>
     else if off = 0x20 then r\<lparr>rc_write_ptr := word_of_int v\<rparr>
     else if off = 0x94 then r\<lparr>rc_gap_sel := word_of_int v\<rparr>
     else if off = 0xa8 then r\<lparr>rc_event_sel := word_of_int v\<rparr>
     else if off = 0xcc then r\<lparr>rc_hist_sel := word_of_int v\<rparr>
     else r)"

text \<open>The core alone behind the user device.\<close>

definition rx_os :: "int \<Rightarrow> rx_core os" where
  "rx_os base = \<lparr> os_pread = (\<lambda>fd n a r. (Inr (le_bytes 4 (rx_read (a - base) r)), r)),
     os_pwrite = (\<lambda>fd data a r. (Inr (int (length data)), rx_write (a - base) (le_int data) r)),
     os_sleep = (\<lambda>t r. r), os_clock = (\<lambda>r. (0, r)) \<rparr>"

lemma le_int_small: "i < d \<Longrightarrow> int d \<le> 2 ^ 32 \<Longrightarrow> le_int (le_bytes 4 (int i)) = int i"
  by (rule le_int_le_bytes) simp_all

lemma unat_select:
  "i < 524288 \<Longrightarrow> unat (word_of_nat i :: 19 word) = i"
  "i < 4096 \<Longrightarrow> unat (word_of_nat i :: 12 word) = i"
  by (simp_all add: unat_of_nat take_bit_nat_eq_self)

interpretation events: sample_ring "rx_os base" "base + 0xa8" "base + 0xb4" "base + 0xb8" EVENT_RING_SAMPLES
    rc_event_old rc_events "\<lambda>r. unat (rc_event_sel r)" for base
  by unfold_locales
    (auto simp: rx_os_def rx_read_def rx_write_def event_memory_def EVENT_RING_SAMPLES_def le_int_small unat_select)

interpretation gaps: sample_ring "rx_os base" "base + 0x94" "base + 0x9c" "base + 0xa0" GAP_SAMPLE_DEPTH
    rc_gap_old rc_gaps "\<lambda>r. unat (rc_gap_sel r)" for base
  by unfold_locales
    (auto simp: rx_os_def rx_read_def rx_write_def gap_memory_def GAP_SAMPLE_DEPTH_def le_int_small unat_select)

section \<open>Access to the core\<close>

lemma word_half_range: "0 \<le> word_lo n" "word_lo n < 2 ^ 32" "0 \<le> word_hi n" "word_hi n < 2 ^ 32"
  by (simp_all add: word_lo_def word_hi_def)

lemma uint_small: "uint (w :: 'a :: len word) < 2 ^ 32" if "LENGTH('a) \<le> 32"
proof -
  have "uint w < 2 ^ LENGTH('a)" using uint_bounded [of w] by simp
  also have "\<dots> \<le> (2 :: int) ^ 32" using that by (intro power_increasing) simp_all
  finally show ?thesis .
qed

lemma rx_read_range: "0 \<le> rx_read off r \<and> rx_read off r < 2 ^ 32"
proof -
  have a: "0 \<le> of_bool x + 4 * (of_bool y :: int) \<and> of_bool x + 4 * of_bool y < (2 ^ 32 :: int)" for x y :: bool by simp
  have b: "0 \<le> n mod 2 ^ 32 \<and> n mod 2 ^ 32 < (2 ^ 32 :: int)" for n by simp
  have c: "0 \<le> 8 * (n mod 65536) \<and> 8 * (n mod 65536) < (2 ^ 32 :: int)" for n
  proof -
    have "0 \<le> n mod 65536" "n mod 65536 < (65536 :: int)" by simp_all
    then show ?thesis by simp
  qed
  have d: "0 \<le> uint (x :: 64 word) div 2 ^ 32 \<and> uint x div 2 ^ 32 < 2 ^ 32" for x
    using div_small [of "uint x"] by (simp add: uint_64_range pos_imp_zdiv_nonneg_iff)
  have w: "0 \<le> uint (w :: 2 word)" "uint w < 4" for w using uint_bounded [of w] by simp_all
  have st: "0 \<le> rx_status_word r \<and> rx_status_word r < 2 ^ 32"
    using w [of "rc_writer r"] by (simp add: rx_status_word_def of_bool_def)
  have db: "0 \<le> rx_debug_word r \<and> rx_debug_word r < 2 ^ 32"
  proof -
    have "0 \<le> uint (rc_remaining r) mod 65536" "uint (rc_remaining r) mod 65536 < 65536" by simp_all
    with w [of "rc_writer r"] show ?thesis by (auto simp: rx_debug_word_def of_bool_def)
  qed
  have e: "0 \<le> uint (w :: 32 word) \<and> uint w < 2 ^ 32" "0 \<le> uint (x :: 19 word) \<and> uint x < 2 ^ 32"
    "0 \<le> uint (y :: 12 word) \<and> uint y < 2 ^ 32" "0 \<le> uint (z :: 4 word) \<and> uint z < 2 ^ 32" for w x y z
    using uint_small [of w] uint_small [of x] uint_small [of y] uint_small [of z] by simp_all
  have f: "0 \<le> int (min n GAP_SAMPLE_DEPTH) \<and> int (min n GAP_SAMPLE_DEPTH) < 2 ^ 32"
    "0 \<le> int (n mod GAP_SAMPLE_DEPTH) \<and> int (n mod GAP_SAMPLE_DEPTH) < 2 ^ 32"
    "0 \<le> int EVENT_RING_SAMPLES \<and> int EVENT_RING_SAMPLES < 2 ^ 32" for n
    using mod_less_divisor [of GAP_SAMPLE_DEPTH n] by (auto simp: GAP_SAMPLE_DEPTH_def EVENT_RING_SAMPLES_def min_def zmod_int)
  have h: "0 \<le> word_lo n \<and> word_lo n < 2 ^ 32" "0 \<le> word_hi n \<and> word_hi n < 2 ^ 32" for n
    using word_half_range by blast+
  have z: "0 \<le> x \<and> x < 2 ^ 32 \<Longrightarrow> 0 \<le> y \<and> y < 2 ^ 32 \<Longrightarrow>
      0 \<le> (if t then x else y) \<and> (if t then x else y) < 2 ^ 32" for x y :: int and t by simp
  have k: "0 \<le> (7 :: int) \<and> 7 < (2 ^ 32 :: int)" "0 \<le> (0 :: int) \<and> 0 < (2 ^ 32 :: int)" by simp_all
  show ?thesis
    unfolding rx_read_def by (rule z | rule h | rule st | rule db | rule d | rule e | rule f | rule c | rule b | rule a | rule k)+
qed

text \<open>A register read leaves the core as it is, a register write is one \<open>rx_write\<close>.\<close>

lemma rx_read32: "read32 (rx_os base) (base + off) r = Some (Inr (rx_read off r), r)"
  using rx_read_range [of off r] by (simp add: read32_def pread_def rx_os_def bind_io_def ret_def le_int_le_bytes)

lemma rx_write32: "write32 (rx_os base) (base + off) v r = Some (Inr (), rx_write off (take_bit 32 v) r)"
proof -
  have "take_bit 32 v < 2 ^ 32" by (rule take_bit_int_less_exp)
  then show ?thesis
    by (simp add: write32_pack pwrite_def rx_os_def bind_io_def ret_def le_int_le_bytes)
qed

end
