(* ===== verification/RegCli.thy ===== *)
theory RegCli
  imports Card RxCore PyText
begin

text \<open>
  traffic_replay_cli.py: the register tables, the two status displays and every command of \<open>main\<close>.  A
  command returns the lines it prints, as labels and values; what was printed before an exception is
  left out.  Here the commands for the transmit ports are specified on any card; RxCli has the
  receive side.
\<close>

section \<open>Register tables\<close>

definition REG_NAMES :: "(string \<times> int) list" where
  "REG_NAMES = [
     (''CONTROL'', 0x0000), (''MODE'', 0x0004), (''STATUS'', 0x0008), (''DESC_BASE_LO'', 0x0010),
     (''DESC_BASE_HI'', 0x0014), (''DATA_BASE_LO'', 0x0018), (''DATA_BASE_HI'', 0x001c), (''TRACE_LO'', 0x0020),
     (''TRACE_HI'', 0x0024), (''PKT_LO'', 0x0028), (''PKT_HI'', 0x002c), (''LOOP_LO'', 0x0030),
     (''LOOP_HI'', 0x0034), (''LOOP_GAP_LO'', 0x0038), (''LOOP_GAP_HI'', 0x003c), (''START_LO'', 0x0040),
     (''START_HI'', 0x0044), (''RATE'', 0x0048), (''WATERMARK'', 0x004c), (''FIFO_LEVEL'', 0x0050),
     (''DEBUG_CTRL'', 0x0054), (''TX_PKTS_LO'', 0x0060), (''TX_PKTS_HI'', 0x0064), (''TX_BYTES_LO'', 0x0068),
     (''TX_BYTES_HI'', 0x006c), (''LATE_LO'', 0x0070), (''LATE_HI'', 0x0074), (''UNDERRUN_LO'', 0x0078),
     (''UNDERRUN_HI'', 0x007c), (''DEBUG_STATUS'', 0x0080), (''DEBUG_AXI'', 0x0084), (''DEBUG_AR_LO'', 0x0088),
     (''DEBUG_AR_HI'', 0x008c), (''DEBUG_RDATA'', 0x0090), (''DEBUG_TICK_LO'', 0x0094), (''DEBUG_TICK_HI'', 0x0098),
     (''STREAM_WR_LO'', 0x00a0), (''STREAM_WR_HI'', 0x00a4), (''STREAM_RD_LO'', 0x00a8), (''STREAM_RD_HI'', 0x00ac),
     (''STREAM_RING_LO'', 0x00b0), (''STREAM_RING_HI'', 0x00b4), (''STREAM_CTRL'', 0x00b8), (''STREAM_STATUS'', 0x00bc),
     (''STREAM_LEVEL_LO'', 0x00c0), (''STREAM_LEVEL_HI'', 0x00c4), (''DROP_PKTS_LO'', 0x00c8), (''DROP_PKTS_HI'', 0x00cc),
     (''DROP_BEATS_LO'', 0x00d0), (''DROP_BEATS_HI'', 0x00d4), (''STALL_EVT_LO'', 0x00d8), (''STALL_EVT_HI'', 0x00dc),
     (''SCHED_CTRL'', 0x00e0), (''GLOBAL_TICK_LO'', 0x00e4), (''GLOBAL_TICK_HI'', 0x00e8), (''SCHED_STATUS'', 0x00ec)]"

definition RX_REG_NAMES :: "(string \<times> int) list" where
  "RX_REG_NAMES = [
     (''CONTROL'', 0x0000), (''STATUS'', 0x0004), (''RING_BASE_LO'', 0x0010), (''RING_BASE_HI'', 0x0014),
     (''RING_SIZE'', 0x0018), (''TRUNC_BYTES'', 0x001c), (''WRITE_PTR'', 0x0020), (''RX_PKTS_LO'', 0x0030),
     (''RX_PKTS_HI'', 0x0034), (''RX_BYTES_LO'', 0x0038), (''RX_BYTES_HI'', 0x003c), (''RX_ERRS_LO'', 0x0040),
     (''RX_ERRS_HI'', 0x0044), (''CAP_BYTES_LO'', 0x0048), (''CAP_BYTES_HI'', 0x004c), (''AXI_WR_LO'', 0x0050),
     (''AXI_WR_HI'', 0x0054), (''AXI_ERR_LO'', 0x0058), (''AXI_ERR_HI'', 0x005c), (''DEBUG'', 0x0060),
     (''GAP_COUNT_LO'', 0x0064), (''GAP_COUNT_HI'', 0x0068), (''GAP_SUM_LO'', 0x006c), (''GAP_SUM_HI'', 0x0070),
     (''GAP_MIN_LO'', 0x0074), (''GAP_MIN_HI'', 0x0078), (''GAP_MAX_LO'', 0x007c), (''GAP_MAX_HI'', 0x0080),
     (''GAP_LAST_LO'', 0x0084), (''GAP_LAST_HI'', 0x0088), (''RX_TICK_LO'', 0x008c), (''RX_TICK_HI'', 0x0090),
     (''GAP_SAMPLE_INDEX'', 0x0094), (''GAP_SAMPLE_COUNT'', 0x0098), (''GAP_SAMPLE_LO'', 0x009c), (''GAP_SAMPLE_HI'', 0x00a0),
     (''GAP_SAMPLE_WRITE_INDEX'', 0x00a4), (''EVENT_INDEX'', 0x00a8), (''EVENT_COUNT_LO'', 0x00ac), (''EVENT_COUNT_HI'', 0x00b0),
     (''EVENT_DATA_LO'', 0x00b4), (''EVENT_DATA_HI'', 0x00b8), (''EVENT_WRITE_INDEX'', 0x00bc), (''EVENT_DROP_LO'', 0x00c0),
     (''EVENT_DROP_HI'', 0x00c4), (''EVENT_CAPACITY'', 0x00c8), (''HIST_INDEX'', 0x00cc), (''HIST_COUNT_LO'', 0x00d0),
     (''HIST_COUNT_HI'', 0x00d4), (''CAPABILITIES'', 0x00d8)]"

definition rx_port_base :: "nat \<Rightarrow> int" where
  "rx_port_base port = (if port = 0 then 0x20000 else 0x30000)"

section \<open>Output\<close>

datatype shown = Word string | Dec int | Hex nat int | Fixed6 rat

datatype line =
    Field string shown
  | RegLine int string int
  | Armed "int list" int int "int list"
  | EventLine int int
  | HistLine int int int int
  | RawReg int int

definition bool_word :: "bool \<Rightarrow> string" where
  "bool_word value = (if value then ''yes'' else ''no'')"

abbreviation flag_field :: "string \<Rightarrow> int \<Rightarrow> nat \<Rightarrow> line" where
  "flag_field name w i \<equiv> Field name (Word (bool_word (w AND push_bit i 1 \<noteq> 0)))"

section \<open>Ports\<close>

definition parse_ports :: "string \<Rightarrow> int list res" where
  "parse_ports value = bind_res
     (fold_res (\<lambda>item ports. if strip item = [] then Inr ports
        else bind_res (int_auto item) (\<lambda>port. Inr (insort_insert port ports))) (split_on (CHR '','') value) [])
     (\<lambda>ports. if ports = [] \<or> list_ex (\<lambda>port. port \<notin> {0, 1}) ports
        then Inl (ArgumentTypeError ''ports must be a comma-separated subset of 0,1'') else Inr ports)"

section \<open>Status displays\<close>

definition mode_name :: "int \<Rightarrow> string" where
  "mode_name mode = (if mode = 0 then ''preload'' else if mode = 1 then ''stream'' else if mode = 2 then ''loop''
     else ''unknown('' @ show_int mode @ '')'')"

definition print_status :: "'w os \<Rightarrow> int \<Rightarrow> ('w, line list) io" where
  "print_status os base =
    bind_io (read32 os (base + 0x08)) (\<lambda>status.
    bind_io (read32 os (base + 0x04)) (\<lambda>mode_reg.
    let mode = mode_reg AND 0x3 in
    bind_io (read32 os (base + 0x54)) (\<lambda>debug.
    bind_io (read32 os (base + 0xe0)) (\<lambda>sched_ctrl.
    bind_io (read32 os (base + 0xec)) (\<lambda>sched_status.
    bind_io (read64_stable os (base + 0xe4) (base + 0xe8)) (\<lambda>global_tick.
    bind_io (read32 os (base + 0x50)) (\<lambda>fifo_level.
    bind_io (read64 os (base + 0x60) (base + 0x64)) (\<lambda>tx_packets.
    bind_io (read64 os (base + 0x68) (base + 0x6c)) (\<lambda>tx_bytes.
    bind_io (read64 os (base + 0x70) (base + 0x74)) (\<lambda>late_packets.
    bind_io (read64 os (base + 0x78) (base + 0x7c)) (\<lambda>underrun_packets.
    bind_io (read64 os (base + 0xc8) (base + 0xcc)) (\<lambda>drop_packets.
    bind_io (read64 os (base + 0xd0) (base + 0xd4)) (\<lambda>drop_beats.
    bind_io (read64 os (base + 0xd8) (base + 0xdc)) (\<lambda>stall_events.
    bind_io (read32 os (base + 0x80)) (\<lambda>debug_status.
    bind_io (read32 os (base + 0x84)) (\<lambda>debug_axi.
    bind_io (read64 os (base + 0x88) (base + 0x8c)) (\<lambda>debug_araddr.
    bind_io (read32 os (base + 0x90)) (\<lambda>debug_rdata.
    bind_io (read64 os (base + 0x94) (base + 0x98)) (\<lambda>debug_ticks.
    bind_io (read64 os (base + 0xa0) (base + 0xa4)) (\<lambda>stream_wr.
    bind_io (read64 os (base + 0xa8) (base + 0xac)) (\<lambda>stream_rd.
    bind_io (read64 os (base + 0xb0) (base + 0xb4)) (\<lambda>stream_ring.
    bind_io (read64 os (base + 0xc0) (base + 0xc4)) (\<lambda>stream_level.
    bind_io (read32 os (base + 0xbc)) (\<lambda>stream_status.
    bind_io (read32 os (base + 0xb8)) (\<lambda>stream_ctrl.
    ret [
      Field ''mode'' (Word (mode_name mode)),
      flag_field ''running'' status 0,
      flag_field ''done'' status 1,
      flag_field ''late'' status 2,
      flag_field ''underrun'' status 3,
      flag_field ''cmac_link_up'' status 4,
      flag_field ''tx_gate_open'' status 5,
      flag_field ''force_link_up'' debug 0,
      flag_field ''force_tx_ready'' debug 1,
      flag_field ''auto_tx_drop'' debug 2,
      flag_field ''sync_enable'' sched_ctrl 0,
      flag_field ''egress_schedule'' sched_ctrl 1,
      flag_field ''sync_armed'' sched_status 1,
      Field ''global_tick'' (Dec global_tick),
      Field ''fifo_level'' (Dec fifo_level),
      Field ''tx_packets'' (Dec tx_packets),
      Field ''tx_bytes'' (Dec tx_bytes),
      Field ''late_packets'' (Dec late_packets),
      Field ''underrun_packets'' (Dec underrun_packets),
      Field ''drop_packets'' (Dec drop_packets),
      Field ''drop_beats'' (Dec drop_beats),
      Field ''stall_events'' (Dec stall_events),
      Field ''debug_status'' (Hex 8 debug_status),
      Field ''debug_axi'' (Hex 8 debug_axi),
      Field ''debug_araddr'' (Hex 16 debug_araddr),
      Field ''debug_rdata_low'' (Hex 8 debug_rdata),
      Field ''debug_ticks'' (Dec debug_ticks),
      Field ''stream_ring_size'' (Dec stream_ring),
      Field ''stream_write_ptr'' (Dec stream_wr),
      Field ''stream_read_ptr'' (Dec stream_rd),
      Field ''stream_level'' (Dec stream_level),
      flag_field ''stream_eof'' stream_ctrl 0,
      flag_field ''stream_pingpong'' stream_ctrl 1,
      flag_field ''stream_ptr_error'' stream_status 12,
      flag_field ''stream_pp_status'' stream_status 13,
      flag_field ''stream_wait_empty'' stream_status 11,
      flag_field ''stream_overrun'' stream_status 10,
      flag_field ''stream_size_valid'' stream_status 9,
      Field ''stream_status'' (Hex 8 stream_status)])))))))))))))))))))))))))"

definition gap_average :: "int \<Rightarrow> int \<Rightarrow> rat res" where
  "gap_average gap_sum gap_count = (if gap_count \<noteq> 0 then py_truediv gap_sum gap_count else Inr 0)"

definition print_rx_status :: "'w os \<Rightarrow> int \<Rightarrow> ('w, line list) io" where
  "print_rx_status os base =
    bind_io (read32 os (base + 0x00)) (\<lambda>control.
    bind_io (read32 os (base + 0x04)) (\<lambda>status.
    bind_io (read64 os (base + 0x10) (base + 0x14)) (\<lambda>ring_base.
    bind_io (read32 os (base + 0x18)) (\<lambda>ring_size.
    bind_io (read32 os (base + 0x1c)) (\<lambda>truncate_bytes.
    bind_io (read32 os (base + 0x20)) (\<lambda>write_ptr.
    bind_io (read64 os (base + 0x30) (base + 0x34)) (\<lambda>rx_packets.
    bind_io (read64 os (base + 0x38) (base + 0x3c)) (\<lambda>rx_bytes.
    bind_io (read64 os (base + 0x40) (base + 0x44)) (\<lambda>rx_errors.
    bind_io (read64 os (base + 0x48) (base + 0x4c)) (\<lambda>captured_bytes.
    bind_io (read64 os (base + 0x50) (base + 0x54)) (\<lambda>axi_writes.
    bind_io (read64 os (base + 0x58) (base + 0x5c)) (\<lambda>axi_errors.
    bind_io (read32 os (base + 0x60)) (\<lambda>debug.
    bind_io (read64 os (base + 0x64) (base + 0x68)) (\<lambda>gap_count.
    bind_io (read64 os (base + 0x6c) (base + 0x70)) (\<lambda>gap_sum.
    bind_io (read64 os (base + 0x74) (base + 0x78)) (\<lambda>gap_min.
    bind_io (read64 os (base + 0x7c) (base + 0x80)) (\<lambda>gap_max.
    bind_io (read64 os (base + 0x84) (base + 0x88)) (\<lambda>gap_last.
    bind_io (lift_res (gap_average gap_sum gap_count)) (\<lambda>gap_avg.
    bind_io (read32 os (base + 0x98)) (\<lambda>gap_samples.
    bind_io (read32 os (base + 0xa4)) (\<lambda>gap_sample_wr.
    bind_io (read64 os (base + 0xac) (base + 0xb0)) (\<lambda>event_count.
    bind_io (read64 os (base + 0xc0) (base + 0xc4)) (\<lambda>event_drops.
    bind_io (read32 os (base + 0xc8)) (\<lambda>event_capacity.
    bind_io (read32 os (base + 0xd8)) (\<lambda>capabilities.
    bind_io (read64 os (base + 0x8c) (base + 0x90)) (\<lambda>rx_tick.
    ret [
      flag_field ''rx_enable'' control 0,
      flag_field ''capture_enable'' control 2,
      flag_field ''link_up'' status 5,
      flag_field ''fifo_ready'' status 3,
      flag_field ''fifo_valid'' status 4,
      flag_field ''overflow_seen'' status 6,
      Field ''writer_state'' (Dec (drop_bit 7 status AND 0x3)),
      Field ''ring_base'' (Hex 16 ring_base),
      Field ''ring_size'' (Dec ring_size),
      Field ''truncate_bytes'' (Dec truncate_bytes),
      Field ''write_ptr'' (Dec write_ptr),
      Field ''rx_packets'' (Dec rx_packets),
      Field ''rx_bytes'' (Dec rx_bytes),
      Field ''rx_errors'' (Dec rx_errors),
      Field ''captured_bytes'' (Dec captured_bytes),
      Field ''axi_writes'' (Dec axi_writes),
      Field ''axi_errors'' (Dec axi_errors),
      Field ''debug'' (Hex 8 debug),
      Field ''rx_gap_count'' (Dec gap_count),
      Field ''rx_gap_min'' (Dec gap_min),
      Field ''rx_gap_max'' (Dec gap_max),
      Field ''rx_gap_last'' (Dec gap_last),
      Field ''rx_gap_avg'' (Fixed6 gap_avg),
      Field ''rx_gap_samples'' (Dec gap_samples),
      Field ''rx_gap_sample_wr'' (Dec gap_sample_wr),
      Field ''rx_event_count'' (Dec event_count),
      Field ''rx_event_drops'' (Dec event_drops),
      Field ''rx_event_capacity'' (Dec event_capacity),
      Field ''rx_capabilities'' (Hex 8 capabilities),
      Field ''rx_tick'' (Dec rx_tick)]))))))))))))))))))))))))))"

definition print_regs :: "'w os \<Rightarrow> int \<Rightarrow> (string \<times> int) list \<Rightarrow> ('w, line list) io" where
  "print_regs os base table = for_io table (\<lambda>(name, offset) lines.
     bind_io (read32 os (base + offset)) (\<lambda>value. ret (lines @ [RegLine (base + offset) name value]))) []"

section \<open>Synchronised start\<close>

definition delay_to_ticks :: "rat \<Rightarrow> int \<Rightarrow> int res" where
  "delay_to_ticks delay_ms tick_hz =
     bind_res (py_truediv tick_hz 1) (\<lambda>hz.
     let product = fl (delay_ms * hz) in
     if 2 ^ 1024 \<le> \<bar>product\<bar> then Inl OverflowError
     else Inr (max 1 (round_half_even (fl (product / 1000)))))"

definition sync_configure :: "'w os \<Rightarrow> int \<Rightarrow> int list \<Rightarrow> ('w, unit) io" where
  "sync_configure os target ports = for_io ports (\<lambda>port _.
     let base = tx_port_base (nat port) in
     seq_io (write32 os (base + 0x40) target)
    (seq_io (write32 os (base + 0x44) (drop_bit 32 target))
    (bind_io (read32 os (base + 0xe0)) (\<lambda>ctrl. let sched_ctrl = ctrl OR 0x1 in
     seq_io (write32 os (base + 0xe0) sched_ctrl)
    (bind_io (read32 os (base + 0xe0)) (\<lambda>back.
     if back \<noteq> sched_ctrl
     then raise (RuntimeError (''port '' @ show_int port @ '' does not support synchronized scheduling''))
     else ret ())))))) ()"

definition sync_arm :: "'w os \<Rightarrow> int list \<Rightarrow> ('w, int list) io" where
  "sync_arm os ports = for_io ports (\<lambda>port arm_ticks.
     let base = tx_port_base (nat port) in
     seq_io (write32 os (base + 0x00) 0x1)
    (bind_io (read64_stable os (base + 0xe4) (base + 0xe8)) (\<lambda>tick. ret (arm_ticks @ [tick])))) []"

definition sync_start :: "'w os \<Rightarrow> int list \<Rightarrow> rat \<Rightarrow> int \<Rightarrow> ('w, line list) io" where
  "sync_start os ports delay_ms tick_hz =
    (if delay_ms \<le> 0 then raise (ValueError ''--delay-ms must be positive'') else
     let reference_base = tx_port_base (nat (hd ports)) in
     bind_io (read64_stable os (reference_base + 0xe4) (reference_base + 0xe8)) (\<lambda>now.
     bind_io (lift_res (delay_to_ticks delay_ms tick_hz)) (\<lambda>delay_ticks.
     let target = now + delay_ticks in
     seq_io (sync_configure os target ports)
    (bind_io (sync_arm os ports) (\<lambda>arm_ticks.
     ret [Armed ports target delay_ticks arm_ticks])))))"

section \<open>Events and histogram\<close>

definition event_window :: "'w os \<Rightarrow> int \<Rightarrow> ('w, int \<times> int \<times> int) io" where
  "event_window os rx_base =
     bind_io (read32 os (rx_base + 0xc8)) (\<lambda>capacity.
     bind_io (read64 os (rx_base + 0xac) (rx_base + 0xb0)) (\<lambda>event_count.
     ret (capacity, event_count, min event_count capacity)))"

definition event_oldest :: "'w os \<Rightarrow> int \<Rightarrow> int \<Rightarrow> int \<Rightarrow> ('w, int) io" where
  "event_oldest os rx_base capacity event_count =
     (if capacity \<le> event_count then read32 os (rx_base + 0xbc) else ret 0)"

definition read_event :: "'w os \<Rightarrow> int \<Rightarrow> int \<Rightarrow> int \<Rightarrow> int \<Rightarrow> ('w, int) io" where
  "read_event os rx_base capacity oldest index =
     (if capacity = 0 then raise ZeroDivisionError else
      seq_io (write32 os (rx_base + 0xa8) ((oldest + index) mod capacity))
             (read64 os (rx_base + 0xb4) (rx_base + 0xb8)))"

definition rx_event :: "'w os \<Rightarrow> int \<Rightarrow> int \<Rightarrow> ('w, line list) io" where
  "rx_event os rx_base index =
     bind_io (event_window os rx_base) (\<lambda>(capacity, event_count, available).
     if index < 0 \<or> available \<le> index
     then raise (IndexError (''RX event index '' @ show_int index @ '' outside available range 0..'' @ show_int (available - 1)))
     else bind_io (event_oldest os rx_base capacity event_count) (\<lambda>oldest.
          bind_io (read_event os rx_base capacity oldest index) (\<lambda>value.
          ret [Field (''rx_event['' @ show_int index @ '']'') (Dec value)])))"

definition rx_events :: "'w os \<Rightarrow> int \<Rightarrow> int \<Rightarrow> ('w, line list) io" where
  "rx_events os rx_base limit =
    (if limit \<le> 0 then raise (ValueError ''--limit must be positive'') else
     bind_io (event_window os rx_base) (\<lambda>(capacity, event_count, available).
     bind_io (event_oldest os rx_base capacity event_count) (\<lambda>oldest.
     for_io [max 0 (available - limit)..available - 1] (\<lambda>index lines.
       bind_io (read_event os rx_base capacity oldest index) (\<lambda>value. ret (lines @ [EventLine index value]))) [])))"

definition rx_histogram :: "'w os \<Rightarrow> int \<Rightarrow> int option \<Rightarrow> ('w, line list) io" where
  "rx_histogram os rx_base index =
     for_io (case index of Some i \<Rightarrow> [i] | None \<Rightarrow> [0..15]) (\<lambda>index lines.
       if index < 0 \<or> 16 \<le> index then raise (IndexError ''RX histogram index must be in the range 0..15'')
       else seq_io (write32 os (rx_base + 0xcc) index)
           (bind_io (read64 os (rx_base + 0xd0) (rx_base + 0xd4)) (\<lambda>value.
            ret (lines @ [HistLine index (push_bit (nat index) 1) (push_bit (nat index + 1) 1 - 1) value])))) []"

section \<open>main\<close>

datatype cmd =
    Cmd_status | Cmd_regs | Cmd_start | Cmd_stop | Cmd_clear | Cmd_pause | Cmd_resume
  | Cmd_debug_force_link bool | Cmd_debug_tx_ready bool | Cmd_auto_drop bool
  | Cmd_sync_enable bool | Cmd_egress_schedule bool | Cmd_sync_start "int list" rat int
  | Cmd_rx_status | Cmd_rx_regs | Cmd_rx_clear | Cmd_rx_enable | Cmd_rx_disable
  | Cmd_rx_gap_sample int | Cmd_rx_event int | Cmd_rx_events int | Cmd_rx_histogram "int option"
  | Cmd_rx_capture bool | Cmd_rx_config "int option" "int option" "int option"
  | Cmd_read_reg int | Cmd_write_reg int int

text \<open>A read-modify-write; a write without output.\<close>

definition modify32 :: "'w os \<Rightarrow> int \<Rightarrow> (int \<Rightarrow> int) \<Rightarrow> ('w, int) io" where
  "modify32 os addr f = bind_io (read32 os addr) (\<lambda>value. seq_io (write32 os addr (f value)) (ret (f value)))"

abbreviation quiet :: "('w, 'a) io \<Rightarrow> ('w, line list) io" where
  "quiet m \<equiv> seq_io m (ret [])"

definition modify_checked :: "'w os \<Rightarrow> int \<Rightarrow> (int \<Rightarrow> int) \<Rightarrow> string \<Rightarrow> ('w, line list) io" where
  "modify_checked os addr f message =
     bind_io (modify32 os addr f) (\<lambda>value.
     bind_io (read32 os addr) (\<lambda>back.
     if back \<noteq> value then raise (RuntimeError message) else ret []))"

definition rx_config :: "'w os \<Rightarrow> int \<Rightarrow> int option \<Rightarrow> int option \<Rightarrow> int option \<Rightarrow> ('w, line list) io" where
  "rx_config os rx_base ring_base ring_size truncate_bytes =
     seq_io (case ring_base of None \<Rightarrow> ret () | Some v \<Rightarrow>
        seq_io (write32 os (rx_base + 0x10) v) (write32 os (rx_base + 0x14) (drop_bit 32 v)))
    (seq_io (case ring_size of None \<Rightarrow> ret () | Some v \<Rightarrow> write32 os (rx_base + 0x18) v)
    (seq_io (case truncate_bytes of None \<Rightarrow> ret () | Some v \<Rightarrow> write32 os (rx_base + 0x1c) v) (ret [])))"

definition cli_command :: "'w os \<Rightarrow> int \<Rightarrow> int \<Rightarrow> cmd \<Rightarrow> ('w, line list) io" where
  "cli_command os tx_base rx_base cmd = (case cmd of
     Cmd_status \<Rightarrow> print_status os tx_base
   | Cmd_regs \<Rightarrow> print_regs os tx_base REG_NAMES
   | Cmd_start \<Rightarrow> quiet (write32 os (tx_base + 0x00) 0x1)
   | Cmd_stop \<Rightarrow> quiet (write32 os (tx_base + 0x00) 0x2)
   | Cmd_clear \<Rightarrow> quiet (write32 os (tx_base + 0x00) 0x4)
   | Cmd_pause \<Rightarrow> quiet (write32 os (tx_base + 0x00) 0x8)
   | Cmd_resume \<Rightarrow> quiet (write32 os (tx_base + 0x00) 0x0)
   | Cmd_debug_force_link on \<Rightarrow> quiet (modify32 os (tx_base + 0x54) (\<lambda>v. if on then v OR 0x1 else v AND NOT 0x1))
   | Cmd_debug_tx_ready on \<Rightarrow> quiet (modify32 os (tx_base + 0x54) (\<lambda>v. if on then v OR 0x2 else v AND NOT 0x2))
   | Cmd_auto_drop on \<Rightarrow> quiet (modify32 os (tx_base + 0x54) (\<lambda>v. if on then v OR 0x4 else v AND NOT 0x4))
   | Cmd_sync_enable on \<Rightarrow> modify_checked os (tx_base + 0xe0) (\<lambda>v. if on then v OR 0x1 else v AND NOT 0x1)
       ''bitstream does not expose the synchronized scheduler registers''
   | Cmd_egress_schedule on \<Rightarrow> modify_checked os (tx_base + 0xe0) (\<lambda>v. if on then v OR 0x3 else v AND NOT 0x2)
       ''bitstream does not expose the egress scheduler registers''
   | Cmd_sync_start ports delay_ms tick_hz \<Rightarrow> sync_start os ports delay_ms tick_hz
   | Cmd_rx_status \<Rightarrow> print_rx_status os rx_base
   | Cmd_rx_regs \<Rightarrow> print_regs os rx_base RX_REG_NAMES
   | Cmd_rx_clear \<Rightarrow> quiet (modify32 os (rx_base + 0x00) (\<lambda>v. v OR 0x2))
   | Cmd_rx_enable \<Rightarrow> quiet (modify32 os (rx_base + 0x00) (\<lambda>v. v OR 0x1))
   | Cmd_rx_disable \<Rightarrow> quiet (modify32 os (rx_base + 0x00) (\<lambda>v. v AND NOT 0x1))
   | Cmd_rx_gap_sample index \<Rightarrow>
       seq_io (write32 os (rx_base + 0x94) index)
      (bind_io (read64 os (rx_base + 0x9c) (rx_base + 0xa0)) (\<lambda>value.
       ret [Field (''rx_gap_sample['' @ show_int index @ '']'') (Dec value)]))
   | Cmd_rx_event index \<Rightarrow> rx_event os rx_base index
   | Cmd_rx_events limit \<Rightarrow> rx_events os rx_base limit
   | Cmd_rx_histogram index \<Rightarrow> rx_histogram os rx_base index
   | Cmd_rx_capture on \<Rightarrow> quiet (modify32 os (rx_base + 0x00) (\<lambda>v. if on then v OR 0x4 else v AND NOT 0x4))
   | Cmd_rx_config ring_base ring_size truncate_bytes \<Rightarrow> rx_config os rx_base ring_base ring_size truncate_bytes
   | Cmd_read_reg offset \<Rightarrow>
       bind_io (read32 os (tx_base + offset)) (\<lambda>value. ret [RawReg (tx_base + offset) value])
   | Cmd_write_reg offset value \<Rightarrow> quiet (write32 os (tx_base + offset) value))"

definition cli_main :: "'w os \<Rightarrow> nat \<Rightarrow> int option \<Rightarrow> cmd \<Rightarrow> ('w, line list) io" where
  "cli_main os port base cmd =
     cli_command os (case base of None \<Rightarrow> tx_port_base port | Some b \<Rightarrow> b)
                    (case base of None \<Rightarrow> rx_port_base port | Some b \<Rightarrow> b) cmd"

section \<open>Ports and tables\<close>

lemma parse_ports_fold:
  "fold_res (\<lambda>item ports. if strip item = [] then Inr ports
        else bind_res (int_auto item) (\<lambda>port. Inr (insort_insert port ports))) items acc = Inr ports \<Longrightarrow>
   sorted acc \<Longrightarrow> distinct acc \<Longrightarrow>
   sorted ports \<and> distinct ports \<and> set ports = set acc \<union> {p. \<exists>item \<in> set items. strip item \<noteq> [] \<and> int_auto item = Inr p}"
proof (induction items arbitrary: acc)
  case (Cons item items)
  show ?case
  proof (cases "strip item = []")
    case True
    with Cons.IH [of acc] Cons.prems show ?thesis by auto
  next
    case False
    with Cons.prems obtain p where p: "int_auto item = Inr p" by (auto simp: res_simps)
    with False Cons.prems Cons.IH [of "insort_insert p acc"] show ?thesis
      by (auto simp: sorted_insort_insert distinct_insort_insert set_insort_insert)
  qed
qed simp

text \<open>C38: The port list.  Whatever parse_ports accepts is a non-empty, strictly ascending list of ports 0 and
  1, and its members are exactly the numbers written between the commas, blank items aside.\<close>

theorem parse_ports_sound:
  assumes "parse_ports value = Inr ports"
  shows "ports \<noteq> [] \<and> sorted ports \<and> distinct ports \<and> set ports \<subseteq> {0, 1}
     \<and> set ports = {p. \<exists>item \<in> set (split_on (CHR '','') value). strip item \<noteq> [] \<and> int_auto item = Inr p}"
proof -
  from assms obtain ps where "fold_res (\<lambda>item ports. if strip item = [] then Inr ports
        else bind_res (int_auto item) (\<lambda>port. Inr (insort_insert port ports))) (split_on (CHR '','') value) [] = Inr ps"
    and ps: "ps \<noteq> []" "\<not> list_ex (\<lambda>port. port \<notin> {0, 1}) ps" "ports = ps"
    unfolding parse_ports_def by (auto simp: res_simps split: if_splits)
  from parse_ports_fold [OF this(1)] ps show ?thesis by (auto simp: list_ex_iff)
qed

theorem parse_ports_sound_witness:
  "parse_ports ''1, 0x0,,1'' = Inr [0, 1] \<and> sorted [0, 1 :: int] \<and> set [0, 1 :: int] \<subseteq> {0, 1}"
proof -
  have p: "parse_ports ''1, 0x0,,1'' = Inr [0, 1]" by code_simp
  with parse_ports_sound [OF p] show ?thesis by simp
qed

definition full_cfg :: axi_cfg where
  "full_cfg = \<lparr> pause = True, cfg_mode = - 1, cfg_desc_base = - 1, cfg_data_base = - 1, cfg_trace_bytes = - 1,
     cfg_pkt_count = - 1, cfg_loop_count = - 1, cfg_loop_gap_ticks = - 1, cfg_start_time = - 1, cfg_rate_q16_16 = - 1,
     cfg_watermark = - 1, cfg_stream_ring_size = - 1, cfg_stream_write_count = - 1, cfg_stream_write_shadow = - 1,
     cfg_stream_eof = True, cfg_stream_pingpong = True, cfg_force_link_up = True, cfg_force_tx_ready = True,
     cfg_auto_tx_drop = True, cfg_sync_enable = True, cfg_egress_schedule = True \<rparr>"

definition full_stats :: axi_stats where
  "full_stats = \<lparr> stat_running = True, stat_done = True, stat_late = True, stat_underrun = True,
     stat_link_up = True, stat_effective_link_up = True, stat_fifo_level = - 1, stat_tx_pkts = - 1, stat_tx_bytes = - 1,
     stat_late_pkts = - 1, stat_underrun_pkts = - 1, stat_drop_pkts = - 1, stat_drop_beats = - 1, stat_stall_events = - 1,
     stat_debug_status = - 1, stat_debug_axi = - 1, stat_debug_araddr = - 1, stat_debug_rdata_low = - 1,
     stat_debug_ticks = - 1, stat_stream_read_count = - 1, stat_stream_level = - 1, stat_stream_status = - 1,
     stat_global_ticks = - 1, stat_sync_armed = True \<rparr>"

lemma table_values: "\<forall>(name, off) \<in> set REG_NAMES. axi_read off full_cfg full_stats \<noteq> 0"
  by code_simp

lemma table_offsets: "snd ` set REG_NAMES = {0x00, 0x04, 0x08, 0x10, 0x14, 0x18, 0x1c, 0x20, 0x24, 0x28, 0x2c, 0x30, 0x34, 0x38, 0x3c,
    0x40, 0x44, 0x48, 0x4c, 0x50, 0x54, 0x60, 0x64, 0x68, 0x6c, 0x70, 0x74, 0x78, 0x7c, 0x80, 0x84, 0x88, 0x8c, 0x90,
    0x94, 0x98, 0xa0, 0xa4, 0xa8, 0xac, 0xb0, 0xb4, 0xb8, 0xbc, 0xc0, 0xc4, 0xc8, 0xcc, 0xd0, 0xd4, 0xd8, 0xdc, 0xe0,
    0xe4, 0xe8, 0xec}"
  by (simp add: REG_NAMES_def)

lemma table_order: "sorted_wrt (<) (map snd REG_NAMES) \<and> sorted_wrt (<) (map snd RX_REG_NAMES)
    \<and> list_all (\<lambda>x. 4 dvd snd x) (REG_NAMES @ RX_REG_NAMES)"
  by code_simp

lemma table_complete: "off \<notin> snd ` set REG_NAMES \<Longrightarrow> axi_read off g s = 0"
  unfolding table_offsets axi_read_def by simp

lemma rx_table_complete: "off \<notin> snd ` set RX_REG_NAMES \<Longrightarrow> rx_read off r = 0"
  by (simp add: RX_REG_NAMES_def rx_read_def)

text \<open>C37: The register tables match the hardware.  The offsets that regs and rx-regs dump are strictly
  ascending word offsets; every transmit offset missing from the table reads as zero whatever the
  state of the block, every one in it can read a value other than zero, and every receive offset
  missing from the table reads as zero.\<close>

theorem register_tables_match:
  "sorted_wrt (<) (map snd REG_NAMES) \<and> sorted_wrt (<) (map snd RX_REG_NAMES)
   \<and> (\<forall>off \<in> snd ` set (REG_NAMES @ RX_REG_NAMES). 4 dvd off)
   \<and> (\<forall>off g s. off \<notin> snd ` set REG_NAMES \<longrightarrow> axi_read off g s = 0)
   \<and> (\<forall>off \<in> snd ` set REG_NAMES. \<exists>g s. axi_read off g s \<noteq> 0)
   \<and> (\<forall>off r. off \<notin> snd ` set RX_REG_NAMES \<longrightarrow> rx_read off r = 0)"
proof (intro conjI allI ballI impI)
  show "sorted_wrt (<) (map snd REG_NAMES)" "sorted_wrt (<) (map snd RX_REG_NAMES)"
    using table_order by simp_all
  show "4 dvd off" if "off \<in> snd ` set (REG_NAMES @ RX_REG_NAMES)" for off
    using that table_order unfolding list_all_iff by blast
  show "\<exists>g s. axi_read off g s \<noteq> 0" if "off \<in> snd ` set REG_NAMES" for off
    using that table_values by fastforce
qed (simp_all add: table_complete rx_table_complete)

theorem register_tables_match_witness:
  "axi_read 0x9c full_cfg full_stats = 0 \<and> (\<exists>g s. axi_read 0xec g s \<noteq> 0)"
proof -
  have "(0x9c :: int) \<notin> snd ` set REG_NAMES" "(0xec :: int) \<in> snd ` set REG_NAMES" by (simp_all add: table_offsets)
  with register_tables_match show ?thesis by blast
qed

section \<open>Commands on the card\<close>

context replay_card begin

lemma read32_value:
  assumes "p < 2" and "off \<in> {0..<0x10000}" and "\<And>s. axi_read off (g p) s = v"
  shows "spec (\<lambda>w. static (view w) = (m, g, ps)) (read32 os (tx_port_base p + off))
     (\<lambda>x w. static (view w) = (m, g, ps) \<and> x = uint v) E"
  by (rule spec_conseq [OF read32_static [OF decode_port]]) (use assms in auto)

lemma modify32_static:
  assumes "p < 2" and "off \<in> {0..<0x10000}" and "\<And>s. axi_read off (g p) s = v"
  shows "spec (\<lambda>w. static (view w) = (m, g, ps)) (modify32 os (tx_port_base p + off) f)
     (\<lambda>x w. static (view w) = reg_step p off (f (uint v)) (m, g, ps) \<and> x = f (uint v)) E"
  unfolding modify32_def
  by (rule spec_bind [OF read32_value [where v = v]], (use assms in auto)[3], rule spec_assume, simp only:,
      rule write32_then, (use assms in auto)[2], rule spec_ret, simp)

lemma modify_checked_static:
  assumes "p < 2" and "off \<in> {0..<0x10000}" and "\<And>s. axi_read off (g p) s = v"
    and "reg_step p off (f (uint v)) (m, g, ps) = (m, g', ps)" and "\<And>s. axi_read off (g' p) s = word_of_int (f (uint v))"
    and "f (uint v) \<in> {0..<2 ^ 32}"
  shows "spec (\<lambda>w. static (view w) = (m, g, ps)) (modify_checked os (tx_port_base p + off) f message)
     (\<lambda>x w. static (view w) = (m, g', ps) \<and> x = []) E"
proof -
  have u: "uint (word_of_int (f (uint v)) :: 32 word) = f (uint v)"
    using assms(6) by (simp add: uint_word_of_int_eq take_bit_int_eq_self_iff)
  show ?thesis
    unfolding modify_checked_def
  proof (rule spec_bind [OF modify32_static [where v = v and f = f and g = g, OF assms(1,2,3)]], rule spec_assume)
    fix x assume x: "x = f (uint v)"
    show "spec (\<lambda>w. static (view w) = reg_step p off (f (uint v)) (m, g, ps))
        (bind_io (read32 os (tx_port_base p + off)) (\<lambda>back. if back \<noteq> x then raise (RuntimeError message) else ret []))
        (\<lambda>x w. static (view w) = (m, g', ps) \<and> x = []) E"
      unfolding assms(4)
      by (rule spec_bind [OF read32_value [where v = "word_of_int (f (uint v))" and g = g', OF assms(1,2,5)]], rule spec_assume) (simp add: u x spec_ret)
  qed
qed

end

text \<open>What each control command is for: the new configuration of the port and the pulses it sends.\<close>

fun tx_control :: "cmd \<Rightarrow> axi_cfg \<Rightarrow> (axi_cfg \<times> pulse list) option" where
  "tx_control Cmd_start g = Some (g\<lparr>pause := False\<rparr>, [Start])"
| "tx_control Cmd_stop g = Some (g\<lparr>pause := False\<rparr>, [Stop])"
| "tx_control Cmd_clear g = Some (g\<lparr>pause := False, cfg_stream_write_count := 0, cfg_stream_write_shadow := 0,
     cfg_stream_eof := False, cfg_stream_pingpong := False\<rparr>, [Clear])"
| "tx_control Cmd_pause g = Some (g\<lparr>pause := True\<rparr>, [])"
| "tx_control Cmd_resume g = Some (g\<lparr>pause := False\<rparr>, [])"
| "tx_control (Cmd_debug_force_link on) g = Some (g\<lparr>cfg_force_link_up := on\<rparr>, [])"
| "tx_control (Cmd_debug_tx_ready on) g = Some (g\<lparr>cfg_force_tx_ready := on\<rparr>, [])"
| "tx_control (Cmd_auto_drop on) g = Some (g\<lparr>cfg_auto_tx_drop := on\<rparr>, [])"
| "tx_control (Cmd_sync_enable on) g = Some (g\<lparr>cfg_sync_enable := on\<rparr>, [])"
| "tx_control (Cmd_egress_schedule on) g =
     Some (if on then g\<lparr>cfg_sync_enable := True, cfg_egress_schedule := True\<rparr> else g\<lparr>cfg_egress_schedule := False\<rparr>, [])"
| "tx_control _ g = None"

lemma debug_value_bits:
  "bit (debug_value g) 0 = cfg_force_link_up g" "bit (debug_value g) (Suc 0) = cfg_force_tx_ready g"
  "bit (debug_value g) 2 = cfg_auto_tx_drop g"
  by (cases "cfg_force_link_up g"; cases "cfg_force_tx_ready g"; cases "cfg_auto_tx_drop g";
      simp add: debug_value_def flags_word_3)+

definition sched_value :: "axi_cfg \<Rightarrow> int" where
  "sched_value g = uint (flags_word [cfg_sync_enable g, cfg_egress_schedule g])"

lemma sched_value_bits: "bit (sched_value g) 0 = cfg_sync_enable g" "bit (sched_value g) (Suc 0) = cfg_egress_schedule g"
  by (cases "cfg_sync_enable g"; cases "cfg_egress_schedule g"; simp add: sched_value_def flags_word_2)+

text \<open>A read-modify-write of one flag leaves the other flags of the register.\<close>

lemma debug_update:
  "g\<lparr>cfg_force_link_up := bit (if on then debug_value g OR 1 else debug_value g AND NOT 1) 0,
     cfg_force_tx_ready := bit (if on then debug_value g OR 1 else debug_value g AND NOT 1) 1,
     cfg_auto_tx_drop := bit (if on then debug_value g OR 1 else debug_value g AND NOT 1) 2\<rparr> = g\<lparr>cfg_force_link_up := on\<rparr>"
  "g\<lparr>cfg_force_link_up := bit (if on then debug_value g OR 2 else debug_value g AND NOT 2) 0,
     cfg_force_tx_ready := bit (if on then debug_value g OR 2 else debug_value g AND NOT 2) 1,
     cfg_auto_tx_drop := bit (if on then debug_value g OR 2 else debug_value g AND NOT 2) 2\<rparr> = g\<lparr>cfg_force_tx_ready := on\<rparr>"
  "g\<lparr>cfg_force_link_up := bit (if on then debug_value g OR 4 else debug_value g AND NOT 4) 0,
     cfg_force_tx_ready := bit (if on then debug_value g OR 4 else debug_value g AND NOT 4) 1,
     cfg_auto_tx_drop := bit (if on then debug_value g OR 4 else debug_value g AND NOT 4) 2\<rparr> = g\<lparr>cfg_auto_tx_drop := on\<rparr>"
  by (cases on; cases g; simp add: bit_or_iff bit_and_iff bit_not_iff debug_value_bits)+

lemma sched_update:
  "g\<lparr>cfg_sync_enable := bit (if on then sched_value g OR 1 else sched_value g AND NOT 1) 0,
     cfg_egress_schedule := bit (if on then sched_value g OR 1 else sched_value g AND NOT 1) 1\<rparr> = g\<lparr>cfg_sync_enable := on\<rparr>"
  "g\<lparr>cfg_sync_enable := bit (if on then sched_value g OR 3 else sched_value g AND NOT 2) 0,
     cfg_egress_schedule := bit (if on then sched_value g OR 3 else sched_value g AND NOT 2) 1\<rparr>
   = (if on then g\<lparr>cfg_sync_enable := True, cfg_egress_schedule := True\<rparr> else g\<lparr>cfg_egress_schedule := False\<rparr>)"
  by (cases on; cases g; simp add: bit_or_iff bit_and_iff bit_not_iff sched_value_bits)+

lemma sched_stored:
  "(if on then sched_value g OR 1 else sched_value g AND NOT 1) = sched_value (g\<lparr>cfg_sync_enable := on\<rparr>)"
  "(if on then sched_value g OR 3 else sched_value g AND NOT 2)
     = sched_value (if on then g\<lparr>cfg_sync_enable := True, cfg_egress_schedule := True\<rparr> else g\<lparr>cfg_egress_schedule := False\<rparr>)"
  by (cases on; cases "cfg_sync_enable g"; cases "cfg_egress_schedule g"; simp add: sched_value_def flags_word_2)+

lemma sched_value_range: "sched_value g \<in> {0..<2 ^ 32}"
  by (cases "cfg_sync_enable g"; cases "cfg_egress_schedule g"; simp add: sched_value_def flags_word_2)

context replay_card begin

lemma tx_control_spec:
  assumes p: "p < 2" and t: "tx_control cmd (g p) = Some (g', ps')"
  shows "spec (\<lambda>w. static (view w) = (m, g, ps)) (cli_command os (tx_port_base p) rx_base cmd)
     (\<lambda>x w. static (view w) = (m, g(p := g'), logged p m (g(p := g')) ps' ps) \<and> x = []) E"
proof -
  have control: "spec (\<lambda>w. static (view w) = (m, g, ps)) (quiet (write32 os (tx_port_base p + 0x00) v))
     (\<lambda>x w. static (view w) = (let g' = g(p := fst (axi_write 0 (word_of_int v) 15 (g p)))
        in (m, g', logged p m g' (snd (axi_write 0 (word_of_int v) 15 (g p))) ps)) \<and> x = []) E" for v
    by (rule write32_then [OF p]) (simp_all add: spec_ret reg_step_eq Let_def)
  have debug: "spec (\<lambda>w. static (view w) = (m, g, ps)) (quiet (modify32 os (tx_port_base p + 0x54) f))
     (\<lambda>x w. static (view w) = (m, g(p := (g p)\<lparr>cfg_force_link_up := bit (f (debug_value (g p))) 0,
        cfg_force_tx_ready := bit (f (debug_value (g p))) 1, cfg_auto_tx_drop := bit (f (debug_value (g p))) 2\<rparr>), ps) \<and> x = []) E" for f
    by (rule spec_bind [OF modify32_static [OF p, where v = "flags_word [cfg_force_link_up (g p), cfg_force_tx_ready (g p), cfg_auto_tx_drop (g p)]"]])
      (auto simp: axi_read_def reg_step_eq axi_simps debug_value_def bit_word_of_int_iff intro!: spec_ret)
  have sched: "spec (\<lambda>w. static (view w) = (m, g, ps)) (modify_checked os (tx_port_base p + 0xe0) f message)
     (\<lambda>x w. static (view w) = (m, g(p := g1), ps) \<and> x = []) E"
    if "(g p)\<lparr>cfg_sync_enable := bit (f (sched_value (g p))) 0, cfg_egress_schedule := bit (f (sched_value (g p))) 1\<rparr> = g1"
      and "f (sched_value (g p)) = sched_value g1" for f message g1
    by (rule modify_checked_static [OF p, where v = "flags_word [cfg_sync_enable (g p), cfg_egress_schedule (g p)]"])
      (use that sched_value_range [of g1] in \<open>simp_all add: axi_read_def reg_step_eq axi_simps bit_word_of_int_iff bit_uint_iff sched_value_def\<close>)
  show ?thesis
  proof (cases cmd)
    case (Cmd_debug_force_link on)
    with t debug [of "\<lambda>v. if on then v OR 0x1 else v AND NOT 0x1", unfolded debug_update(1)] show ?thesis
      by (simp add: cli_command_def del: if_split)
  next
    case (Cmd_debug_tx_ready on)
    with t debug [of "\<lambda>v. if on then v OR 0x2 else v AND NOT 0x2", unfolded debug_update(2)] show ?thesis
      by (simp add: cli_command_def del: if_split)
  next
    case (Cmd_auto_drop on)
    with t debug [of "\<lambda>v. if on then v OR 0x4 else v AND NOT 0x4", unfolded debug_update(3)] show ?thesis
      by (simp add: cli_command_def del: if_split)
  next
    case (Cmd_sync_enable on)
    from sched [where f = "\<lambda>v. if on then v OR 0x1 else v AND NOT 0x1", OF sched_update(1) [of on "g p"] sched_stored(1)] Cmd_sync_enable t show ?thesis
      by (simp add: cli_command_def del: if_split)
  next
    case (Cmd_egress_schedule on)
    from sched [where f = "\<lambda>v. if on then v OR 0x3 else v AND NOT 0x2", OF sched_update(2) [of on "g p"] sched_stored(2)] Cmd_egress_schedule t show ?thesis
      by (simp add: cli_command_def del: if_split)
  qed (use t control [of 1] control [of 2] control [of 4] control [of 8] control [of 0] in
      \<open>auto simp: cli_command_def axi_simps Let_def bit_word_of_int_iff\<close>)
qed

end

text \<open>C13: The control commands.  For any card behaviour, each of start, stop, clear, pause, resume, debug-force-link,
  debug-tx-ready, auto-drop, sync-enable and egress-schedule returns without output; it makes exactly
  the change of the port's configuration and sends exactly the pulses that \<open>tx_control\<close> lists, and
  leaves memory, the other port and every other field alone.\<close>

theorem tx_control_commands:
  assumes "port < 2" and "tx_control cmd (c_cfg (bd_card b) port) = Some (g', ps')"
  shows "\<exists>w. cli_main (board_os hw) port None cmd b = Some (Inr [], w)
     \<and> c_cfg (bd_card w) = (c_cfg (bd_card b))(port := g')
     \<and> c_pulses (bd_card w) = c_pulses (bd_card b) @ map (Pair port) ps'
     \<and> c_mem (bd_card w) = c_mem (bd_card b)"
  using spec_returns [OF board.tx_control_spec [where g = "c_cfg (bd_card b)", OF assms], of b, unfolded static_def, OF refl]
  by (auto simp: cli_main_def logged_def)

theorem tx_control_commands_witness:
  "\<exists>w. cli_main (board_os demo_hw) 1 None (Cmd_egress_schedule True) demo_board = Some (Inr [], w)
     \<and> cfg_egress_schedule (c_cfg (bd_card w) 1) \<and> \<not> cfg_egress_schedule (c_cfg (bd_card w) 0)"
proof -
  have "tx_control (Cmd_egress_schedule True) (c_cfg (bd_card demo_board) 1)
      = Some (axi_reset\<lparr>cfg_sync_enable := True, cfg_egress_schedule := True\<rparr>, [])"
    by (simp add: demo_board_def)
  from tx_control_commands [OF _ this, where hw = demo_hw] show ?thesis
    by (auto simp: demo_board_def axi_reset_def)
qed

section \<open>Displays\<close>

text \<open>What status shows of the configuration.\<close>

definition config_lines :: "axi_cfg \<Rightarrow> line list" where
  "config_lines g = [Field ''mode'' (Word (mode_name (uint (cfg_mode g)))),
     Field ''force_link_up'' (Word (bool_word (cfg_force_link_up g))),
     Field ''force_tx_ready'' (Word (bool_word (cfg_force_tx_ready g))),
     Field ''auto_tx_drop'' (Word (bool_word (cfg_auto_tx_drop g))),
     Field ''sync_enable'' (Word (bool_word (cfg_sync_enable g))),
     Field ''egress_schedule'' (Word (bool_word (cfg_egress_schedule g))),
     Field ''stream_ring_size'' (Dec (uint (cfg_stream_ring_size g))),
     Field ''stream_write_ptr'' (Dec (uint (cfg_stream_write_count g))),
     Field ''stream_eof'' (Word (bool_word (cfg_stream_eof g))),
     Field ''stream_pingpong'' (Word (bool_word (cfg_stream_pingpong g)))]"

lemma flag_bits:
  "uint (flags_word [a, b, c]) AND 1 \<noteq> 0 \<longleftrightarrow> a" "uint (flags_word [a, b, c]) AND 2 \<noteq> 0 \<longleftrightarrow> b" "uint (flags_word [a, b, c]) AND 4 \<noteq> 0 \<longleftrightarrow> c"
  "uint (flags_word [a, b]) AND 1 \<noteq> 0 \<longleftrightarrow> a" "uint (flags_word [a, b]) AND 2 \<noteq> 0 \<longleftrightarrow> b"
  by (cases a; cases b; cases c; simp add: flags_word_3 flags_word_2)+

lemma mode_bits: "uint (ucast (m :: 2 word) :: 32 word) AND 3 = uint m"
proof -
  have "uint (ucast m :: 32 word) = uint m" by (simp add: uint_up_ucast is_up)
  moreover have "uint m < 2 ^ 2" using uint_bounded [of m] by simp
  ultimately show ?thesis using take_bit_int_eq_self_iff [of 2 "uint m"] by (simp add: take_bit_eq_mask mask_numeral)
qed

lemma join_halves: "uint (lo32 v) OR push_bit 32 (uint (hi32 v)) = uint v"
  by (rule bit_eqI) (auto simp: bit_or_iff bit_push_bit_iff bit_uint_iff bit_lo32 bit_hi32 dest: bit_imp_le_length)

context replay_card begin

lemma read32_known_then:
  assumes "p < 2" and "off \<in> {0..<0x10000}" and "\<And>s. axi_read off (g p) s = v"
    and "spec (\<lambda>w. static (view w) = (m, g, ps)) (k (uint v)) Q E"
  shows "spec (\<lambda>w. static (view w) = (m, g, ps)) (bind_io (read32 os (tx_port_base p + off)) k) Q E"
  by (rule spec_bind [OF read32_value [where v = v]], (use assms in auto)[3], rule spec_assume) (use assms(4) in simp)

lemma read32_any_then:
  assumes "p < 2" and "off \<in> {0..<0x10000}"
    and "\<And>x. spec (\<lambda>w. static (view w) = (m, g, ps)) (k x) Q E"
  shows "spec (\<lambda>w. static (view w) = (m, g, ps)) (bind_io (read32 os (tx_port_base p + off)) k) Q E"
  by (rule spec_bind [OF read32_static [OF decode_port]], (use assms in auto)[3], rule spec_assume) (rule assms(3))

lemma read64_known_then:
  assumes p: "p < 2" and r: "lo \<in> {0..<0x10000}" "hi \<in> {0..<0x10000}"
    and v: "\<And>s. axi_read lo (g p) s = lo32 v" "\<And>s. axi_read hi (g p) s = hi32 v"
    and k: "spec (\<lambda>w. static (view w) = (m, g, ps)) (k (uint v)) Q E"
  shows "spec (\<lambda>w. static (view w) = (m, g, ps)) (bind_io (read64 os (tx_port_base p + lo) (tx_port_base p + hi)) k) Q E"
  unfolding read64_def bind_io_assoc
  by (rule read32_known_then [where v = "lo32 v"], (use p r v in auto)[3],
      rule read32_known_then [where v = "hi32 v"], (use p r v in auto)[3]) (simp add: join_halves k)

text \<open>The stable read of a counter, and a lower bound of its result.\<close>

lemma read64_stable_static:
  assumes c: "counter64 os (tx_port_base p + lo) (tx_port_base p + hi) cnt" and p: "p < 2"
    and r: "lo \<in> {0..<0x10000}" "hi \<in> {0..<0x10000}"
  shows "spec (\<lambda>w. static (view w) = (m, g, ps) \<and> n \<le> cnt w) (read64_stable os (tx_port_base p + lo) (tx_port_base p + hi))
     (\<lambda>x w. static (view w) = (m, g, ps) \<and> n \<le> x) E"
proof (unfold spec_def, intro allI impI)
  fix v assume v: "static (view v) = (m, g, ps) \<and> n \<le> cnt v"
  obtain x w where x: "read64_stable os (tx_port_base p + lo) (tx_port_base p + hi) v = Some (Inr x, w)" "cnt v \<le> x"
    using read64_stable_run [OF c] by blast
  have "pspec (\<lambda>w. static (view w) = (m, g, ps)) (read64_stable os (tx_port_base p + lo) (tx_port_base p + hi))
      (\<lambda>x w. static (view w) = (m, g, ps)) (\<lambda>_ _. False)"
    unfolding read64_stable_def
  proof (rule pspec_loop, rule spec_pspec)
    show "spec (\<lambda>w. static (view w) = (m, g, ps)) (bind_io (read32 os (tx_port_base p + hi)) (\<lambda>hi_before.
       bind_io (read32 os (tx_port_base p + lo)) (\<lambda>low. bind_io (read32 os (tx_port_base p + hi)) (\<lambda>hi_after.
         if hi_before = hi_after then ret (Break (low OR push_bit 32 hi_after)) else ret (Continue ())))))
       (\<lambda>c w. case c of Continue s' \<Rightarrow> static (view w) = (m, g, ps) | Break a \<Rightarrow> static (view w) = (m, g, ps)) (\<lambda>_ _. False)" for s :: unit
      by (rule read32_any_then [OF p r(2)], rule read32_any_then [OF p r(1)], rule read32_any_then [OF p r(2)])
        (simp add: spec_ret)
  qed
  then show "case read64_stable os (tx_port_base p + lo) (tx_port_base p + hi) v of None \<Rightarrow> False | Some (Inl e, w') \<Rightarrow> E e w'
      | Some (Inr x, w') \<Rightarrow> static (view w') = (m, g, ps) \<and> n \<le> x"
    using x v by (simp add: pspec_def) (drule spec [of _ v], simp)
qed

end

context replay_card begin

lemma print_status_spec:
  assumes c: "counter64 os (tx_port_base p + 0xe4) (tx_port_base p + 0xe8) cnt" and p: "p < 2"
  shows "spec (\<lambda>w. static (view w) = (m, g, ps)) (print_status os (tx_port_base p))
     (\<lambda>ls w. static (view w) = (m, g, ps) \<and> set (config_lines (g p)) \<subseteq> set ls) E"
  unfolding print_status_def Let_def
  apply (rule read32_any_then [OF p], simp)
  apply (rule read32_known_then [where v = "ucast (cfg_mode (g p))", OF p], simp, simp add: axi_read_def)
  apply (rule read32_known_then [where v = "flags_word [cfg_force_link_up (g p), cfg_force_tx_ready (g p), cfg_auto_tx_drop (g p)]", OF p],
      simp, simp add: axi_read_def)
  apply (rule read32_known_then [where v = "flags_word [cfg_sync_enable (g p), cfg_egress_schedule (g p)]", OF p], simp, simp add: axi_read_def)
  apply (rule read32_any_then [OF p], simp)
  apply (rule spec_bind [OF spec_conseq [OF read64_stable_static [OF c p, where n = 0 and m = m and g = g and ps = ps]]])
       apply simp
      apply simp
     apply (use counter64_nonneg [OF c] in simp)
    apply assumption
   apply assumption
  apply (rule spec_assume)
  apply (rule read32_any_then [OF p], simp)
  apply (rule read64_then [OF p], simp, simp)+
  apply (rule read32_any_then [OF p], simp)
  apply (rule read32_any_then [OF p], simp)
  apply (rule read64_then [OF p], simp, simp)
  apply (rule read32_any_then [OF p], simp)
  apply (rule read64_then [OF p], simp, simp)
  apply (rule read64_known_then [where v = "cfg_stream_write_count (g p)", OF p], simp, simp, simp add: axi_read_def, simp add: axi_read_def)
  apply (rule read64_then [OF p], simp, simp)
  apply (rule read64_known_then [where v = "cfg_stream_ring_size (g p)", OF p], simp, simp, simp add: axi_read_def, simp add: axi_read_def)
  apply (rule read64_then [OF p], simp, simp)
  apply (rule read32_any_then [OF p], simp)
  apply (rule read32_known_then [where v = "flags_word [cfg_stream_eof (g p), cfg_stream_pingpong (g p)]", OF p], simp, simp add: axi_read_def)
  apply (rule spec_ret)
  apply (simp add: config_lines_def mode_bits flag_bits)
  done

lemma print_regs_spec:
  assumes p: "p < 2" and t: "snd ` set table \<subseteq> {0..<0x10000}"
  shows "spec (\<lambda>w. static (view w) = (m, g, ps)) (print_regs os (tx_port_base p) table)
     (\<lambda>ls w. static (view w) = (m, g, ps) \<and> list_all2 (\<lambda>(name, off) l.
        \<exists>s. l = RegLine (tx_port_base p + off) name (uint (axi_read off (g p) s))) table ls) E"
proof -
  let ?line = "\<lambda>(name, off) l. \<exists>s. l = RegLine (tx_port_base p + off) name (uint (axi_read off (g p) s))"
  have "spec (\<lambda>w. static (view w) = (m, g, ps)) (for_io table (\<lambda>(name, offset) lines.
     bind_io (read32 os (tx_port_base p + offset)) (\<lambda>value. ret (lines @ [RegLine (tx_port_base p + offset) name value]))) acc)
     (\<lambda>ls w. static (view w) = (m, g, ps) \<and> (\<exists>new. ls = acc @ new \<and> list_all2 ?line table new)) E" for acc
    using t
  proof (induction table arbitrary: acc)
    case Nil
    then show ?case by (simp add: spec_ret)
  next
    case (Cons e table)
    obtain name off where e: "e = (name, off)" by (cases e)
    show ?case
      unfolding for_io.simps e split_conv bind_io_assoc bind_ret
    proof (rule spec_bind [OF read32_static [OF decode_port]], (use p Cons.prems e in auto)[3], rule spec_assume)
      fix x assume "\<exists>s. x = uint (axi_read off (g p) s)"
      then show "spec (\<lambda>w. static (view w) = (m, g, ps)) (for_io table (\<lambda>(name, offset) lines.
          bind_io (read32 os (tx_port_base p + offset)) (\<lambda>value. ret (lines @ [RegLine (tx_port_base p + offset) name value])))
          (acc @ [RegLine (tx_port_base p + off) name x]))
        (\<lambda>ls w. static (view w) = (m, g, ps) \<and> (\<exists>new. ls = acc @ new \<and> list_all2 ?line ((name, off) # table) new)) E"
        by (intro spec_conseq [OF Cons.IH]) (use Cons.prems in fastforce)+
    qed
  qed
  from this [of "[]"] show ?thesis by (simp add: print_regs_def)
qed

end

text \<open>C36: The displays of a transmit port.  For any card whose global tick is a counter that never decreases, status
  and regs return; they leave the card's memory, configuration and pulses as they are; status shows
  the mode and every flag and stream setting of the configuration, and regs lists every register of
  the table in order, each with a value the register block returns for that configuration.\<close>

theorem displays_show_the_port:
  assumes "port < 2"
    and "counter64 (board_os hw) (tx_port_base port + 0xe4) (tx_port_base port + 0xe8) tick"
  shows "(\<exists>ls w. cli_main (board_os hw) port None Cmd_status b = Some (Inr ls, w)
        \<and> static (bd_card w) = static (bd_card b)
        \<and> set (config_lines (c_cfg (bd_card b) port)) \<subseteq> set ls)
     \<and> (\<exists>ls w. cli_main (board_os hw) port None Cmd_regs b = Some (Inr ls, w)
        \<and> static (bd_card w) = static (bd_card b)
        \<and> list_all2 (\<lambda>(name, off) l. \<exists>s. l = RegLine (tx_port_base port + off) name
             (uint (axi_read off (c_cfg (bd_card b) port) s))) REG_NAMES ls)"
proof -
  have t: "snd ` set REG_NAMES \<subseteq> {0..<0x10000}" unfolding table_offsets by simp
  show ?thesis
    using spec_returns [OF board.print_status_spec [OF assms(2,1)], of b, unfolded static_def, OF refl]
      spec_returns [OF board.print_regs_spec [OF assms(1) t], of b, unfolded static_def, OF refl]
    by (simp add: cli_main_def cli_command_def static_def)
qed

lemma demo_tick: "port < 2 \<Longrightarrow> counter64 (board_os demo_hw) (tx_port_base port + 0xe4) (tx_port_base port + 0xe8) (\<lambda>_. 0)"
  by (auto simp: counter64_def samples_def board_os_def board_pread_def decode_port Let_def axi_read_def demo_hw_def idle_stats_def)

theorem displays_show_the_port_witness:
  "\<exists>ls w. cli_main (board_os demo_hw) 1 None Cmd_status demo_board = Some (Inr ls, w)
     \<and> Field ''auto_tx_drop'' (Word ''yes'') \<in> set ls \<and> Field ''stream_ring_size'' (Dec 0) \<in> set ls"
  using displays_show_the_port [OF _ demo_tick, of 1 demo_board]
  by (auto simp: config_lines_def demo_board_def axi_reset_def bool_word_def)

section \<open>The synchronised start\<close>

definition synced_cfg :: "int \<Rightarrow> axi_cfg \<Rightarrow> axi_cfg" where
  "synced_cfg target g = g\<lparr>cfg_start_time := word_of_int target, cfg_sync_enable := True\<rparr>"

lemma synced_same:
  "g\<lparr>cfg_start_time := t, cfg_sync_enable := s, cfg_egress_schedule := cfg_egress_schedule g\<rparr>
   = g\<lparr>cfg_start_time := t, cfg_sync_enable := s\<rparr>"
  by (cases g) simp

lemma fold_upd:
  assumes "distinct ports" and "set ports \<subseteq> {0, 1 :: int}"
  shows "fold (\<lambda>port g. g(nat port := f (g (nat port)))) ports g = (\<lambda>p. if int p \<in> set ports then f (g p) else g p)"
  using assms
proof (induction ports arbitrary: g)
  case (Cons port ports)
  then have n: "int (nat port) = port" by auto
  show ?case
    using Cons n by (auto simp: fun_eq_iff)
qed simp

context replay_card begin

lemma sync_configure_one:
  assumes p: "p < 2" and k: "spec (\<lambda>w. static (view w) = (m, g(p := synced_cfg target (g p)), ps)) (k ()) Q E"
  shows "spec (\<lambda>w. static (view w) = (m, g, ps))
     (seq_io (write32 os (tx_port_base p + 0x40) target)
     (seq_io (write32 os (tx_port_base p + 0x44) (drop_bit 32 target))
     (bind_io (read32 os (tx_port_base p + 0xe0)) (\<lambda>ctrl.
      seq_io (write32 os (tx_port_base p + 0xe0) (ctrl OR 0x1))
     (bind_io (read32 os (tx_port_base p + 0xe0)) (\<lambda>back. bind_io
      (if back \<noteq> ctrl OR 0x1 then raise e else ret ()) k)))))) Q E"
proof -
  define g1 where "g1 = g(p := (g p)\<lparr>cfg_start_time := word_of_int target\<rparr>)"
  have w: "reg_step p 0x44 (drop_bit 32 target) (reg_step p 0x40 target (m, g, ps)) = (m, g1, ps)"
    by (simp add: reg_step_eq axi_simps g1_def)
  let ?v = "flags_word [cfg_sync_enable (g1 p), cfg_egress_schedule (g1 p)]"
  have x: "uint ?v OR 1 = sched_value ((g1 p)\<lparr>cfg_sync_enable := True\<rparr>)"
    using sched_stored(1) [of True "g1 p"] by (simp add: sched_value_def)
  have s: "reg_step p 0xe0 (uint ?v OR 1) (m, g1, ps) = (m, g(p := synced_cfg target (g p)), ps)"
    unfolding x
    by (simp add: reg_step_eq axi_simps g1_def synced_cfg_def sched_value_bits bit_word_of_int_iff synced_same del: fun_upd_apply)
      (simp add: synced_same)
  show ?thesis
    apply (rule write32_then [OF p], simp)
    apply (rule write32_then [OF p], simp)
    apply (unfold w)
    apply (rule read32_known_then [where v = ?v, OF p], simp, simp add: axi_read_def)
    apply (rule write32_then [OF p], simp)
    apply (unfold s)
    apply (rule read32_known_then [where v = "flags_word [True, cfg_egress_schedule (g p)]", OF p], simp, simp add: axi_read_def synced_cfg_def)
    apply (use k x in \<open>simp add: g1_def sched_value_def\<close>)
    done
qed

lemma sync_configure_spec:
  assumes "set ports \<subseteq> {0, 1}"
  shows "spec (\<lambda>w. static (view w) = (m, g, ps)) (sync_configure os target ports)
     (\<lambda>_ w. static (view w) = (m, fold (\<lambda>port g. g(nat port := synced_cfg target (g (nat port)))) ports g, ps)) E"
  using assms unfolding sync_configure_def Let_def
proof (induction ports arbitrary: g)
  case Nil
  then show ?case by (simp add: spec_ret)
next
  case (Cons port ports)
  then have p: "nat port < 2" by auto
  show ?case
    unfolding for_io.simps bind_io_assoc
    by (rule sync_configure_one [OF p], rule spec_conseq [OF Cons.IH]) (use Cons.prems in auto)
qed

end

text \<open>
  The starts \<open>ss\<close> of the armed ports: one per port in order, with the memory \<open>m\<close> and a configuration
  that is \<open>g\<close> up to the pause flags.
\<close>

definition armed_starts :: "int list \<Rightarrow> (int \<Rightarrow> byte) \<Rightarrow> (nat \<Rightarrow> axi_cfg) \<Rightarrow> (nat \<times> (int \<Rightarrow> byte) \<times> (nat \<Rightarrow> axi_cfg)) list \<Rightarrow> bool" where
  "armed_starts ports m g ss \<longleftrightarrow> map fst ss = map nat ports
     \<and> (\<forall>(q, m', g') \<in> set ss. m' = m \<and> (\<forall>p. (g' p)\<lparr>pause := False\<rparr> = (g p)\<lparr>pause := False\<rparr>))"

lemma armed_starts_Cons:
  assumes "armed_starts ports m (g(q := (g q)\<lparr>pause := False\<rparr>)) ss"
  shows "armed_starts (port # ports) m g ((nat port, m, g(q := (g q)\<lparr>pause := False\<rparr>)) # ss)"
  using assms by (fastforce simp: armed_starts_def)

context replay_card begin

lemma sync_arm_spec:
  assumes "set ports \<subseteq> {0, 1}"
    and "\<And>p. int p \<in> set ports \<Longrightarrow> counter64 os (tx_port_base p + 0xe4) (tx_port_base p + 0xe8) cnt"
  shows "spec (\<lambda>w. static (view w) = (m, g, ps, ss)) (sync_arm os ports)
     (\<lambda>ticks w. \<exists>ss'. static (view w) = (m, fold (\<lambda>port g. g(nat port := (g (nat port))\<lparr>pause := False\<rparr>)) ports g,
         ps @ map (\<lambda>port. (nat port, Start)) ports, ss @ ss') \<and> armed_starts ports m g ss' \<and> length ticks = length ports) E"
proof -
  have "spec (\<lambda>w. static (view w) = (m, g, ps, ss)) (for_io ports (\<lambda>port arm_ticks.
     seq_io (write32 os (tx_port_base (nat port) + 0x00) 0x1)
    (bind_io (read64_stable os (tx_port_base (nat port) + 0xe4) (tx_port_base (nat port) + 0xe8)) (\<lambda>tick. ret (arm_ticks @ [tick])))) acc)
     (\<lambda>ticks w. \<exists>ss'. static (view w) = (m, fold (\<lambda>port g. g(nat port := (g (nat port))\<lparr>pause := False\<rparr>)) ports g,
         ps @ map (\<lambda>port. (nat port, Start)) ports, ss @ ss') \<and> armed_starts ports m g ss' \<and> length ticks = length acc + length ports) E" for acc
    using assms
  proof (induction ports arbitrary: g ps ss acc)
    case Nil
    then show ?case by (auto intro!: spec_ret exI [of _ "[]"] simp: armed_starts_def)
  next
    case (Cons port ports)
    then have p: "nat port < 2" "int (nat port) = port" by auto
    have c: "counter64 os (tx_port_base (nat port) + 0xe4) (tx_port_base (nat port) + 0xe8) cnt"
      by (rule Cons.prems(2)) (simp only: p, simp)
    let ?g = "g(nat port := (g (nat port))\<lparr>pause := False\<rparr>)"
    have w: "reg_step (nat port) 0x00 1 (m, g, ps, ss) = (m, ?g, ps @ [(nat port, Start)], ss @ [(nat port, m, ?g)])"
      by (simp add: reg_step_eq axi_simps Let_def bit_word_of_int_iff)
    show ?case
      unfolding for_io.simps bind_io_assoc bind_ret
      apply (rule write32_then [OF p(1)], simp)
      apply (unfold w)
      apply (rule spec_bind [OF spec_conseq [OF read64_stable_static [OF c p(1), where n = 0]]])
           apply simp
          apply simp
         apply (use counter64_nonneg [OF c] in simp)
        apply assumption
       apply assumption
      apply (rule spec_assume)
      apply (rule spec_conseq [OF Cons.IH])
          apply (use Cons.prems(1) in simp)
         apply (rule Cons.prems(2), simp)
        apply assumption
       apply (elim exE conjE, rule_tac x = "(nat port, m, ?g) # ss'" in exI)
       apply (simp add: armed_starts_Cons del: fun_upd_apply)
      apply assumption
      done
  qed
  from this [of "[]"] show ?thesis by (simp add: sync_arm_def Let_def)
qed

lemma sync_start_spec:
  assumes d: "0 < delay_ms" "delay_to_ticks delay_ms tick_hz = Inr ticks"
    and ports: "ports \<noteq> []" "distinct ports" "set ports \<subseteq> {0, 1}"
    and c: "\<And>p. int p \<in> set ports \<Longrightarrow> counter64 os (tx_port_base p + 0xe4) (tx_port_base p + 0xe8) cnt"
  shows "spec (\<lambda>w. static (view w) = (m, g, ps, ss) \<and> n \<le> cnt w) (sync_start os ports delay_ms tick_hz)
     (\<lambda>ls w. \<exists>target arm_ticks ss'. ls = [Armed ports target ticks arm_ticks] \<and> n + ticks \<le> target
        \<and> length arm_ticks = length ports
        \<and> static (view w) = (m, \<lambda>p. if int p \<in> set ports then (synced_cfg target (g p))\<lparr>pause := False\<rparr> else g p,
             ps @ map (\<lambda>port. (nat port, Start)) ports, ss @ ss')
        \<and> armed_starts ports m (\<lambda>p. if int p \<in> set ports then synced_cfg target (g p) else g p) ss') E"
proof -
  have h: "hd ports \<in> set ports" using ports(1) by simp
  then have p: "nat (hd ports) < 2" "int (nat (hd ports)) = hd ports" using ports(3) by auto
  have ch: "counter64 os (tx_port_base (nat (hd ports)) + 0xe4) (tx_port_base (nat (hd ports)) + 0xe8) cnt"
    by (rule c) (use h p in simp)
  have g: "fold (\<lambda>port g. g(nat port := (g (nat port))\<lparr>pause := False\<rparr>)) ports
        (fold (\<lambda>port g. g(nat port := synced_cfg target (g (nat port)))) ports g)
      = (\<lambda>p. if int p \<in> set ports then (synced_cfg target (g p))\<lparr>pause := False\<rparr> else g p)" for target
    unfolding fold_upd [OF ports(2,3)] by auto
  have configured: "fold (\<lambda>port g. g(nat port := synced_cfg target (g (nat port)))) ports g
      = (\<lambda>p. if int p \<in> set ports then synced_cfg target (g p) else g p)" for target
    by (rule fold_upd [OF ports(2,3)])
  have nd: "\<not> delay_ms \<le> 0" using d(1) by simp
  show ?thesis
    unfolding sync_start_def Let_def d(2) bind_lift_Inr if_not_P [OF nd]
  proof (rule spec_bind [OF read64_stable_static [OF ch p(1)]], simp, simp, rule spec_assume)
    fix now assume now: "n \<le> now"
    show "spec (\<lambda>w. static (view w) = (m, g, ps, ss))
        (seq_io (sync_configure os (now + ticks) ports)
          (bind_io (sync_arm os ports) (\<lambda>arm_ticks. ret [Armed ports (now + ticks) ticks arm_ticks])))
        (\<lambda>ls w. \<exists>target arm_ticks ss'. ls = [Armed ports target ticks arm_ticks] \<and> n + ticks \<le> target
          \<and> length arm_ticks = length ports
          \<and> static (view w) = (m, \<lambda>p. if int p \<in> set ports then (synced_cfg target (g p))\<lparr>pause := False\<rparr> else g p,
             ps @ map (\<lambda>port. (nat port, Start)) ports, ss @ ss')
          \<and> armed_starts ports m (\<lambda>p. if int p \<in> set ports then synced_cfg target (g p) else g p) ss') E"
      by (rule spec_bind [OF sync_configure_spec [OF ports(3)]], rule spec_bind [OF sync_arm_spec [OF ports(3) c]], assumption)
        (rule spec_ret, use now g configured in auto)
  qed
qed

end

lemma delay_to_ticks_pos: "delay_to_ticks d hz = Inr t \<Longrightarrow> 0 < t"
  by (auto simp: delay_to_ticks_def Let_def res_simps split: if_splits)

lemma same_but_pause:
  assumes "c\<lparr>pause := False\<rparr> = d\<lparr>pause := False\<rparr>" and "cfg_start_time d = t" and "cfg_sync_enable d"
  shows "cfg_start_time c = t \<and> cfg_sync_enable c"
  using assms by (cases c; cases d) simp

text \<open>C10: The synchronised start.  If the global tick is a counter that never decreases, shown alike by the
  chosen ports, and the delay is a positive number of milliseconds that converts, then sync-start
  returns; every chosen port is armed for one and the same target, later than the tick at the start
  by at least one tick, and the other port is untouched.  The start pulses, one per chosen port in the
  order of the list, follow everything sent before, and at every one of them all the chosen ports
  already had the target as start time and the synchronised start enabled, with memory as it was.\<close>

theorem sync_start_arms_together:
  assumes "0 < delay_ms" and "delay_to_ticks delay_ms tick_hz = Inr ticks"
    and "parse_ports value = Inr ports"
    and "\<And>p. int p \<in> set ports \<Longrightarrow> counter64 (board_os hw) (tx_port_base p + 0xe4) (tx_port_base p + 0xe8) tick"
  shows "\<exists>target arm_ticks w. cli_main (board_os hw) port base (Cmd_sync_start ports delay_ms tick_hz) b
        = Some (Inr [Armed ports target ticks arm_ticks], w)
     \<and> tick b < target \<and> tick b + ticks \<le> target \<and> length arm_ticks = length ports
     \<and> c_cfg (bd_card w) = (\<lambda>p. if int p \<in> set ports
         then (c_cfg (bd_card b) p)\<lparr>cfg_start_time := word_of_int target, cfg_sync_enable := True, pause := False\<rparr>
         else c_cfg (bd_card b) p)
     \<and> c_pulses (bd_card w) = c_pulses (bd_card b) @ map (\<lambda>port. (nat port, Start)) ports
     \<and> c_mem (bd_card w) = c_mem (bd_card b)
     \<and> (\<exists>starts. c_starts (bd_card w) = c_starts (bd_card b) @ starts \<and> map fst starts = map nat ports
         \<and> (\<forall>(q, m, g) \<in> set starts. m = c_mem (bd_card b)
              \<and> (\<forall>p. int p \<in> set ports \<longrightarrow> cfg_start_time (g p) = word_of_int target \<and> cfg_sync_enable (g p))))"
proof -
  obtain ps where "fold_res (\<lambda>item ports. if strip item = [] then Inr ports
        else bind_res (int_auto item) (\<lambda>port. Inr (insort_insert port ports))) (split_on (CHR '','') value) [] = Inr ps"
    and ps: "ps \<noteq> []" "\<not> list_ex (\<lambda>port. port \<notin> {0, 1}) ps" "ports = ps"
    using assms(3) unfolding parse_ports_def by (auto simp: res_simps split: if_splits)
  from parse_ports_fold [OF this(1)] ps have "ports \<noteq> []" "distinct ports" "set ports \<subseteq> {0, 1}" by (auto simp: list_ex_iff)
  from spec_returns [OF board.sync_start_spec [where n = "tick b", OF assms(1,2) this assms(4)], of b]
  obtain target arm_ticks w starts where run: "sync_start (board_os hw) ports delay_ms tick_hz b = Some (Inr [Armed ports target ticks arm_ticks], w)"
      "tick b + ticks \<le> target" "length arm_ticks = length ports"
      "c_cfg (bd_card w) = (\<lambda>p. if int p \<in> set ports then (synced_cfg target (c_cfg (bd_card b) p))\<lparr>pause := False\<rparr> else c_cfg (bd_card b) p)"
      "c_pulses (bd_card w) = c_pulses (bd_card b) @ map (\<lambda>port. (nat port, Start)) ports" "c_mem (bd_card w) = c_mem (bd_card b)"
      "c_starts (bd_card w) = c_starts (bd_card b) @ starts"
    and armed: "armed_starts ports (c_mem (bd_card b)) (\<lambda>p. if int p \<in> set ports then synced_cfg target (c_cfg (bd_card b) p) else c_cfg (bd_card b) p) starts"
    by (fastforce simp: static_def)
  have "cfg_start_time (g p) = word_of_int target \<and> cfg_sync_enable (g p)" if "(q, m, g) \<in> set starts" "int p \<in> set ports" for q m g p
  proof -
    have "(g p)\<lparr>pause := False\<rparr> = (synced_cfg target (c_cfg (bd_card b) p))\<lparr>pause := False\<rparr>"
      using armed that by (fastforce simp: armed_starts_def)
    then show ?thesis by (rule same_but_pause) (simp_all add: synced_cfg_def)
  qed
  moreover have "\<forall>(q, m, g) \<in> set starts. m = c_mem (bd_card b)" "map fst starts = map nat ports"
    using armed by (auto simp: armed_starts_def)
  moreover have "tick b < target" using \<open>tick b + ticks \<le> target\<close> delay_to_ticks_pos [OF assms(2)] by simp
  ultimately show ?thesis using run
    by (intro exI [of _ target] exI [of _ arm_ticks] exI [of _ w]) (fastforce simp: cli_main_def cli_command_def synced_cfg_def fun_eq_iff)
qed

theorem sync_start_arms_together_witness:
  "\<exists>target arm_ticks w. cli_main (board_os demo_hw) 0 None (Cmd_sync_start [0, 1] 100 300000000) demo_board
      = Some (Inr [Armed [0, 1] target 30000000 arm_ticks], w)
     \<and> 0 < target \<and> cfg_start_time (c_cfg (bd_card w) 0) = word_of_int target
     \<and> cfg_start_time (c_cfg (bd_card w) 1) = word_of_int target \<and> c_pulses (bd_card w) = [(0, Start), (1, Start)]
     \<and> map fst (c_starts (bd_card w)) = [0, 1]"
proof -
  have p: "parse_ports ''0,1'' = Inr [0, 1]" by code_simp
  have d: "delay_to_ticks 100 300000000 = Inr 30000000"
    using fl_of_int [of 300000000] fl_of_int [of 30000000000] fl_of_int [of 30000000] round_half_even_of_int [of 30000000]
    by (simp add: delay_to_ticks_def py_truediv_def)
  have "counter64 (board_os demo_hw) (tx_port_base p + 0xe4) (tx_port_base p + 0xe8) (\<lambda>_. 0)"
    if "int p \<in> set [0, 1]" for p
    using that by (intro demo_tick) auto
  from sync_start_arms_together [OF _ d p this, where base = None and port = 0 and b = demo_board]
  show ?thesis by (auto simp: demo_board_def)
qed

end
