(* ===== verification/RxCli.thy ===== *)
theory RxCli
  imports RegCli
begin

text \<open>
  The receive commands of traffic_replay_cli.py on the measurement core at rest: what they change, and
  that what they print is what the core measured.
\<close>

section \<open>Accesses\<close>

lemma bind_run: "m w = Some (Inr x, w') \<Longrightarrow> bind_io m f w = f x w'"
  by (simp add: bind_io_def)

lemma rx_read64: "read64 (rx_os base) (base + lo) (base + hi) r = Some (Inr (rx_read lo r OR push_bit 32 (rx_read hi r)), r)"
  by (simp add: read64_def bind_io_def ret_def rx_read32)

lemma rx_bind [io_simps]:
  "bind_io (read32 (rx_os base) (base + off)) f r = f (rx_read off r) r"
  "bind_io (read32 (rx_os base) base) f r = f (rx_read 0 r) r"
  "bind_io (read64 (rx_os base) (base + lo) (base + hi)) f r = f (rx_read lo r OR push_bit 32 (rx_read hi r)) r"
  "bind_io (write32 (rx_os base) (base + off) v) g r = g () (rx_write off (take_bit 32 v) r)"
  using rx_read32 [of base 0 r] by (simp_all add: bind_io_def rx_read32 rx_write32 rx_read64)

lemma join_words: "0 \<le> n \<Longrightarrow> n < 2 ^ 64 \<Longrightarrow> word_lo n OR push_bit 32 (word_hi n) = n"
proof -
  assume n: "0 \<le> n" "n < 2 ^ 64"
  define q r where "q = n div 2 ^ 32" and "r = n mod 2 ^ 32"
  have "q * 2 ^ 32 + r = n" "0 \<le> r" "r < 2 ^ 32" by (simp_all add: q_def r_def)
  then have "0 \<le> q" "q < 2 ^ 32" using n by simp_all
  then have "word_hi n = n div 2 ^ 32" by (simp add: word_hi_def q_def)
  then show ?thesis using split_64 [of n] by (simp only: word_lo_def)
qed

lemma gap_range: "0 \<le> gap_least gs \<and> gap_least gs < 2 ^ 64" "0 \<le> gap_greatest gs \<and> gap_greatest gs < 2 ^ 64"
  "0 \<le> gap_last gs \<and> gap_last gs < 2 ^ 64"
proof -
  have "0 \<le> m \<and> m < 2 ^ 64 \<Longrightarrow> 0 \<le> fold min (map uint (xs :: 64 word list)) m \<and> fold min (map uint xs) m < 2 ^ 64" for xs m
    by (induction xs arbitrary: m) (auto simp: min_def uint_64_range)
  then show "0 \<le> gap_least gs \<and> gap_least gs < 2 ^ 64" by (auto simp: gap_least_def uint_64_range split: list.splits)
  have "0 \<le> m \<and> m < 2 ^ 64 \<Longrightarrow> 0 \<le> fold max (map uint (xs :: 64 word list)) m \<and> fold max (map uint xs) m < 2 ^ 64" for xs m
    by (induction xs arbitrary: m) (auto simp: max_def uint_64_range)
  then show "0 \<le> gap_greatest gs \<and> gap_greatest gs < 2 ^ 64" by (auto simp: gap_greatest_def uint_64_range split: list.splits)
  show "0 \<le> gap_last gs \<and> gap_last gs < 2 ^ 64" by (simp add: gap_last_def uint_64_range)
qed

lemma hist_bound: "0 \<le> hist_count r i \<and> hist_count r i \<le> int (length (rc_measured r))"
  by (simp add: hist_count_def)

text \<open>The wide registers, as the numbers they hold.\<close>

lemma rx_wide:
  "rx_read 0x10 r OR push_bit 32 (rx_read 0x14 r) = uint (rc_ring_base r)"
  "length (rc_measured r) < 2 ^ 64 \<Longrightarrow> rx_read 0x64 r OR push_bit 32 (rx_read 0x68 r) = int (length (rc_measured r))"
  "rx_read 0x6c r OR push_bit 32 (rx_read 0x70 r) = uint (sum_list (rc_measured r))"
  "rx_read 0x74 r OR push_bit 32 (rx_read 0x78 r) = gap_least (rc_measured r)"
  "rx_read 0x7c r OR push_bit 32 (rx_read 0x80 r) = gap_greatest (rc_measured r)"
  "rx_read 0x84 r OR push_bit 32 (rx_read 0x88 r) = gap_last (rc_measured r)"
  "length (rc_events r) < 2 ^ 64 \<Longrightarrow> rx_read 0xac r OR push_bit 32 (rx_read 0xb0 r) = int (length (rc_events r))"
  "length (rc_measured r) < 2 ^ 64 \<Longrightarrow> rx_read 0xd0 r OR push_bit 32 (rx_read 0xd4 r) = hist_count r (unat (rc_hist_sel r))"
  using gap_range [of "rc_measured r"] hist_bound [of r "unat (rc_hist_sel r)"]
  by (simp_all add: rx_read_def join_words uint_64_range)

section \<open>Control\<close>

text \<open>A core whose receive side is held while it is disabled; reset and every write keep this.\<close>

definition rx_held :: "rx_core \<Rightarrow> bool" where
  "rx_held r \<longleftrightarrow> (rc_enable r \<or> rc_measured r = [] \<and> \<not> rc_overflow r \<and> (\<forall>off \<in> {0x30..0x44} \<union> {0x8c..0x90} \<union> {0xc0..0xc4}. rc_words r off = 0))"

lemma rx_held_hold: "rx_held r \<Longrightarrow> rx_hold_core r = r"
  by (cases r) (auto simp: rx_held_def rx_hold_core_def fun_eq_iff)

lemma rx_hold_held: "rx_held (rx_hold_core r)"
  by (simp add: rx_held_def rx_hold_core_def)

lemma rx_held_write: "rx_held r \<Longrightarrow> rx_held (rx_write off v r)"
proof (cases "off = 0")
  case True
  then show ?thesis by (simp add: rx_write_def Let_def rx_hold_held)
next
  case False
  assume "rx_held r"
  with False show ?thesis by (simp add: rx_write_def rx_held_def)
qed

text \<open>
  What each command is for, field by field.  A clear says of every field what becomes of it, whatever
  the writer and the FIFO were doing; enabling is described for a core that is already enabled or has
  nothing left to process.
\<close>

definition rx_idle :: "rx_core \<Rightarrow> bool" where
  "rx_idle r \<longleftrightarrow> rc_writer r = 0 \<and> \<not> rc_fifo_valid r \<and> \<not> rc_wvalid r \<and> \<not> rc_awvalid r"

definition opt_set :: "('a \<Rightarrow> 'b \<Rightarrow> 'b) \<Rightarrow> 'a option \<Rightarrow> 'b \<Rightarrow> 'b" where
  "opt_set f x b = (case x of None \<Rightarrow> b | Some a \<Rightarrow> f a b)"

fun rx_control :: "cmd \<Rightarrow> rx_core \<Rightarrow> rx_core option" where
  "rx_control Cmd_rx_clear r = Some \<lparr> rc_enable = rc_enable r, rc_capture = rc_capture r,
     rc_ring_base = rc_ring_base r, rc_ring_size = rc_ring_size r, rc_trunc_bytes = rc_trunc_bytes r, rc_write_ptr = 0,
     rc_events = [], rc_event_old = event_memory r, rc_event_sel = 0,
     rc_gaps = [], rc_gap_old = gap_memory r, rc_gap_sel = rc_gap_sel r, rc_measured = [], rc_hist_sel = 0,
     rc_writer = 0, rc_overflow = False, rc_link_up = rc_link_up r, rc_fifo_valid = False, rc_fifo_ready = True,
     rc_bvalid = False, rc_wvalid = False, rc_awvalid = False, rc_in_packet = False, rc_remaining = 0,
     rc_words = \<lambda>off. if 0x30 \<le> off \<and> off \<le> 0x5c \<or> 0x8c \<le> off \<and> off \<le> 0x90 \<or> 0xc0 \<le> off \<and> off \<le> 0xc4
       then 0 else rc_words r off \<rparr>"
| "rx_control Cmd_rx_enable r = (if rc_enable r \<or> rx_idle r then Some (r\<lparr>rc_enable := True\<rparr>) else None)"
| "rx_control Cmd_rx_disable r = Some (r\<lparr>rc_enable := False, rc_measured := [], rc_overflow := False,
     rc_words := \<lambda>off. if 0x30 \<le> off \<and> off \<le> 0x44 \<or> 0x8c \<le> off \<and> off \<le> 0x90 \<or> 0xc0 \<le> off \<and> off \<le> 0xc4
       then 0 else rc_words r off\<rparr>)"
| "rx_control (Cmd_rx_capture on) r = Some (r\<lparr>rc_capture := on\<rparr>)"
| "rx_control (Cmd_rx_config ring_base ring_size truncate_bytes) r = Some
     (opt_set (\<lambda>v r. r\<lparr>rc_trunc_bytes := word_of_int v\<rparr>) truncate_bytes
     (opt_set (\<lambda>v r. r\<lparr>rc_ring_size := word_of_int v\<rparr>) ring_size
     (opt_set (\<lambda>v r. r\<lparr>rc_ring_base := word_of_int v\<rparr>) ring_base r)))"
| "rx_control _ r = None"

lemma rx_clear_fields: "rx_control Cmd_rx_clear r = Some (rx_clear_core r)"
  by (cases r) (simp add: rx_clear_core_def fun_eq_iff)

lemma rx_disable_fields: "rx_control Cmd_rx_disable r = Some (rx_hold_core (r\<lparr>rc_enable := False\<rparr>))"
  by (simp add: rx_hold_core_def fun_eq_iff)

text \<open>What the registers read after a clear.\<close>

definition after_clear :: "int \<Rightarrow> rx_core \<Rightarrow> int" where
  "after_clear off r =
    (if off \<in> {0x00, 0x10, 0x14, 0x18, 0x1c, 0x94, 0x9c, 0xa0, 0xc8, 0xd8} then rx_read off r
     else if off = 0x04 then (if rc_link_up r then 0x28 else 0x08)
     else if off \<in> {0xb4, 0xb8} then rx_read off (r\<lparr>rc_event_sel := 0\<rparr>)
     else 0)"

lemma rx_read_cleared: "rx_read off (rx_clear_core r) = after_clear off r"
proof -
  have u: "unat (rc_gap_sel r) < 4096" using unsigned_less [of "rc_gap_sel r", where 'a = nat] by simp
  show ?thesis
    unfolding rx_read_def after_clear_def
    by (simp add: rx_clear_core_def rx_status_word_def rx_debug_word_def gap_memory_def event_memory_def slot_empty u
        GAP_SAMPLE_DEPTH_def EVENT_RING_SAMPLES_def word_lo_def word_hi_def gap_least_def gap_greatest_def gap_last_def hist_count_def)
qed

lemma rx_modify32: "quiet (modify32 (rx_os base) (base + off) f) r = Some (Inr [], rx_write off (take_bit 32 (f (rx_read off r))) r)"
  by (simp add: modify32_def bind_io_def ret_def rx_read32 rx_write32)

lemma control_bits:
  "bit (of_bool a + 4 * of_bool b :: int) 0 = a" "bit (of_bool a + 4 * of_bool b :: int) (Suc 0) = False"
  "bit (of_bool a + 4 * of_bool b :: int) 2 = b"
  by (cases a; cases b; simp)+

lemma rx_modify_control:
  "quiet (modify32 (rx_os base) (base + 0x00) f) r = Some (Inr [], rx_hold_core
     (let x = f (of_bool (rc_enable r) + 4 * of_bool (rc_capture r)); q = r\<lparr>rc_enable := bit x 0, rc_capture := bit x 2\<rparr>
      in if bit x 1 then rx_clear_core q else q))"
  by (simp add: rx_modify32 [of base 0, simplified] rx_write_def Let_def bit_take_bit_iff) (simp add: rx_read_def)

lemma rx_same:
  "r\<lparr>rc_enable := rc_enable r, rc_capture := b\<rparr> = r\<lparr>rc_capture := b\<rparr>"
  "r\<lparr>rc_enable := b, rc_capture := rc_capture r\<rparr> = r\<lparr>rc_enable := b\<rparr>"
  "r\<lparr>rc_capture := rc_capture r\<rparr> = r" "r\<lparr>rc_enable := rc_enable r\<rparr> = r"
  by (cases r; simp)+

lemma rx_held_kept:
  assumes "rx_held r"
  shows "rx_hold_core (r\<lparr>rc_capture := b\<rparr>) = r\<lparr>rc_capture := b\<rparr>" "rx_hold_core (r\<lparr>rc_enable := True\<rparr>) = r\<lparr>rc_enable := True\<rparr>"
    "rx_hold_core (rx_clear_core r) = rx_clear_core r"
  using assms by (auto intro!: rx_held_hold simp: rx_held_def rx_clear_core_def)

lemma rx_control_run:
  assumes held: "rx_held r" and c: "rx_control cmd r = Some r'"
  shows "cli_command (rx_os base) tx_base base cmd r = Some (Inr [], r')"
proof -
  have e: "r' = the (rx_control cmd r)" using c by simp
  show ?thesis
  proof (cases cmd)
    case (Cmd_rx_config ring_base ring_size truncate_bytes)
    have w: "rx_write 0x14 (take_bit 32 (drop_bit 32 v)) (rx_write 0x10 (take_bit 32 v) q) = q\<lparr>rc_ring_base := word_of_int v\<rparr>" for v q
      by (simp add: rx_write_def wi_bintr)
    have size_writes: "rx_write 0x18 (take_bit 32 v) q = q\<lparr>rc_ring_size := word_of_int v\<rparr>"
      "rx_write 0x1c (take_bit 32 v) q = q\<lparr>rc_trunc_bytes := word_of_int v\<rparr>" for v q
      by (simp_all add: rx_write_def wi_bintr)
    have config: "rx_config (rx_os base) base ring_base ring_size truncate_bytes q = Some (Inr [],
       (opt_set (\<lambda>v r. r\<lparr>rc_trunc_bytes := word_of_int v\<rparr>) truncate_bytes
       (opt_set (\<lambda>v r. r\<lparr>rc_ring_size := word_of_int v\<rparr>) ring_size
       (opt_set (\<lambda>v r. r\<lparr>rc_ring_base := word_of_int v\<rparr>) ring_base q))))" for q
      by (cases ring_base; cases ring_size; cases truncate_bytes)
        (simp_all add: rx_config_def bind_io_def rx_write32 w ret_def opt_set_def size_writes)
    from Cmd_rx_config c config show ?thesis by (simp add: cli_command_def)
  qed (use c in \<open>auto simp: e cli_command_def rx_modify_control [simplified] control_bits bit_or_iff bit_and_iff bit_not_iff
    rx_same rx_held_kept [OF held] rx_clear_fields rx_disable_fields Let_def simp del: rx_control.simps(1,3) split: if_splits\<close>)
qed


definition demo_core :: rx_core where
  "demo_core = \<lparr> rc_enable = True, rc_capture = False, rc_ring_base = 0, rc_ring_size = 0, rc_trunc_bytes = 256, rc_write_ptr = 0,
     rc_events = map word_of_nat [100..<116], rc_event_old = (\<lambda>_. 0), rc_event_sel = 0,
     rc_gaps = [], rc_gap_old = (\<lambda>_. 0), rc_gap_sel = 0,
     rc_measured = map word_of_nat [100..<116], rc_hist_sel = 0,
     rc_writer = 0, rc_overflow = True, rc_link_up = True, rc_fifo_valid = False, rc_fifo_ready = True,
     rc_bvalid = False, rc_wvalid = False, rc_awvalid = False, rc_in_packet = True, rc_remaining = 192,
     rc_words = (\<lambda>_. 0) \<rparr>"


section \<open>Statistics\<close>

lemma gap_extremes:
  assumes "gs \<noteq> []"
  shows "gap_least gs = Min (uint ` set gs)" "gap_greatest gs = Max (uint ` set gs)"
  using assms by (cases gs; simp add: gap_least_def gap_greatest_def Min.set_eq_fold [symmetric] Max.set_eq_fold [symmetric])+

text \<open>The statistics lines of a list of gaps.\<close>

definition gap_lines :: "int list \<Rightarrow> line list" where
  "gap_lines gs = [Field ''rx_gap_count'' (Dec (int (length gs))), Field ''rx_gap_min'' (Dec (Min (set gs))),
     Field ''rx_gap_max'' (Dec (Max (set gs))), Field ''rx_gap_last'' (Dec (last gs)),
     Field ''rx_gap_avg'' (Fixed6 (fl (of_int (sum_list gs) / of_int (int (length gs)))))]"

lemma uint_sum_list:
  assumes "sum_list (map uint ws) < 2 ^ 64"
  shows "uint (sum_list ws :: 64 word) = sum_list (map uint ws)"
proof -
  have "sum_list ws = word_of_int (sum_list (map uint ws))"
    by (induction ws) (simp_all add: wi_hom_add [symmetric])
  moreover have "0 \<le> sum_list (map uint ws)" by (rule sum_list_nonneg) auto
  ultimately show ?thesis using assms by (simp add: uint_word_of_int_eq take_bit_int_eq_self_iff)
qed

lemma print_rx_status_run:
  assumes "rc_measured r \<noteq> []" and "length (rc_measured r) < 2 ^ 64" and "length (rc_events r) < 2 ^ 64"
    and "sum_list (map uint (rc_measured r)) < 2 ^ 64"
  shows "\<exists>ls. print_rx_status (rx_os base) base r = Some (Inr ls, r) \<and> set (gap_lines (map uint (rc_measured r))) \<subseteq> set ls
     \<and> {Field ''rx_enable'' (Word (bool_word (rc_enable r))), Field ''capture_enable'' (Word (bool_word (rc_capture r))),
        Field ''ring_base'' (Hex 16 (uint (rc_ring_base r))), Field ''ring_size'' (Dec (uint (rc_ring_size r))),
        Field ''truncate_bytes'' (Dec (uint (rc_trunc_bytes r))), Field ''write_ptr'' (Dec (uint (rc_write_ptr r))),
        Field ''rx_event_count'' (Dec (int (length (rc_events r)))), Field ''rx_event_capacity'' (Dec 524288)} \<subseteq> set ls"
proof -
  let ?s = "sum_list (map uint (rc_measured r))" and ?n = "int (length (rc_measured r))"
  have n: "0 < ?n" using assms(1) by simp
  have s: "0 \<le> ?s" by (rule sum_list_nonneg) auto
  have "(of_int ?s / of_int ?n :: rat) \<le> of_int ?s / 1"
    by (rule divide_left_mono) (use n s in \<open>simp_all add: Suc_le_eq\<close>)
  also have "\<dots> \<le> of_int (2 ^ 64)" using assms(4) by (simp only: div_by_1 of_int_le_iff)
  also have "\<dots> \<le> 2 ^ 1023" using power_increasing [of 64 1023 "2 :: rat"] by simp
  finally have "\<bar>of_int ?s / of_int ?n :: rat\<bar> \<le> 2 ^ 1023" using s n by simp
  then have "py_truediv ?s ?n = Inr (fl (of_int ?s / of_int ?n))" using n by (intro py_truediv_Inr) simp_all
  then have avg: "gap_average ?s ?n = Inr (fl (of_int ?s / of_int ?n))" using n by (simp add: gap_average_def)
  have control: "(of_bool a + 4 * of_bool b :: int) AND 1 \<noteq> 0 \<longleftrightarrow> a" "(of_bool a + 4 * of_bool b :: int) AND 4 \<noteq> 0 \<longleftrightarrow> b" for a b
    by (cases a; cases b; simp)+
  show ?thesis
    unfolding print_rx_status_def
    by (simp add: rx_bind rx_wide [simplified] assms [simplified] uint_sum_list avg ret_def)
       (simp add: rx_read_def control EVENT_RING_SAMPLES_def gap_lines_def gap_extremes assms last_map gap_last_def)
qed

text \<open>C22: The receive statistics.  On a core at rest that has measured at least one gap (and so few that no 64-bit
  counter wrapped), rx-status returns and changes nothing; it shows the configuration of the core, the
  number of events, and of the measured gaps the exact count, least, greatest and last, and as the
  average the quotient of their sum and count rounded once to a float.\<close>

theorem rx_status_statistics:
  assumes "rc_measured r \<noteq> []" and "length (rc_measured r) < 2 ^ 64" and "length (rc_events r) < 2 ^ 64"
    and "sum_list (map uint (rc_measured r)) < 2 ^ 64"
  shows "\<exists>ls. cli_main (rx_os (rx_port_base port)) port None Cmd_rx_status r = Some (Inr ls, r)
     \<and> set (gap_lines (map uint (rc_measured r))) \<subseteq> set ls
     \<and> {Field ''rx_enable'' (Word (bool_word (rc_enable r))), Field ''capture_enable'' (Word (bool_word (rc_capture r))),
        Field ''ring_base'' (Hex 16 (uint (rc_ring_base r))), Field ''ring_size'' (Dec (uint (rc_ring_size r))),
        Field ''truncate_bytes'' (Dec (uint (rc_trunc_bytes r))), Field ''write_ptr'' (Dec (uint (rc_write_ptr r))),
        Field ''rx_event_count'' (Dec (int (length (rc_events r)))), Field ''rx_event_capacity'' (Dec 524288)} \<subseteq> set ls"
  unfolding cli_main_def cli_command_def cmd.case option.case by (rule print_rx_status_run [OF assms])

theorem rx_status_statistics_witness:
  "\<exists>ls. cli_main (rx_os (rx_port_base 0)) 0 None Cmd_rx_status demo_core = Some (Inr ls, demo_core)
     \<and> Field ''rx_gap_count'' (Dec 16) \<in> set ls \<and> Field ''rx_event_count'' (Dec 16) \<in> set ls"
proof -
  have "sum_list (map uint (rc_measured demo_core)) < 2 ^ 64" by (simp add: demo_core_def upt_rec)
  from rx_status_statistics [OF _ _ _ this, of 0]
  have "\<exists>ls. cli_main (rx_os (rx_port_base 0)) 0 None Cmd_rx_status demo_core = Some (Inr ls, demo_core)
     \<and> set (gap_lines (map uint (rc_measured demo_core))) \<subseteq> set ls \<and> Field ''rx_event_count'' (Dec (int (length (rc_events demo_core)))) \<in> set ls"
    by (simp add: demo_core_def) blast
  moreover have "Field ''rx_gap_count'' (Dec 16) \<in> set (gap_lines (map uint (rc_measured demo_core)))"
    by (simp add: gap_lines_def demo_core_def)
  ultimately show ?thesis by (auto simp: demo_core_def)
qed

section \<open>Events\<close>

lemma physical_slot:
  assumes "i < min n c" and "o' = (if c \<le> n then n mod c else 0)"
  shows "(o' + i) mod c = (n - min n c + i) mod (c :: nat)"
proof (cases "c \<le> n")
  case True
  have "(n mod c + i) mod c = (n + i) mod c" by (simp add: mod_add_left_eq)
  also have "n + i = (n - c + i) + c" using True by simp
  also have "\<dots> mod c = (n - c + i) mod c" by simp
  finally show ?thesis using assms True by simp
next
  case False
  then show ?thesis using assms by simp
qed

lemma read_event_spec:
  assumes i: "i < min (length xs) 524288" and o': "oldest = int (if 524288 \<le> length xs then length xs mod 524288 else 0)"
  shows "spec (\<lambda>w. rc_event_old w = old \<and> rc_events w = xs) (read_event (rx_os base) base 524288 oldest (int i))
     (\<lambda>v w. (rc_event_old w = old \<and> rc_events w = xs) \<and> v = uint (xs ! (length xs - min (length xs) 524288 + i))) E"
proof -
  let ?n = "length xs" and ?c = "524288 :: nat"
  let ?j = "?n - min ?n ?c + i"
  have j: "?j < ?n" "?n \<le> ?j + ?c" using i by auto
  have p: "(oldest + int i) mod 524288 = int (?j mod ?c)"
  proof -
    have "(oldest + int i) mod 524288 = int (((if ?c \<le> ?n then ?n mod ?c else 0) + i) mod ?c)"
      unfolding o' by (simp add: zmod_int)
    also have "\<dots> = int (?j mod ?c)" using physical_slot [OF i refl] by simp
    finally show ?thesis .
  qed
  have "spec (\<lambda>w. rc_event_old w = old \<and> rc_events w = xs) (events.read_slot base (?j mod ?c))
      (\<lambda>v w. (rc_event_old w = old \<and> rc_events w = xs) \<and> v = uint (slot old xs EVENT_RING_SAMPLES (?j mod ?c))) E"
    by (rule events.read_slot_run) (simp add: EVENT_RING_SAMPLES_def)
  moreover have "slot old xs EVENT_RING_SAMPLES (?j mod ?c) = xs ! ?j"
    using slot_recent [OF j] by (simp add: EVENT_RING_SAMPLES_def)
  moreover have "events.read_slot base (?j mod ?c) = read_event (rx_os base) base 524288 oldest (int i)"
    by (simp add: events.read_slot_def read_event_def p)
  ultimately show ?thesis by simp
qed

lemma events_loop:
  assumes "oldest = int (if 524288 \<le> length xs then length xs mod 524288 else 0)" and "\<forall>i \<in> set is. i < min (length xs) 524288"
  shows "spec (\<lambda>w. rc_event_old w = old \<and> rc_events w = xs) (for_io (map int is) (\<lambda>index lines.
       bind_io (read_event (rx_os base) base 524288 oldest index) (\<lambda>value. ret (lines @ [EventLine index value]))) acc)
     (\<lambda>ls w. (rc_event_old w = old \<and> rc_events w = xs)
        \<and> ls = acc @ map (\<lambda>i. EventLine (int i) (uint (xs ! (length xs - min (length xs) 524288 + i)))) is) E"
  using assms(2)
proof (induction "is" arbitrary: acc)
  case Nil
  then show ?case by (simp add: spec_ret)
next
  case (Cons i "is")
  show ?case
    unfolding list.map for_io.simps bind_io_assoc bind_ret
    by (rule spec_bind [OF read_event_spec [OF _ assms(1)]], use Cons.prems in simp, rule spec_assume,
        rule spec_conseq [OF Cons.IH]) (use Cons.prems in auto)
qed

text \<open>What the window registers say of a core whose events arrived in whole words.\<close>

lemma event_window_run:
  assumes "length (rc_events r) < 2 ^ 64"
  shows "bind_io (event_window (rx_os base) base) f r =
     f (524288, int (length (rc_events r)), int (min (length (rc_events r)) 524288)) r"
  using assms by (simp add: event_window_def bind_io_assoc rx_bind rx_wide(7) [simplified] of_nat_min)
    (simp add: rx_read_def EVENT_RING_SAMPLES_def)

lemma event_oldest_run:
  assumes "8 dvd length (rc_events r)"
  shows "bind_io (event_oldest (rx_os base) base 524288 (int (length (rc_events r)))) f r =
     f (int (if 524288 \<le> length (rc_events r) then length (rc_events r) mod 524288 else 0)) r"
proof -
  obtain k where k: "length (rc_events r) = 8 * k" using assms by (rule dvdE)
  have "8 * (int (8 * k div 8) mod 65536) = int (8 * k mod 524288)"
    using mult_mod_right [of "8 :: int" "int k" 65536] by (simp add: zmod_int)
  then show ?thesis by (simp add: event_oldest_def rx_bind k) (simp add: rx_read_def k)
qed

lemma map_int_upt: "map int [a..<b] = [int a..int b - 1]"
  by (induction b) (auto simp: upto_rec2 [of _ "int _"])

text \<open>C21: The event commands.  Let the core have received \<open>n\<close> events, in whole words of eight, and let \<open>a = min n
  524288\<close> of them still be in the ring.  rx-events prints the last \<open>min limit a\<close> of them, oldest first,
  each with its position among the available ones; rx-event prints the requested one and refuses every
  index outside the available range.\<close>

theorem rx_events_latest:
  assumes "8 dvd length (rc_events r)" and "length (rc_events r) < 2 ^ 64"
    and n: "n = length (rc_events r)" and a: "a = min n 524288"
  shows "(0 < limit \<longrightarrow> (\<exists>w. cli_main (rx_os (rx_port_base port)) port None (Cmd_rx_events limit) r =
            Some (Inr (map (\<lambda>i. EventLine (int i) (uint (rc_events r ! (n - a + i)))) [a - nat (min limit (int a))..<a]), w)
          \<and> rc_events w = rc_events r))
     \<and> (\<forall>i < a. \<exists>w. cli_main (rx_os (rx_port_base port)) port None (Cmd_rx_event (int i)) r =
            Some (Inr [Field (''rx_event['' @ show_int (int i) @ '']'') (Dec (uint (rc_events r ! (n - a + i))))], w)
          \<and> rc_events w = rc_events r)
     \<and> (\<forall>i. i < 0 \<or> int a \<le> i \<longrightarrow> cli_main (rx_os (rx_port_base port)) port None (Cmd_rx_event i) r =
            Some (Inl (IndexError (''RX event index '' @ show_int i @ '' outside available range 0..'' @ show_int (int a - 1))), r))"
proof (intro conjI impI allI)
  let ?xs = "rc_events r"
  let ?old = "int (if 524288 \<le> length ?xs then length ?xs mod 524288 else 0)"
  show "\<exists>w. cli_main (rx_os (rx_port_base port)) port None (Cmd_rx_events limit) r =
      Some (Inr (map (\<lambda>i. EventLine (int i) (uint (rc_events r ! (n - a + i)))) [a - nat (min limit (int a))..<a]), w)
      \<and> rc_events w = rc_events r" if "0 < limit"
  proof -
    let ?is = "[a - nat (min limit (int a))..<a]"
    have range: "[max 0 (int a - limit)..int a - 1] = map int ?is"
    proof -
      have "max 0 (int a - limit) = int (a - nat (min limit (int a)))" using that by simp
      then show ?thesis by (simp add: map_int_upt)
    qed
    have run: "rx_events (rx_os base) base limit r = for_io (map int ?is) (\<lambda>index lines.
        bind_io (read_event (rx_os base) base 524288 ?old index) (\<lambda>value. ret (lines @ [EventLine index value]))) [] r" for base
      using that unfolding range [symmetric] unfolding n a
      by (simp add: rx_events_def event_window_run [OF assms(2)] event_oldest_run [OF assms(1)])
    have "\<forall>i \<in> set ?is. i < min (length ?xs) 524288" using a n by simp
    from spec_returns [OF events_loop [OF refl this, of "rc_event_old r" "rx_port_base port" "[]"], of r] n a
    obtain w where "for_io (map int ?is) (\<lambda>index lines.
        bind_io (read_event (rx_os (rx_port_base port)) (rx_port_base port) 524288 ?old index)
          (\<lambda>value. ret (lines @ [EventLine index value]))) [] r
        = Some (Inr (map (\<lambda>i. EventLine (int i) (uint (?xs ! (length ?xs - min (length ?xs) 524288 + i)))) ?is), w)" "rc_events w = ?xs"
      by auto
    moreover have "map (\<lambda>i. EventLine (int i) (uint (?xs ! (length ?xs - min (length ?xs) 524288 + i)))) ?is
        = map (\<lambda>i. EventLine (int i) (uint (rc_events r ! (n - a + i)))) ?is"
      using n a by (intro map_cong) auto
    ultimately show ?thesis by (auto simp: cli_main_def cli_command_def run)
  qed
  show "\<exists>w. cli_main (rx_os (rx_port_base port)) port None (Cmd_rx_event (int i)) r =
      Some (Inr [Field (''rx_event['' @ show_int (int i) @ '']'') (Dec (uint (rc_events r ! (n - a + i))))], w)
      \<and> rc_events w = rc_events r" if "i < a" for i
  proof -
    have "i < min (length ?xs) 524288" using that a n by simp
    from spec_returns [OF read_event_spec [OF this refl, of "rc_event_old r" "rx_port_base port"], of r]
    obtain w where w: "read_event (rx_os (rx_port_base port)) (rx_port_base port) 524288 ?old (int i) r
        = Some (Inr (uint (?xs ! (length ?xs - min (length ?xs) 524288 + i))), w)" "rc_events w = ?xs" by auto
    have "cli_main (rx_os (rx_port_base port)) port None (Cmd_rx_event (int i)) r =
        bind_io (read_event (rx_os (rx_port_base port)) (rx_port_base port) 524288 ?old (int i))
          (\<lambda>v. ret [Field (''rx_event['' @ show_int (int i) @ '']'') (Dec v)]) r"
      using that unfolding n a
      by (simp add: cli_main_def cli_command_def rx_event_def event_window_run [OF assms(2)] event_oldest_run [OF assms(1)])
    then show ?thesis unfolding bind_io_def w(1) n a using w(2) by (simp add: ret_def)
  qed
  show "cli_main (rx_os (rx_port_base port)) port None (Cmd_rx_event i) r =
      Some (Inl (IndexError (''RX event index '' @ show_int i @ '' outside available range 0..'' @ show_int (int a - 1))), r)"
    if "i < 0 \<or> int a \<le> i" for i
    using that unfolding n a
    by (simp add: cli_main_def cli_command_def rx_event_def event_window_run [OF assms(2)] raise_def)
qed

theorem rx_events_latest_witness:
  "\<exists>w. cli_main (rx_os (rx_port_base 0)) 0 None (Cmd_rx_events 2) demo_core = Some (Inr [EventLine 14 114, EventLine 15 115], w)"
proof -
  have len: "length (rc_events demo_core) = 16" by (simp add: demo_core_def)
  have l: "8 dvd length (rc_events demo_core)" "length (rc_events demo_core) < 2 ^ 64" "16 = length (rc_events demo_core)"
    unfolding len by simp_all
  have m: "map (\<lambda>i. EventLine (int i) (uint (rc_events demo_core ! (16 - 16 + i)))) [16 - nat (min 2 (int 16))..<16]
      = [EventLine 14 114, EventLine 15 115]"
    by code_simp
  have "(16 :: nat) = min 16 524288" by simp
  from rx_events_latest [OF l this, of 2 0, THEN conjunct1] show ?thesis
    unfolding m by (metis zero_less_numeral)
qed

section \<open>Histogram\<close>

lemma gap_hist_bin_bounds:
  "let b = gap_hist_bin gap in b < 16 \<and> (if b = 0 then gap < 2 else 2 ^ b \<le> gap \<and> (b < 15 \<longrightarrow> gap < 2 ^ (b + 1)))"
proof -
  have "let b = fold (\<lambda>i result. if 2 ^ i \<le> gap then i else result) [1..<Suc n] 0
      in b \<le> n \<and> (if b = 0 then n = 0 \<or> gap < 2 else 2 ^ b \<le> gap \<and> (b < n \<longrightarrow> gap < 2 ^ (b + 1)))" for n
  proof (induction n)
    case 0
    show ?case by simp
  next
    case (Suc n)
    show ?case
    proof (cases "2 ^ Suc n \<le> gap")
      case True
      then show ?thesis by (simp add: Let_def)
    next
      case False
      define b where "b = fold (\<lambda>i result. if 2 ^ i \<le> gap then i else result) [1..<Suc n] 0"
      have IH: "b \<le> n" "if b = 0 then n = 0 \<or> gap < 2 else 2 ^ b \<le> gap \<and> (b < n \<longrightarrow> gap < 2 ^ (b + 1))"
        using Suc.IH unfolding b_def [symmetric] Let_def by blast+
      have step: "fold (\<lambda>i result. if 2 ^ i \<le> gap then i else result) [1..<Suc (Suc n)] 0 = b"
        using False by (simp add: b_def)
      have "b = n \<Longrightarrow> gap < 2 ^ (b + 1)" using False by simp
      with IH show ?thesis unfolding step Let_def by (cases "b = n") (auto split: if_splits)
    qed
  qed
  note main = this [of 15]
  have "Suc 15 = 16" by simp
  then have "let b = gap_hist_bin gap in b \<le> 15 \<and> (if b = 0 then 15 = (0 :: nat) \<or> gap < 2 else 2 ^ b \<le> gap \<and> (b < 15 \<longrightarrow> gap < 2 ^ (b + 1)))"
    using main unfolding gap_hist_bin_def by (simp only:)
  then show ?thesis by (cases "gap_hist_bin gap = 0") (simp_all add: Let_def)
qed

lemma gap_hist_bin_iff:
  assumes "0 \<le> gap" and "i < 16"
  shows "gap_hist_bin gap = i \<longleftrightarrow> (i = 0 \<or> 2 ^ i \<le> gap) \<and> (i = 15 \<or> gap < 2 ^ (i + 1))"
proof -
  define b where "b = gap_hist_bin gap"
  have b: "b < 16" "if b = 0 then gap < 2 else 2 ^ b \<le> gap \<and> (b < 15 \<longrightarrow> gap < 2 ^ (b + 1))"
    using gap_hist_bin_bounds [of gap] unfolding b_def Let_def by blast+
  have up: "2 ^ (m + 1) \<le> (2 :: int) ^ n" if "m < n" for m n using that by (intro power_increasing) simp_all
  show ?thesis
    unfolding b_def [symmetric]
  proof
    assume "b = i"
    then show "(i = 0 \<or> 2 ^ i \<le> gap) \<and> (i = 15 \<or> gap < 2 ^ (i + 1))" using b by (auto split: if_splits)
  next
    assume i: "(i = 0 \<or> 2 ^ i \<le> gap) \<and> (i = 15 \<or> gap < 2 ^ (i + 1))"
    show "b = i"
    proof (rule ccontr)
      assume "b \<noteq> i"
      then consider "b < i" | "i < b" by linarith
      then show False
      proof cases
        case 1
        then have "gap < 2 ^ (b + 1)" "2 ^ i \<le> gap" using b i assms(2) by (auto split: if_splits)
        with up [OF 1] show False by linarith
      next
        case 2
        then have "gap < 2 ^ (i + 1)" "2 ^ b \<le> gap" using b i assms(2) by (auto split: if_splits)
        with up [OF 2] show False by linarith
      qed
    qed
  qed
qed

lemma histogram_loop:
  assumes "\<forall>i \<in> set is. i < 16" and "length (rc_measured r) < 2 ^ 64"
  shows "\<exists>r'. for_io (map int is) (\<lambda>index lines.
       if index < 0 \<or> 16 \<le> index then raise (IndexError ''RX histogram index must be in the range 0..15'')
       else seq_io (write32 (rx_os base) (base + 0xcc) index)
           (bind_io (read64 (rx_os base) (base + 0xd0) (base + 0xd4)) (\<lambda>value.
            ret (lines @ [HistLine index (push_bit (nat index) 1) (push_bit (nat index + 1) 1 - 1) value])))) acc r
     = Some (Inr (acc @ map (\<lambda>i. HistLine (int i) (2 ^ i) (2 ^ (i + 1) - 1) (hist_count r i)) is), r')
     \<and> rc_measured r' = rc_measured r"
  using assms
proof (induction "is" arbitrary: acc r)
  case Nil
  then show ?case by (simp add: ret_def)
next
  case (Cons i "is")
  let ?r = "rx_write 0xcc (take_bit 32 (int i)) r"
  have i: "i < 16" using Cons.prems(1) by simp
  have r: "rc_measured ?r = rc_measured r" "unat (rc_hist_sel ?r) = i"
    using i by (simp_all add: rx_write_def wi_bintr unat_of_nat take_bit_nat_eq_self)
  then have h: "hist_count ?r = hist_count r" by (simp add: hist_count_def fun_eq_iff)
  have v: "rx_read 0xd0 ?r OR push_bit 32 (rx_read 0xd4 ?r) = hist_count r i"
    using rx_wide(8) [of ?r] Cons.prems(2) r h by simp
  from Cons.IH [of ?r "acc @ [HistLine (int i) (2 ^ i) (2 ^ (i + 1) - 1) (hist_count r i)]"] Cons.prems r h i v
  show ?case
    by (simp add: bind_io_assoc rx_bind push_bit_eq_mult)
qed

text \<open>C34: The histogram.  On a core at rest rx-histogram prints the sixteen bins in order, each with the number of
  measured gaps the core sorted into it; together the counts are the number of measured gaps.  The
  printed range of bin \<open>i\<close> is \<open>2^i\<close> to \<open>2^(i+1) - 1\<close>: for bins 1 to 14 the count is exactly the number of
  gaps in that range, while bin 0 also counts gaps of zero and bin 15 every gap from \<open>2^15\<close> on.\<close>

theorem rx_histogram_counts:
  assumes "length (rc_measured r) < 2 ^ 64"
  shows "(\<exists>w. cli_main (rx_os (rx_port_base port)) port None (Cmd_rx_histogram None) r =
         Some (Inr (map (\<lambda>i. HistLine (int i) (2 ^ i) (2 ^ (i + 1) - 1) (hist_count r i)) [0..<16]), w))
     \<and> (\<Sum>i<16. hist_count r i) = int (length (rc_measured r))
     \<and> (\<forall>i \<in> {1..14}. hist_count r i = int (length (filter (\<lambda>g. 2 ^ i \<le> uint g \<and> uint g \<le> 2 ^ (i + 1) - 1) (rc_measured r))))
     \<and> hist_count r 0 = int (length (filter (\<lambda>g. uint g \<le> 1) (rc_measured r)))
     \<and> hist_count r 15 = int (length (filter (\<lambda>g. 2 ^ 15 \<le> uint g) (rc_measured r)))"
proof (intro conjI ballI)
  have bins: "[0..15] = map int [0..<16]" by code_simp
  from histogram_loop [OF _ assms, of "[0..<16]" "rx_port_base port" "[]"]
  show "\<exists>w. cli_main (rx_os (rx_port_base port)) port None (Cmd_rx_histogram None) r =
      Some (Inr (map (\<lambda>i. HistLine (int i) (2 ^ i) (2 ^ (i + 1) - 1) (hist_count r i)) [0..<16]), w)"
    unfolding cli_main_def cli_command_def cmd.case option.case rx_histogram_def bins by auto
  have "(\<Sum>i<16. int (length (filter (\<lambda>g. gap_hist_bin (uint g) = i) gs))) = int (length gs)" for gs :: "64 word list"
  proof (induction gs)
    case (Cons g gs)
    have b: "gap_hist_bin (uint g) < 16" using gap_hist_bin_bounds [of "uint g"] by (simp add: Let_def)
    have "(\<Sum>i<16. int (length (filter (\<lambda>g. gap_hist_bin (uint g) = i) (g # gs))))
        = (\<Sum>i<16. int (length (filter (\<lambda>g. gap_hist_bin (uint g) = i) gs)) + (if gap_hist_bin (uint g) = i then 1 else 0))"
      by (intro sum.cong) auto
    then show ?case using Cons b by (simp add: sum.distrib)
  qed simp
  then show "(\<Sum>i<16. hist_count r i) = int (length (rc_measured r))" by (simp add: hist_count_def)
  show "hist_count r i = int (length (filter (\<lambda>g. 2 ^ i \<le> uint g \<and> uint g \<le> 2 ^ (i + 1) - 1) (rc_measured r)))"
    if "i \<in> {1..14}" for i
    using that by (simp add: hist_count_def gap_hist_bin_iff)
  show "hist_count r 0 = int (length (filter (\<lambda>g. uint g \<le> 1) (rc_measured r)))"
  proof -
    have "x < 2 \<longleftrightarrow> x \<le> 1" for x :: int by linarith
    then show ?thesis by (simp add: hist_count_def gap_hist_bin_iff)
  qed
  show "hist_count r 15 = int (length (filter (\<lambda>g. 2 ^ 15 \<le> uint g) (rc_measured r)))"
    by (simp add: hist_count_def gap_hist_bin_iff)
qed

theorem rx_histogram_counts_witness:
  "hist_count demo_core 6 = 16 \<and> (\<Sum>i<16. hist_count demo_core i) = 16"
proof -
  have "hist_count demo_core 6 = 16" by code_simp
  with rx_histogram_counts [of demo_core 0] show ?thesis by (simp add: demo_core_def)
qed

end
