(* ===== verification/Device.thy ===== *)
theory Device
  imports Card PreloadRun
begin

text \<open>
  The weakest contract the tools need of the device files: every register access succeeds, a DMA
  transfer moves some of its bytes, every access takes time.  Nothing is said of the values read, so
  what is proved from it holds with any traffic, link or capture core behind the files.  The tools end
  under this contract; the card of Card satisfies it.
\<close>

locale live_device = timed os now for os :: "'a os" and now :: "'a \<Rightarrow> rat" +
  assumes user_read: "\<And>a w. \<exists>v w'. os_pread os User 4 a w = (Inr (le_bytes 4 v), w')"
    and user_write: "\<And>v a w. \<exists>n w'. os_pwrite os User (le_bytes 4 v) a w = (Inr n, w')"
    and h2c_some: "\<And>data a w. data \<noteq> [] \<Longrightarrow> \<exists>n w'. os_pwrite os H2C data a w = (Inr (int n), w') \<and> 0 < n \<and> n \<le> length data"
    and c2h_some: "\<And>n a w. 0 < n \<Longrightarrow> \<exists>bs w'. os_pread os C2H n a w = (Inr bs, w') \<and> bs \<noteq> [] \<and> int (length bs) \<le> n"
begin

definition late :: "rat \<Rightarrow> 'a \<Rightarrow> bool" where
  "late T w \<longleftrightarrow> T \<le> now w"

lemma late_mono: "late T w \<Longrightarrow> T' \<le> T \<Longrightarrow> late T' w"
  by (simp add: late_def)

lemma late_any: "(\<And>T. spec (late T) m Q E) \<Longrightarrow> spec (\<lambda>_. True) m Q E"
  by (simp add: spec_def late_def) blast

text \<open>A command that returns, perhaps with an exception that \<open>E\<close> allows.\<close>

abbreviation runs :: "('a, 'b) io \<Rightarrow> (py_error \<Rightarrow> 'a \<Rightarrow> bool) \<Rightarrow> bool" where
  "runs m E \<equiv> spec (\<lambda>_. True) m (\<lambda>_ _. True) E"

lemma runs_late: "(\<And>T. spec (late T) m (\<lambda>_. late T) E) \<Longrightarrow> runs m E"
  by (rule late_any, rule spec_conseq, assumption) auto

lemma runs_bind: "runs m E \<Longrightarrow> (\<And>x. runs (f x) E) \<Longrightarrow> runs (bind_io m f) E"
  by (rule spec_bind)

lemma read32_takes: "spec (late T) (read32 os a) (\<lambda>x w. late (T + access_time) w \<and> 0 \<le> x \<and> x < 2 ^ 32) E"
proof (unfold spec_def, intro allI impI)
  fix w assume w: "late T w"
  obtain v w' where r: "os_pread os User 4 a w = (Inr (le_bytes 4 v), w')" using user_read by blast
  have "late (T + access_time) w'" using pread_time [of w User 4 a] r w by (simp add: late_def)
  moreover have "0 \<le> le_int (le_bytes 4 v) \<and> le_int (le_bytes 4 v) < 2 ^ 32" by (simp add: le_int_le_bytes_mod)
  ultimately show "case read32 os a w of None \<Rightarrow> False | Some (Inl e, w') \<Rightarrow> E e w'
      | Some (Inr x, w') \<Rightarrow> late (T + access_time) w' \<and> 0 \<le> x \<and> x < 2 ^ 32"
    using r by (simp add: read32_def pread_def bind_io_def ret_def)
qed

lemma read32_late [intro]: "spec (late T) (read32 os a) (\<lambda>_. late T) E"
  by (rule spec_conseq [OF read32_takes]) (use access_time_pos in \<open>auto elim: late_mono\<close>)

lemma write32_late [intro]: "spec (late T) (write32 os a v) (\<lambda>_. late T) E"
proof (unfold spec_def, intro allI impI)
  fix w assume w: "late T w"
  obtain n w' where r: "os_pwrite os User (le_bytes 4 (take_bit 32 v)) a w = (Inr n, w')" using user_write by blast
  have "late T w'" using pwrite_time [of w User "le_bytes 4 (take_bit 32 v)" a] r w by (simp add: late_def)
  then show "case write32 os a v w of None \<Rightarrow> False | Some (Inl e, w') \<Rightarrow> E e w' | Some (Inr x, w') \<Rightarrow> late T w'"
    using r by (simp add: write32_pack pwrite_def bind_io_def ret_def)
qed

lemma bind_late: "spec (late T) m (\<lambda>_. late T) E \<Longrightarrow> (\<And>x. spec (late T) (f x) Q E) \<Longrightarrow> spec (late T) (bind_io m f) Q E"
  by (rule spec_bind)

lemma write64_late [intro]: "spec (late T) (write64 os lo hi v) (\<lambda>_. late T) E"
  unfolding write64_def by (intro bind_late write32_late)

lemma read64_takes: "spec (late T) (read64 os lo hi) (\<lambda>_. late (T + access_time)) E"
  unfolding read64_def
  by (rule spec_bind [OF read32_takes], rule spec_assume, rule bind_late [OF read32_late], rule spec_ret)

lemma read64_late [intro]: "spec (late T) (read64 os lo hi) (\<lambda>_. late T) E"
  by (rule spec_conseq [OF read64_takes]) (use access_time_pos in \<open>auto elim: late_mono\<close>)

lemma sleep_takes: "spec (late T) (sleep os t) (\<lambda>_. late (T + access_time)) E"
  unfolding spec_def sleep_def late_def using sleep_time by (auto intro: order_trans [OF add_right_mono])

lemma sleep_late [intro]: "spec (late T) (sleep os t) (\<lambda>_. late T) E"
  by (rule spec_conseq [OF sleep_takes]) (use access_time_pos in \<open>auto elim: late_mono\<close>)

lemma clock_late: "spec (late T) (perf_counter os) (\<lambda>t w. late T w \<and> fl T \<le> t) E"
proof (unfold spec_def, intro allI impI)
  fix w assume w: "late T w"
  obtain t w' where c: "os_clock os w = (t, w')" by (cases "os_clock os w")
  have "T \<le> now w'" "fl T \<le> t"
    using clock_time [of w] clock_value [of w] w c fl_mono [of T "now w"] by (simp_all add: late_def)
  then show "case perf_counter os w of None \<Rightarrow> False | Some (Inl e, w') \<Rightarrow> E e w' | Some (Inr t, w') \<Rightarrow> late T w' \<and> fl T \<le> t"
    using c by (simp add: perf_counter_def late_def)
qed

lemma elapsed_late: "spec (late T) (elapsed os start) (\<lambda>t w. late T w \<and> fl (fl T - start) \<le> t) E"
  unfolding elapsed_def
  by (rule spec_bind [OF clock_late], rule spec_ret) (auto intro: fl_mono)

lemma poll_late:
  assumes "\<And>u T. spec (late T) (body u) (\<lambda>c w. case c of Continue u' \<Rightarrow> late (T + access_time) w \<and> T < L | Break x \<Rightarrow> Q x w) E"
  shows "spec (late T) (loop_io body u) Q E"
  using poll [where I = "\<lambda>_ _. True" and body = body and Q = Q and E = E and L = L and u = u and T = T] assms
  by (simp add: late_def [abs_def] cong: ctl.case_cong)

section \<open>Transfers\<close>

lemma write_chunk_late [intro]:
  "spec (late T) (write_chunk_all os chunk addr) (\<lambda>_. late T) E"
  "spec (late T) (write_chunk_file os chunk addr) (\<lambda>_. late T) E"
proof -
  let ?I = "\<lambda>(k :: int) w. 0 \<le> k \<and> late T w" and ?m = "\<lambda>k _. nat (int (length chunk) - k)"
  have go: "\<exists>n w'. os_pwrite os H2C (drop (nat k) chunk) a w = (Inr (int n), w') \<and> 0 < n \<and> late T w'"
    if "k < int (length chunk)" "0 \<le> k" "late T w" for k a w
  proof -
    have "drop (nat k) chunk \<noteq> []" using that(1,2) by simp
    then obtain n w' where n: "os_pwrite os H2C (drop (nat k) chunk) a w = (Inr (int n), w')" "0 < n" using h2c_some by blast
    have "late T w'" using pwrite_time [of w H2C "drop (nat k) chunk" a] n that(3) by (simp add: late_def)
    with n show ?thesis by blast
  qed
  have "spec (?I 0) (write_chunk_all os chunk addr) (\<lambda>_. late T) E"
    unfolding write_chunk_all_def
  proof (rule spec_loop [where I = ?I and m = ?m], rule spec_assume)
    fix k v assume "?I k v"
    then show "spec (\<lambda>w. w = v) (if k < int (length chunk) then bind_io (pwrite os H2C (drop (nat k) chunk) (addr + k)) (\<lambda>rc. ret (Continue (k + rc)))
         else ret (Break ()))
      (\<lambda>c w. case c of Continue s' \<Rightarrow> ?I s' w \<and> nat (int (length chunk) - s') < nat (int (length chunk) - k) | Break a \<Rightarrow> late T w) E"
      using go [of k v "addr + k"] by (auto simp: spec_def bind_io_def pwrite_def ret_def)
  qed
  then show "spec (late T) (write_chunk_all os chunk addr) (\<lambda>_. late T) E" by simp
  have "spec (?I 0) (write_chunk_file os chunk addr) (\<lambda>_. late T) E"
    unfolding write_chunk_file_def
  proof (rule spec_loop [where I = ?I and m = ?m], rule spec_assume)
    fix k v assume "?I k v"
    then show "spec (\<lambda>w. w = v) (if k < int (length chunk) then bind_io (pwrite os H2C (drop (nat k) chunk) (addr + k)) (\<lambda>rc.
          if rc \<le> 0 then raise (RuntimeError ''short H2C write'') else ret (Continue (k + rc)))
         else ret (Break ()))
      (\<lambda>c w. case c of Continue s' \<Rightarrow> ?I s' w \<and> nat (int (length chunk) - s') < nat (int (length chunk) - k) | Break a \<Rightarrow> late T w) E"
      using go [of k v "addr + k"] by (auto simp: spec_def bind_io_def pwrite_def ret_def)
  qed
  then show "spec (late T) (write_chunk_file os chunk addr) (\<lambda>_. late T) E" by simp
qed

lemma pwrite_file_late [intro]:
  assumes "read_size_ok chunk_bytes"
  shows "spec (late T) (pwrite_file os bs addr chunk_bytes) (\<lambda>_. late T) E"
  unfolding pwrite_file_def
proof (rule spec_loop [where I = "\<lambda>_. late T" and m = "\<lambda>off _. length bs - off"])
  fix off v
  let ?chunk = "fh_part chunk_bytes (drop off bs)"
  have chunk: "spec (\<lambda>w. w = v \<and> late T v) (write_chunk_file os ?chunk (addr + int off)) (\<lambda>_. late T) E"
    by (rule spec_conseq [OF write_chunk_late(2) [of T]]) auto
  show "spec (\<lambda>w. w = v \<and> late T v) (bind_io (lift_res (fh_read chunk_bytes (drop off bs))) (\<lambda>chunk. if chunk = [] then ret (Break ())
      else bind_io (write_chunk_file os chunk (addr + int off)) (\<lambda>_. ret (Continue (off + length chunk)))))
    (\<lambda>c w. case c of Continue s' \<Rightarrow> late T w \<and> length bs - s' < length bs - off | Break a \<Rightarrow> late T w) E"
  proof (cases "?chunk = []")
    case True
    then show ?thesis by (auto simp: fh_read_ok [OF assms] intro!: spec_ret)
  next
    case False
    then have "off < length bs" using fh_part_Nil [OF assms, of "drop off bs"] by auto
    moreover have "0 < length ?chunk" using False by simp
    ultimately have "length bs - (off + length ?chunk) < length bs - off" by linarith
    then show ?thesis unfolding fh_read_ok [OF assms] bind_lift_Inr if_not_P [OF False] by (intro spec_bind [OF chunk] spec_ret) simp
  qed
qed

section \<open>The steps of a run\<close>

lemma configure_and_start_late [intro]: "spec (late T) (configure_and_start os base args desc_size data_size) (\<lambda>_. late T) E"
  unfolding configure_and_start_def by (intro bind_late write32_late write64_late read32_late sleep_late)

text \<open>The end of a polling round: stop when it is late, sleep otherwise.\<close>

lemma poll_round:
  assumes L: "\<And>t. L \<le> t \<Longrightarrow> timeout < fl (fl t - start)"
  shows "spec (late (T + access_time)) (bind_io (elapsed os start) (\<lambda>t.
       if timeout < t then bind_io (elapsed os start) (\<lambda>t. ret (Break (False, t)))
       else seq_io (sleep os nap) (ret (Continue ()))))
     (\<lambda>c w. case c of Continue u \<Rightarrow> late (T + access_time) w \<and> T < L | Break x \<Rightarrow> True) E"
proof (rule spec_bind [OF elapsed_late], rule spec_assume)
  fix t assume t: "fl (fl (T + access_time) - start) \<le> t"
  show "spec (late (T + access_time)) (if timeout < t then bind_io (elapsed os start) (\<lambda>t. ret (Break (False, t)))
      else seq_io (sleep os nap) (ret (Continue ())))
    (\<lambda>c w. case c of Continue u \<Rightarrow> late (T + access_time) w \<and> T < L | Break x \<Rightarrow> True) E"
  proof (cases "timeout < t")
    case True
    then show ?thesis by (auto intro!: spec_bind [OF elapsed_late] spec_ret)
  next
    case False
    have "T < L"
    proof (rule ccontr)
      assume "\<not> T < L"
      then have "timeout < fl (fl (T + access_time) - start)" using access_time_pos by (intro L) simp
      with False t show False by linarith
    qed
    then show ?thesis unfolding if_not_P [OF False] by (intro spec_bind [OF sleep_late] spec_ret) simp
  qed
qed

lemma wait_done_runs: "runs (wait_done os base n timeout) E"
  unfolding wait_done_def
proof (rule late_any, rule spec_bind [OF clock_late], rule spec_assume)
  fix start T
  obtain L where L: "timeout < fl (fl t - start)" if "L \<le> t" for t using elapsed_passes by blast
  have found: "spec (late T') (bind_io (elapsed os start) (\<lambda>t. ret (Break (b, t))))
      (\<lambda>c w. case c of Continue u \<Rightarrow> late (T + access_time) w \<and> T < L | Break x \<Rightarrow> True) E" for b T' T
    by (rule spec_bind [OF elapsed_late], rule spec_ret) simp
  show "spec (late T) (loop_io (\<lambda>_ :: unit.
     bind_io (read32 os (base + 0x08)) (\<lambda>status.
     bind_io (read64 os (base + 0x60) (base + 0x64)) (\<lambda>tx_pkts.
     if status AND 0x2 \<noteq> 0 \<and> status AND 0x1 = 0
     then bind_io (elapsed os start) (\<lambda>t. ret (Break (True, t)))
     else if n \<le> tx_pkts \<and> status AND 0x1 = 0
     then bind_io (elapsed os start) (\<lambda>t. ret (Break (True, t)))
     else bind_io (elapsed os start) (\<lambda>t.
       if timeout < t then bind_io (elapsed os start) (\<lambda>t. ret (Break (False, t)))
       else seq_io (sleep os (5 / 1000)) (ret (Continue ())))))) ()) (\<lambda>_ _. True) E"
    by (rule poll_late [where L = L], rule spec_bind [OF read32_takes], rule spec_assume, rule bind_late [OF read64_late])
      (simp add: found poll_round [OF L])
qed

text \<open>A loop \<^verbatim>\<open>while time.monotonic() < deadline\<close>.\<close>

lemma deadline_loop:
  assumes body: "\<And>u T. spec (late T) (body u) (\<lambda>c w. case c of Continue u' \<Rightarrow> late (T + access_time) w | Break x \<Rightarrow> Q x w) E"
    and over: "\<And>u T. spec (late T) (expired u) (\<lambda>c w. case c of Continue u' \<Rightarrow> False | Break x \<Rightarrow> Q x w) E"
  shows "spec (late T) (loop_io (\<lambda>u. bind_io (perf_counter os) (\<lambda>t. if t < deadline then body u else expired u)) u) Q E"
proof -
  obtain L where L: "deadline < fl t" if "L \<le> t" for t using clock_passes by blast
  show ?thesis
  proof (rule poll_late [where L = L], rule spec_bind [OF clock_late], rule spec_assume)
    fix u T t assume t: "fl T \<le> t"
    show "spec (late T) (if t < deadline then body u else expired u)
      (\<lambda>c w. case c of Continue u' \<Rightarrow> late (T + access_time) w \<and> T < L | Break x \<Rightarrow> Q x w) E"
    proof (cases "t < deadline")
      case True
      then have "T < L" using L [of T] t by force
      then show ?thesis unfolding if_P [OF True] by (intro spec_conseq [OF body]) (auto split: ctl.splits)
    next
      case False
      then show ?thesis unfolding if_not_P [OF False] by (intro spec_conseq [OF over]) (auto split: ctl.splits)
    qed
  qed
qed

lemma read_counters_late [intro]: "spec (late T) (read_counters os base) (\<lambda>_. late T) E"
  unfolding read_counters_def by (intro bind_late read64_late spec_ret)

lemma stop_and_clear_late [intro]: "spec (late T) (stop_and_clear os base) (\<lambda>_. late T) E"
  unfolding stop_and_clear_def by (intro bind_late write32_late sleep_late)

end

text \<open>The board of Card is such a device.\<close>

interpretation live: live_device "board_os hw" bd_now for hw
proof
  fix a w
  show "\<exists>v w'. os_pread (board_os hw) User 4 a w = (Inr (le_bytes 4 v), w')"
    by (cases "decode a") (auto simp: board_os_def board_pread_def Let_def)
next
  fix v a w
  show "\<exists>n w'. os_pwrite (board_os hw) User (le_bytes 4 v) a w = (Inr n, w')"
    by (cases "decode a") (auto simp: board_os_def board_pwrite_def Let_def)
next
  fix data :: bytes and a w assume "data \<noteq> []"
  then show "\<exists>n w'. os_pwrite (board_os hw) H2C data a w = (Inr (int n), w') \<and> 0 < n \<and> n \<le> length data"
    by (auto simp: board_os_def board_pwrite_def Let_def Suc_le_eq)
next
  fix n a w assume "0 < (n :: int)"
  then show "\<exists>bs w'. os_pread (board_os hw) C2H n a w = (Inr bs, w') \<and> bs \<noteq> [] \<and> int (length bs) \<le> n"
    by (auto simp: board_os_def board_pread_def Let_def)
qed

end
