(* ===== verification/LoopbackVerify.thy ===== *)
theory LoopbackVerify
  imports Device RxCli
begin

text \<open>
  loopback_rx_verify.py: replay a pattern on one port, capture it on the other, read the captured bytes
  back and compare them with the frames that were sent.  First the program, then what its verdict means.
\<close>

section \<open>Transfers\<close>

definition pread_all :: "'w os \<Rightarrow> int \<Rightarrow> int \<Rightarrow> ('w, bytes) io" where
  "pread_all os n addr = loop_io (\<lambda>out.
     if int (length out) < n
     then bind_io (pread os C2H (n - int (length out)) (addr + int (length out))) (\<lambda>chunk.
          if chunk = [] then raise (RuntimeError ''short C2H read'') else ret (Continue (out @ chunk)))
     else ret (Break out)) []"

definition pwrite_all_bytes :: "'w os \<Rightarrow> bytes \<Rightarrow> int \<Rightarrow> ('w, unit) io" where
  "pwrite_all_bytes os data addr = loop_io (\<lambda>off.
     if off < int (length data)
     then bind_io (pwrite os H2C (drop (nat off) data) (addr + off)) (\<lambda>n. ret (Continue (off + n)))
     else ret (Break ())) 0"

section \<open>The receive port\<close>

definition show_last :: "int list option \<Rightarrow> string" where
  "show_last seen = (case seen of None \<Rightarrow> ''None'' | Some xs \<Rightarrow> ''('' @ join '', '' (map show_int xs) @ '')'')"

definition writer_state :: "int \<Rightarrow> int" where
  "writer_state status = drop_bit 7 status AND 0x3"

definition busy_bits :: "int \<Rightarrow> int" where
  "busy_bits status = status AND 0x17"

definition wait_rx_cleared :: "'w os \<Rightarrow> int \<Rightarrow> rat \<Rightarrow> ('w, unit) io" where
  "wait_rx_cleared os base timeout = bind_io (perf_counter os) (\<lambda>t0. let deadline = fl (t0 + timeout) in
     loop_io (\<lambda>seen. bind_io (perf_counter os) (\<lambda>t.
       if t < deadline then
         bind_io (read32 os (base + 0x04)) (\<lambda>status.
         bind_io (read32 os (base + 0x20)) (\<lambda>write_ptr.
         bind_io (read64 os (base + 0x30) (base + 0x34)) (\<lambda>rx_pkts.
         bind_io (read64 os (base + 0x38) (base + 0x3c)) (\<lambda>rx_bytes.
         bind_io (read64 os (base + 0x40) (base + 0x44)) (\<lambda>rx_errors.
         bind_io (read64 os (base + 0x48) (base + 0x4c)) (\<lambda>cap_bytes.
         bind_io (read64 os (base + 0x50) (base + 0x54)) (\<lambda>axi_writes.
         bind_io (read64 os (base + 0x58) (base + 0x5c)) (\<lambda>axi_errors.
           if writer_state status = 0 \<and> busy_bits status = 0 \<and> write_ptr = 0 \<and> rx_pkts = 0 \<and> rx_bytes = 0 \<and> rx_errors = 0
              \<and> cap_bytes = 0 \<and> axi_writes = 0 \<and> axi_errors = 0
           then ret (Break ())
           else seq_io (sleep os (1 / 100)) (ret (Continue
                  (Some [status, write_ptr, rx_pkts, rx_bytes, rx_errors, cap_bytes, axi_writes, axi_errors])))))))))))
       else raise (TimeoutError (''RX clear did not settle: '' @ show_last seen)))) None)"

definition configure_rx :: "'w os \<Rightarrow> int \<Rightarrow> int \<Rightarrow> int \<Rightarrow> int \<Rightarrow> ('w, unit) io" where
  "configure_rx os base ring_base ring_size truncate_bytes =
     seq_io (write32 os (base + 0x00) 0x0)
    (seq_io (write32 os (base + 0x00) 0x2)
    (seq_io (wait_rx_cleared os base 2)
    (seq_io (write64 os (base + 0x10) (base + 0x14) ring_base)
    (seq_io (write32 os (base + 0x18) ring_size)
    (seq_io (write32 os (base + 0x1c) truncate_bytes)
    (seq_io (write32 os (base + 0x00) 0x2)
    (seq_io (wait_rx_cleared os base 2)
    (write32 os (base + 0x00) 0x5))))))))"

section \<open>The program\<close>

record loopback_args =
  lb_tx_port :: nat
  lb_rx_port :: nat
  lb_desc_base :: int
  lb_data_base :: int
  lb_rx_ring_base :: int
  lb_rx_ring_size :: int
  lb_truncate_bytes :: int
  lb_packet_count :: int
  lb_frame_len :: int
  lb_gap_ticks :: int
  lb_force_link_up :: bool
  lb_force_tx_ready :: bool
  lb_timeout :: rat

definition rx_base_of :: "nat \<Rightarrow> int" where
  "rx_base_of port = (if port = 0 then 0x20000 else 0x30000)"

definition checked_bytes :: "loopback_args \<Rightarrow> int" where
  "checked_bytes args = min (lb_frame_len args) (lb_truncate_bytes args)"

definition sample_stride :: "loopback_args \<Rightarrow> int" where
  "sample_stride args = (checked_bytes args + 63) div 64 * 64"

definition loopback_run_args :: "loopback_args \<Rightarrow> run_args" where
  "loopback_run_args args = \<lparr> ra_desc_base = lb_desc_base args, ra_data_base = lb_data_base args,
     ra_packet_count = lb_packet_count args, ra_rate_q16_16 = 0x00010000, ra_force_link_up = lb_force_link_up args,
     ra_force_tx_ready = lb_force_tx_ready args, ra_no_auto_drop = False \<rparr>"

record loopback_report =
  lr_completed :: bool
  lr_wall_seconds :: rat
  lr_tx_pkts :: int
  lr_drop_pkts :: int
  lr_late_pkts :: int
  lr_stall_events :: int
  lr_rx_pkts :: int
  lr_rx_bytes :: int
  lr_rx_errors :: int
  lr_cap_bytes :: int
  lr_axi_writes :: int
  lr_axi_errors :: int
  lr_write_ptr :: int
  lr_status :: int

definition loopback_counters :: "'w os \<Rightarrow> int \<Rightarrow> int \<Rightarrow> bool \<Rightarrow> rat \<Rightarrow> ('w, loopback_report) io" where
  "loopback_counters os tx_base rx_base completed wall_seconds =
     bind_io (read64 os (tx_base + 0x60) (tx_base + 0x64)) (\<lambda>tx_pkts.
     bind_io (read64 os (tx_base + 0xc8) (tx_base + 0xcc)) (\<lambda>drop_pkts.
     bind_io (read64 os (tx_base + 0x70) (tx_base + 0x74)) (\<lambda>late_pkts.
     bind_io (read64 os (tx_base + 0xd8) (tx_base + 0xdc)) (\<lambda>stall_events.
     bind_io (read64 os (rx_base + 0x30) (rx_base + 0x34)) (\<lambda>rx_pkts.
     bind_io (read64 os (rx_base + 0x38) (rx_base + 0x3c)) (\<lambda>rx_bytes.
     bind_io (read64 os (rx_base + 0x40) (rx_base + 0x44)) (\<lambda>rx_errors.
     bind_io (read64 os (rx_base + 0x48) (rx_base + 0x4c)) (\<lambda>cap_bytes.
     bind_io (read64 os (rx_base + 0x50) (rx_base + 0x54)) (\<lambda>axi_writes.
     bind_io (read64 os (rx_base + 0x58) (rx_base + 0x5c)) (\<lambda>axi_errors.
     bind_io (read32 os (rx_base + 0x20)) (\<lambda>write_ptr.
     bind_io (read32 os (rx_base + 0x04)) (\<lambda>status.
     ret \<lparr> lr_completed = completed, lr_wall_seconds = wall_seconds, lr_tx_pkts = tx_pkts, lr_drop_pkts = drop_pkts,
       lr_late_pkts = late_pkts, lr_stall_events = stall_events, lr_rx_pkts = rx_pkts, lr_rx_bytes = rx_bytes,
       lr_rx_errors = rx_errors, lr_cap_bytes = cap_bytes, lr_axi_writes = axi_writes, lr_axi_errors = axi_errors,
       lr_write_ptr = write_ptr, lr_status = status \<rparr>))))))))))))"

text \<open>The run on the hardware: the counters and the captured bytes.\<close>

definition loopback_run :: "'w os \<Rightarrow> loopback_args \<Rightarrow> mixed_state \<Rightarrow> int \<Rightarrow> int \<Rightarrow> ('w, loopback_report \<times> bytes) io" where
  "loopback_run os args st desc_size data_size =
    (let tx_base = tx_port_base (lb_tx_port args); rx_base = rx_base_of (lb_rx_port args);
         sample_bytes = lb_packet_count args * sample_stride args in
     seq_io (pwrite_file os (tr_desc_file (mx_out st)) (lb_desc_base args) (4 * 1024 * 1024))
    (seq_io (pwrite_file os (tr_data_file (mx_out st)) (lb_data_base args) (4 * 1024 * 1024))
    (bind_io (lift_res (zeros sample_bytes)) (\<lambda>blank.
     seq_io (pwrite_all_bytes os blank (lb_rx_ring_base args))
    (seq_io (configure_rx os rx_base (lb_rx_ring_base args) (lb_rx_ring_size args) (lb_truncate_bytes args))
    (seq_io (configure_and_start os tx_base (loopback_run_args args) desc_size data_size)
    (bind_io (wait_done os tx_base (lb_packet_count args) (lb_timeout args)) (\<lambda>(completed, wall_seconds).
     seq_io (sleep os (1 / 2))
    (bind_io (loopback_counters os tx_base rx_base completed wall_seconds) (\<lambda>report.
     bind_io (pread_all os sample_bytes (lb_rx_ring_base args)) (\<lambda>captured.
     ret (report, captured))))))))))))"

text \<open>The first byte at which a sample differs, and the scan over the packets, which stops after eight.\<close>

definition first_difference :: "nat \<Rightarrow> bytes \<Rightarrow> bytes \<Rightarrow> (nat \<times> nat \<times> byte \<times> byte) list" where
  "first_difference pkt_idx expected actual =
     (case filter (\<lambda>(byte_idx, want, got). want \<noteq> got) (zip [0..<length expected] (zip expected actual)) of
        [] \<Rightarrow> [] | (byte_idx, want, got) # _ \<Rightarrow> [(pkt_idx, byte_idx, want, got)])"

fun scan_samples :: "loopback_args \<Rightarrow> bytes \<Rightarrow> nat list \<Rightarrow> (nat \<times> nat \<times> byte \<times> byte) list \<Rightarrow> (nat \<times> nat \<times> byte \<times> byte) list" where
  "scan_samples args captured [] mismatches = mismatches"
| "scan_samples args captured (pkt_idx # rest) mismatches =
    (let expected = py_prefix (checked_bytes args) (pst_make_frame (int pkt_idx) (lb_frame_len args));
         start = pkt_idx * nat (sample_stride args);
         actual = pyslice start (start + nat (checked_bytes args)) captured in
     if actual \<noteq> expected
     then let mismatches = mismatches @ first_difference pkt_idx expected actual in
          if 8 \<le> length mismatches then mismatches else scan_samples args captured rest mismatches
     else scan_samples args captured rest mismatches)"

definition find_mismatches :: "loopback_args \<Rightarrow> bytes \<Rightarrow> (nat \<times> nat \<times> byte \<times> byte) list" where
  "find_mismatches args captured = scan_samples args captured [0..<nat (lb_packet_count args)] []"

definition loopback_fails :: "loopback_args \<Rightarrow> loopback_report \<Rightarrow> (nat \<times> nat \<times> byte \<times> byte) list \<Rightarrow> bool" where
  "loopback_fails args r mismatches \<longleftrightarrow> \<not> lr_completed r \<or> lr_tx_pkts r \<noteq> lb_packet_count args \<or> lr_drop_pkts r \<noteq> 0
     \<or> lr_late_pkts r \<noteq> 0 \<or> lr_stall_events r \<noteq> 0 \<or> lr_rx_pkts r < lb_packet_count args \<or> lr_rx_errors r \<noteq> 0
     \<or> lr_axi_errors r \<noteq> 0 \<or> mismatches \<noteq> []"

definition loopback_main :: "'w os \<Rightarrow> loopback_args \<Rightarrow> ('w, loopback_report) io" where
  "loopback_main os args =
    (if checked_bytes args \<le> 0 \<or> sample_stride args \<le> 0
     then raise (SystemExit ''frame length and truncate bytes must leave at least one byte to check'')
     else bind_io (lift_res (make_mixed_trace (lb_packet_count args) [(lb_frame_len args, lb_gap_ticks args)])) (\<lambda>(st, desc_size, data_size).
          bind_io (loopback_run os args st desc_size data_size) (\<lambda>(report, captured).
          let mismatches = find_mismatches args captured in
          if loopback_fails args report mismatches then raise (SystemExit ''FAIL: loopback RX verification failed'')
          else ret report)))"

section \<open>The verdict\<close>

lemma differences_Nil:
  assumes "length xs = length ys"
  shows "filter (\<lambda>(i, x, y). x \<noteq> y) (zip [0..<length xs] (zip xs ys)) = [] \<longleftrightarrow> xs = ys"
proof
  assume no: "filter (\<lambda>(i, x, y). x \<noteq> y) (zip [0..<length xs] (zip xs ys)) = []"
  show "xs = ys"
  proof (rule nth_equalityI [OF assms])
    fix j assume j: "j < length xs"
    then have "(j, xs ! j, ys ! j) \<in> set (zip [0..<length xs] (zip xs ys))"
      using assms by (auto simp: set_zip intro!: exI [of _ j])
    then show "xs ! j = ys ! j" using no by (auto simp: filter_empty_conv)
  qed
next
  assume "xs = ys"
  then show "filter (\<lambda>(i, x, y). x \<noteq> y) (zip [0..<length xs] (zip xs ys)) = []"
    by (auto simp: filter_empty_conv set_zip)
qed

lemma first_difference_Nil:
  assumes "length expected = length actual"
  shows "first_difference i expected actual = [] \<longleftrightarrow> expected = actual"
  unfolding differences_Nil [OF assms, symmetric] by (auto simp: first_difference_def split: list.splits)

text \<open>The expected bytes of packet \<open>i\<close> and the bytes found for it.\<close>

definition sample_of :: "loopback_args \<Rightarrow> bytes \<Rightarrow> nat \<Rightarrow> bytes" where
  "sample_of args captured i = take (nat (checked_bytes args)) (drop (i * nat (sample_stride args)) captured)"

definition frame_start :: "loopback_args \<Rightarrow> nat \<Rightarrow> bytes" where
  "frame_start args i = take (nat (checked_bytes args)) (pst_make_frame (int i) (lb_frame_len args))"

lemma scan_keeps: "ms \<noteq> [] \<Longrightarrow> scan_samples args captured is ms \<noteq> []"
  by (induction args captured "is" ms rule: scan_samples.induct) (auto simp: Let_def)

lemma sample_slice: "pyslice start (start + n) xs = take n (drop start xs)"
  by (simp add: pyslice_def)

lemma scan_samples_Nil:
  assumes c: "0 < checked_bytes args" and len: "\<And>i. i \<in> set is \<Longrightarrow> length (sample_of args captured i) = nat (checked_bytes args)"
  shows "scan_samples args captured is [] = [] \<longleftrightarrow> (\<forall>i \<in> set is. sample_of args captured i = frame_start args i)"
  using len
proof (induction "is")
  case Nil
  then show ?case by simp
next
  case (Cons i "is")
  have e: "py_prefix (checked_bytes args) (pst_make_frame (int i) (lb_frame_len args)) = frame_start args i"
    using c by (simp add: py_prefix_def frame_start_def)
  have a: "pyslice (i * nat (sample_stride args)) (i * nat (sample_stride args) + nat (checked_bytes args)) captured = sample_of args captured i"
    by (simp add: sample_slice sample_of_def)
  have "0 \<le> lb_frame_len args" using c by (simp add: checked_bytes_def)
  then have "length (frame_start args i) = nat (checked_bytes args)"
    using length_pst_make_frame [of "lb_frame_len args" "int i"] by (simp add: frame_start_def checked_bytes_def)
  then have d: "first_difference i (frame_start args i) (sample_of args captured i) = [] \<longleftrightarrow> frame_start args i = sample_of args captured i"
    using Cons.prems [of i] by (intro first_difference_Nil) simp
  show ?case
    unfolding scan_samples.simps Let_def e a
    using d Cons.IH Cons.prems scan_keeps [of "first_difference i (frame_start args i) (sample_of args captured i)" args captured "is"] by auto
qed

section \<open>The run\<close>

context live_device begin

lemma pwrite_all_bytes_late: "spec (late T) (pwrite_all_bytes os data addr) (\<lambda>_. late T) E"
proof -
  have "pwrite_all_bytes os data addr = write_chunk_all os data addr"
    by (simp add: pwrite_all_bytes_def write_chunk_all_def)
  then show ?thesis by (simp add: write_chunk_late(1))
qed

lemma pread_all_length: "spec (late T) (pread_all os n addr) (\<lambda>out _. length out = nat n) E"
proof -
  have "spec (\<lambda>_. int (length ([] :: bytes)) \<le> max 0 n) (pread_all os n addr) (\<lambda>out _. length out = nat n) E"
    unfolding pread_all_def
  proof (rule spec_loop [where I = "\<lambda>out _. int (length out) \<le> max 0 n" and m = "\<lambda>out _. nat (n - int (length out))"], rule spec_assume)
    fix out :: bytes and v assume inv: "int (length out) \<le> max 0 n"
    show "spec (\<lambda>w. w = v) (if int (length out) < n
        then bind_io (pread os C2H (n - int (length out)) (addr + int (length out))) (\<lambda>chunk.
          if chunk = [] then raise (RuntimeError ''short C2H read'') else ret (Continue (out @ chunk)))
        else ret (Break out))
      (\<lambda>c w. case c of Continue s' \<Rightarrow> int (length s') \<le> max 0 n \<and> nat (n - int (length s')) < nat (n - int (length out)) | Break a \<Rightarrow> length a = nat n) E"
    proof (cases "int (length out) < n")
      case False
      then have "length out = nat n" using inv by linarith
      then show ?thesis using False by (auto intro!: spec_ret)
    next
      case True
      then obtain bs w' where bs: "os_pread os C2H (n - int (length out)) (addr + int (length out)) v = (Inr bs, w')" "bs \<noteq> []" "int (length bs) \<le> n - int (length out)"
        using c2h_some [of "n - int (length out)" "addr + int (length out)" v] by auto
      then have "0 < length bs" by simp
      then show ?thesis using True bs by (auto simp: spec_def bind_io_def pread_def ret_def)
    qed
  qed
  then show ?thesis by (simp add: spec_def)
qed

lemma wait_rx_cleared_runs: "runs (wait_rx_cleared os base timeout) (\<lambda>e _. \<exists>m. e = TimeoutError m)"
  unfolding wait_rx_cleared_def Let_def
  apply (rule late_any, rule spec_bind [OF clock_late], rule spec_assume, rule deadline_loop)
   apply ((rule bind_late, rule read32_late read64_late)+)
   apply (auto intro!: spec_ret spec_bind [OF sleep_takes] spec_raise)
  done

lemmas step_runs = runs_late [OF write32_late] runs_late [OF write64_late] runs_late [OF read32_late] runs_late [OF read64_late]
  runs_late [OF sleep_late] runs_late [OF pwrite_all_bytes_late] runs_late [OF configure_and_start_late] wait_done_runs

lemma configure_rx_runs: "runs (configure_rx os base ring_base ring_size truncate_bytes) (\<lambda>e _. \<exists>m. e = TimeoutError m)"
  unfolding configure_rx_def by (intro runs_bind step_runs wait_rx_cleared_runs)

lemma loopback_counters_runs: "runs (loopback_counters os tx_base rx_base completed wall) E"
  unfolding loopback_counters_def by (intro runs_bind step_runs spec_ret) simp

lemma loopback_run_ends:
  assumes "0 \<le> lb_packet_count args" and "0 \<le> sample_stride args"
  shows "spec (\<lambda>_. True) (loopback_run os args st desc_size data_size)
    (\<lambda>(report, captured) _. length captured = nat (lb_packet_count args * sample_stride args)) (\<lambda>e _. \<exists>m. e = TimeoutError m)"
proof -
  have file_runs: "runs (pwrite_file os bs addr (4 * 1024 * 1024)) E" for bs addr E
    by (rule runs_late, rule pwrite_file_late) (simp add: read_size_ok_def)
  have z: "zeros (lb_packet_count args * sample_stride args) = Inr (replicate (nat (lb_packet_count args * sample_stride args)) 0)"
    using assms by (simp add: zeros_def mult_nonneg_nonneg not_less)
  have read: "spec (\<lambda>_. True) (bind_io (pread_all os (lb_packet_count args * sample_stride args) (lb_rx_ring_base args)) (\<lambda>captured. ret (report, captured)))
    (\<lambda>(report, captured) _. length captured = nat (lb_packet_count args * sample_stride args)) E" for report E
    by (rule late_any, rule spec_bind [OF pread_all_length], rule spec_ret) simp
  show ?thesis
    unfolding loopback_run_def Let_def z bind_lift_Inr
    by (rule spec_bind, rule file_runs configure_rx_runs loopback_counters_runs step_runs | rule spec_prod | rule read)+
qed

end

lemma loopback_main_run:
  assumes "0 < checked_bytes args" and "make_mixed_trace (lb_packet_count args) [(lb_frame_len args, lb_gap_ticks args)] = Inr (st, desc_size, data_size)"
  shows "loopback_main os args = bind_io (loopback_run os args st desc_size data_size) (\<lambda>(report, captured).
      if loopback_fails args report (find_mismatches args captured) then raise (SystemExit ''FAIL: loopback RX verification failed'')
      else ret report)"
proof -
  have "0 < sample_stride args" using assms(1) by (simp add: sample_stride_def)
  then show ?thesis unfolding loopback_main_def assms(2) bind_lift_Inr prod.case Let_def using assms(1) by simp
qed

lemma find_mismatches_Nil:
  assumes "0 < checked_bytes args" and n: "0 \<le> lb_packet_count args"
    and len: "length captured = nat (lb_packet_count args * sample_stride args)"
  shows "find_mismatches args captured = [] \<longleftrightarrow> (\<forall>i < nat (lb_packet_count args). sample_of args captured i = frame_start args i)"
proof -
  have stride: "checked_bytes args \<le> sample_stride args" by (simp add: sample_stride_def)
  have "length (sample_of args captured i) = nat (checked_bytes args)" if "i < nat (lb_packet_count args)" for i
  proof -
    have "(i + 1) * nat (sample_stride args) \<le> nat (lb_packet_count args) * nat (sample_stride args)"
      using that by (intro mult_right_mono) auto
    also have "\<dots> = length captured" unfolding len using n by (simp add: nat_mult_distrib)
    finally have "i * nat (sample_stride args) + nat (sample_stride args) \<le> length captured" by (simp add: add.commute)
    moreover have "nat (checked_bytes args) \<le> nat (sample_stride args)" using stride by simp
    ultimately show ?thesis by (simp add: sample_of_def)
  qed
  then show ?thesis unfolding find_mismatches_def by (subst scan_samples_Nil [OF assms(1)]) auto
qed

text \<open>C25: The loopback verdict.  On any device files whose accesses succeed and take time, with a trace that can
  be written and at least one byte to check, the tool ends: by the timeout of a receive clear that does not
  settle, or with a full read-back and exactly one verdict.  It passes if and only if the replay completed,
  every packet was sent and received, no counter reports a drop, a late packet, a stall or an error, and for
  every packet the first checked bytes of its sample slot are the first bytes of the frame that was sent.\<close>

theorem loopback_verdict:
  assumes device: "live_device os now" and checked: "0 < checked_bytes args" and n: "0 \<le> lb_packet_count args"
    and trace: "make_mixed_trace (lb_packet_count args) [(lb_frame_len args, lb_gap_ticks args)] = Inr (st, desc_size, data_size)"
  shows "(\<exists>e w. loopback_main os args v = Some (Inl (TimeoutError e), w))
    \<or> (\<exists>report captured w. loopback_run os args st desc_size data_size v = Some (Inr (report, captured), w)
        \<and> length captured = nat (lb_packet_count args * sample_stride args)
        \<and> loopback_main os args v = Some (if lr_completed report \<and> lr_tx_pkts report = lb_packet_count args \<and> lr_drop_pkts report = 0
              \<and> lr_late_pkts report = 0 \<and> lr_stall_events report = 0 \<and> lb_packet_count args \<le> lr_rx_pkts report
              \<and> lr_rx_errors report = 0 \<and> lr_axi_errors report = 0
              \<and> (\<forall>i < nat (lb_packet_count args). sample_of args captured i = frame_start args i)
            then Inr report else Inl (SystemExit ''FAIL: loopback RX verification failed''), w))"
proof -
  have "0 \<le> sample_stride args" using checked by (simp add: sample_stride_def)
  from spec_outcome [OF live_device.loopback_run_ends [OF device n this, of st desc_size data_size] TrueI, of v]
  consider e w where "loopback_run os args st desc_size data_size v = Some (Inl (TimeoutError e), w)"
    | report captured w where "loopback_run os args st desc_size data_size v = Some (Inr (report, captured), w)"
      "length captured = nat (lb_packet_count args * sample_stride args)"
    by fastforce
  then show ?thesis
  proof cases
    case 1
    then have "loopback_main os args v = Some (Inl (TimeoutError e), w)"
      by (simp add: loopback_main_run [OF checked trace] bind_io_def)
    then show ?thesis by blast
  next
    case 2
    have "loopback_main os args v = Some (if loopback_fails args report (find_mismatches args captured)
        then Inl (SystemExit ''FAIL: loopback RX verification failed'') else Inr report, w)"
      using 2 by (simp add: loopback_main_run [OF checked trace] bind_io_def ret_def raise_def del: append_Cons)
    then show ?thesis
      by (intro disjI2 exI [of _ report] exI [of _ captured] exI [of _ w])
        (use 2 in \<open>auto simp: loopback_fails_def find_mismatches_Nil [OF checked n]\<close>)
  qed
qed

definition demo_loopback :: loopback_args where
  "demo_loopback = \<lparr> lb_tx_port = 0, lb_rx_port = 1, lb_desc_base = 0x4000000, lb_data_base = 0x14000000, lb_rx_ring_base = 0x32000000,
     lb_rx_ring_size = 0x100000, lb_truncate_bytes = 64, lb_packet_count = 2, lb_frame_len = 128, lb_gap_ticks = 2000,
     lb_force_link_up = True, lb_force_tx_ready = False, lb_timeout = 30 \<rparr>"

theorem loopback_verdict_witness:
  "\<exists>r w. loopback_main (board_os demo_hw) demo_loopback demo_board = Some (r, w)"
proof -
  have "pattern_fits (lb_packet_count demo_loopback) [(lb_frame_len demo_loopback, lb_gap_ticks demo_loopback)]"
    by (simp add: demo_loopback_def pattern_fits_def pattern_ok_def align_up_def)
  from make_mixed_trace_files [OF this] obtain st d e where t: "make_mixed_trace (lb_packet_count demo_loopback) [(lb_frame_len demo_loopback, lb_gap_ticks demo_loopback)] = Inr (st, d, e)"
    by (auto simp: demo_loopback_def)
  have "0 < checked_bytes demo_loopback" "0 \<le> lb_packet_count demo_loopback" by (simp_all add: checked_bytes_def demo_loopback_def)
  from loopback_verdict [OF live.live_device_axioms this t, of demo_hw demo_board] show ?thesis by blast
qed

section \<open>On the capture core\<close>

text \<open>After a clear the wait for it ends at the first poll, whatever the core was doing before.\<close>

lemma core_clock [io_simps]: "bind_io (perf_counter (rx_os base)) f r = f 0 r"
  by (simp add: perf_counter_def rx_os_def bind_io_def)

lemma wait_rx_cleared_core: "wait_rx_cleared (rx_os base) base 2 (rx_clear_core r) = Some (Inr (), rx_clear_core r)"
proof -
  have d: "fl (0 + 2) = 2" using fl_of_int [of 2] by simp
  have "writer_state (after_clear 0x04 r) = 0" "busy_bits (after_clear 0x04 r) = 0"
    by (simp_all add: after_clear_def writer_state_def busy_bits_def)
  then show ?thesis
    unfolding wait_rx_cleared_def core_clock Let_def d
    by (subst loop_io.simps) (simp add: core_clock rx_bind rx_read_cleared, simp add: after_clear_def ret_def)
qed

end
