(* ===== verification/IntervalCheck.thy ===== *)
theory IntervalCheck
  imports LoopbackVerify LoadTrace
begin

text \<open>
  rx_trace_interval_check.py: replay a descriptor trace over the loopback, read the ring of inter-packet
  gaps of the receive core, and compare each received gap with the descriptor gap of the same packet.
\<close>

section \<open>Arguments and files\<close>

text \<open>The manifest is its directory and its four entries.\<close>

record interval_manifest =
  im_parent :: string
  im_descriptor_file :: "string option"
  im_data_file :: "string option"
  im_packet_count :: "int option"
  im_tick_hz :: "int option"

record interval_args =
  it_tx_port :: nat
  it_rx_port :: nat
  it_manifest :: "interval_manifest option"
  it_desc :: "string option"
  it_data :: "string option"
  it_desc_base :: int
  it_data_base :: int
  it_packet_count :: "int option"
  it_tx_tick_hz :: int
  it_rx_tick_hz :: int
  it_rate_q16_16 :: int
  it_force_link_up :: bool
  it_force_tx_ready :: bool
  it_max_samples :: int
  it_max_error_ns :: rat
  it_timeout :: rat
  it_chunk_bytes :: int

definition resolve_path :: "(string \<Rightarrow> bytes option) \<Rightarrow> string option \<Rightarrow> string \<Rightarrow> string option" where
  "resolve_path fs path_text parent = (case path_text of
     None \<Rightarrow> None
   | Some path \<Rightarrow>
       if path = [] then None
       else if fs path \<noteq> None then Some path
       else let candidate = path_join parent (basename path) in
            if fs candidate \<noteq> None then Some candidate else Some path)"

definition interval_load_manifest :: "(string \<Rightarrow> bytes option) \<Rightarrow> interval_args \<Rightarrow> interval_args" where
  "interval_load_manifest fs args = (case it_manifest args of
     None \<Rightarrow> args
   | Some m \<Rightarrow>
       let args = (if it_desc args = None then args\<lparr>it_desc := resolve_path fs (im_descriptor_file m) (im_parent m)\<rparr> else args);
           args = (if it_data args = None then args\<lparr>it_data := resolve_path fs (im_data_file m) (im_parent m)\<rparr> else args);
           args = (if it_packet_count args = None \<and> im_packet_count m \<noteq> None then args\<lparr>it_packet_count := im_packet_count m\<rparr> else args)
       in (case im_tick_hz m of None \<Rightarrow> args | Some hz \<Rightarrow> args\<lparr>it_tx_tick_hz := hz\<rparr>))"

definition read_descriptors :: "bytes \<Rightarrow> int option \<Rightarrow> desc list res" where
  "read_descriptors desc_bytes packet_count =
    (if length desc_bytes mod 64 \<noteq> 0
     then Inl (SystemExit (''descriptor file size must be a multiple of 64: '' @ show_int (int (length desc_bytes))))
     else let available = int (length desc_bytes div 64);
              count = (case packet_count of None \<Rightarrow> available | Some n \<Rightarrow> min n available)
          in Inr (map (\<lambda>pkt_idx. unpack_QIHH (pyslice (pkt_idx * 64) (pkt_idx * 64 + 16) desc_bytes)) [0..<nat count]))"

definition trace_data_bytes :: "desc list \<Rightarrow> int" where
  "trace_data_bytes descs = fold (\<lambda>d high. max high (d_data_word_offset d * 64 + align_up (d_frame_len d) 64)) descs 0"

definition pwrite_file_limited :: "'w os \<Rightarrow> string \<Rightarrow> bytes \<Rightarrow> int \<Rightarrow> int \<Rightarrow> int \<Rightarrow> ('w, unit) io" where
  "pwrite_file_limited os path bs addr limit chunk_bytes = loop_io (\<lambda>offset.
     if int offset < limit then
       bind_io (lift_res (fh_read (min chunk_bytes (limit - int offset)) (drop offset bs))) (\<lambda>chunk.
       if chunk = [] then raise (RuntimeError (path @ '' ended before '' @ show_int limit @ '' bytes''))
       else seq_io (write_chunk_file os chunk (addr + int offset)) (ret (Continue (offset + length chunk))))
     else ret (Break ())) 0"

section \<open>The receive port\<close>

definition read64_retry :: "'w os \<Rightarrow> int \<Rightarrow> int \<Rightarrow> ('w, int) io" where
  "read64_retry os lo hi =
     bind_io (read32 os hi) (\<lambda>hi0.
     bind_io (read32 os lo) (\<lambda>lo0.
     bind_io (read32 os hi) (\<lambda>hi1.
     bind_io (if hi0 \<noteq> hi1 then read32 os lo else ret lo0) (\<lambda>lo0.
     ret (lo0 OR push_bit 32 hi1)))))"

definition wait_stats_cleared :: "'w os \<Rightarrow> int \<Rightarrow> rat \<Rightarrow> ('w, unit) io" where
  "wait_stats_cleared os base timeout = bind_io (perf_counter os) (\<lambda>t0. let deadline = fl (t0 + timeout) in
     loop_io (\<lambda>seen. bind_io (perf_counter os) (\<lambda>t.
       if t < deadline then
         bind_io (read32 os (base + 0x04)) (\<lambda>status.
         bind_io (read32 os (base + 0x20)) (\<lambda>write_ptr.
         bind_io (read64_retry os (base + 0x30) (base + 0x34)) (\<lambda>rx_pkts.
         bind_io (read64_retry os (base + 0x38) (base + 0x3c)) (\<lambda>rx_bytes.
         bind_io (read64_retry os (base + 0x40) (base + 0x44)) (\<lambda>rx_errors.
         bind_io (read64_retry os (base + 0x64) (base + 0x68)) (\<lambda>gap_count.
         bind_io (read32 os (base + 0x98)) (\<lambda>sample_count.
         bind_io (read32 os (base + 0xa4)) (\<lambda>sample_wr.
           if writer_state status = 0 \<and> busy_bits status = 0 \<and> write_ptr = 0 \<and> rx_pkts = 0 \<and> rx_bytes = 0 \<and> rx_errors = 0
              \<and> gap_count = 0 \<and> sample_count = 0 \<and> sample_wr = 0
           then ret (Break ())
           else seq_io (sleep os (1 / 100)) (ret (Continue
                  (Some [status, write_ptr, rx_pkts, rx_bytes, rx_errors, gap_count, sample_count, sample_wr])))))))))))
       else raise (TimeoutError (''RX clear did not settle: '' @ show_last seen)))) None)"

definition configure_rx_stats :: "'w os \<Rightarrow> int \<Rightarrow> ('w, unit) io" where
  "configure_rx_stats os base =
     seq_io (write32 os (base + 0x00) 0x0)
    (seq_io (write32 os (base + 0x00) 0x2)
    (seq_io (wait_stats_cleared os base 2)
    (seq_io (write32 os (base + 0x18) 0)
    (seq_io (write32 os (base + 0x1c) 0)
    (seq_io (write32 os (base + 0x00) 0x2)
    (seq_io (wait_stats_cleared os base 2)
    (write32 os (base + 0x00) 0x1)))))))"

definition wait_rx_packets :: "'w os \<Rightarrow> int \<Rightarrow> int \<Rightarrow> rat \<Rightarrow> ('w, unit) io" where
  "wait_rx_packets os base expected_packets timeout = bind_io (perf_counter os) (\<lambda>t0. let deadline = fl (t0 + timeout) in
     loop_io (\<lambda>_. bind_io (perf_counter os) (\<lambda>t.
       if t < deadline then
         bind_io (read64_retry os (base + 0x30) (base + 0x34)) (\<lambda>rx_pkts.
         if expected_packets \<le> rx_pkts then ret (Break ())
         else seq_io (sleep os (1 / 100)) (ret (Continue ())))
       else ret (Break ()))) ())"

definition read_gap_sample :: "'w os \<Rightarrow> int \<Rightarrow> int \<Rightarrow> ('w, int) io" where
  "read_gap_sample os base index =
     seq_io (write32 os (base + 0x94) index) (read64_retry os (base + 0x9c) (base + 0xa0))"

definition read_gap_window :: "'w os \<Rightarrow> int \<Rightarrow> int \<Rightarrow> int \<Rightarrow> ('w, int list) io" where
  "read_gap_window os base sample_count write_index =
    (let start = (write_index - sample_count) mod 4096 in
     for_io [0..<nat sample_count] (\<lambda>i samples.
       bind_io (read_gap_sample os base ((start + int i) mod 4096)) (\<lambda>x. ret (samples @ [x]))) [])"

section \<open>The comparison\<close>

record interval_row =
  row_sample_index :: nat
  row_desc_index :: int
  row_tx_gap_ticks :: int
  row_rx_gap_cycles :: int
  row_expected_ns :: rat
  row_rx_gap_ns :: rat
  row_error_ns :: rat

text \<open>The least and the greatest error start at plus and minus infinity, here \<open>None\<close>.\<close>

record interval_stats =
  st_rows :: "interval_row list"
  st_sum_err_ns :: rat
  st_max_abs_err_ns :: rat
  st_min_err_ns :: "rat option"
  st_max_err_ns :: "rat option"
  st_mismatches :: int

definition ticks_to_ns :: "int \<Rightarrow> int \<Rightarrow> rat res" where
  "ticks_to_ns n tick_hz = (if tick_hz = 0 then Inl ZeroDivisionError
     else Inr (fl (fl (fl (of_int n) * 1000000000) / fl (of_int tick_hz))))"

definition compare_gap :: "interval_args \<Rightarrow> desc list \<Rightarrow> int \<Rightarrow> nat \<times> int \<Rightarrow> interval_stats \<Rightarrow> interval_stats res" where
  "compare_gap args descs first_desc_index = (\<lambda>(sample_idx, rx_gap_cycles) st.
     let desc_index = first_desc_index + int sample_idx;
         tx_gap_ticks = d_gap_ticks (descs ! nat desc_index) in
     bind_res (ticks_to_ns tx_gap_ticks (it_tx_tick_hz args)) (\<lambda>expected_ns.
     bind_res (ticks_to_ns rx_gap_cycles (it_rx_tick_hz args)) (\<lambda>rx_gap_ns.
     let err_ns = fl (rx_gap_ns - expected_ns); abs_err_ns = \<bar>err_ns\<bar> in
     Inr \<lparr> st_rows = st_rows st @ [\<lparr> row_sample_index = sample_idx, row_desc_index = desc_index, row_tx_gap_ticks = tx_gap_ticks,
             row_rx_gap_cycles = rx_gap_cycles, row_expected_ns = expected_ns, row_rx_gap_ns = rx_gap_ns, row_error_ns = err_ns \<rparr>],
           st_sum_err_ns = fl (st_sum_err_ns st + err_ns),
           st_max_abs_err_ns = max (st_max_abs_err_ns st) abs_err_ns,
           st_min_err_ns = Some (case st_min_err_ns st of None \<Rightarrow> err_ns | Some m \<Rightarrow> min m err_ns),
           st_max_err_ns = Some (case st_max_err_ns st of None \<Rightarrow> err_ns | Some m \<Rightarrow> max m err_ns),
           st_mismatches = (if it_max_error_ns args < abs_err_ns then st_mismatches st + 1 else st_mismatches st) \<rparr>)))"

definition no_stats :: interval_stats where
  "no_stats = \<lparr> st_rows = [], st_sum_err_ns = 0, st_max_abs_err_ns = 0, st_min_err_ns = None, st_max_err_ns = None, st_mismatches = 0 \<rparr>"

definition compare_gaps :: "interval_args \<Rightarrow> desc list \<Rightarrow> int \<Rightarrow> int list \<Rightarrow> interval_stats res" where
  "compare_gaps args descs first_desc_index cycles =
     fold_res (compare_gap args descs first_desc_index) (zip [0..<length cycles] cycles) no_stats"

section \<open>The program\<close>

record interval_report =
  ir_completed :: bool
  ir_wall_seconds :: rat
  ir_tx_pkts :: int
  ir_drop_pkts :: int
  ir_late_pkts :: int
  ir_underrun_pkts :: int
  ir_rx_pkts :: int
  ir_rx_bytes :: int
  ir_rx_errors :: int
  ir_axi_errors :: int
  ir_gap_count :: int
  ir_gap_sum :: int
  ir_gap_min :: int
  ir_gap_max :: int
  ir_gap_last :: int
  ir_tick :: int
  ir_sample_available :: int
  ir_sample_wr :: int

definition interval_counters :: "'w os \<Rightarrow> int \<Rightarrow> int \<Rightarrow> bool \<Rightarrow> rat \<Rightarrow> ('w, interval_report) io" where
  "interval_counters os tx_base rx_base completed wall_seconds =
     bind_io (read64 os (tx_base + 0x60) (tx_base + 0x64)) (\<lambda>tx_pkts.
     bind_io (read64 os (tx_base + 0xc8) (tx_base + 0xcc)) (\<lambda>drop_pkts.
     bind_io (read64 os (tx_base + 0x70) (tx_base + 0x74)) (\<lambda>late_pkts.
     bind_io (read64 os (tx_base + 0x78) (tx_base + 0x7c)) (\<lambda>underrun_pkts.
     bind_io (read64_retry os (rx_base + 0x30) (rx_base + 0x34)) (\<lambda>rx_pkts.
     bind_io (read64_retry os (rx_base + 0x38) (rx_base + 0x3c)) (\<lambda>rx_bytes.
     bind_io (read64_retry os (rx_base + 0x40) (rx_base + 0x44)) (\<lambda>rx_errors.
     bind_io (read64_retry os (rx_base + 0x58) (rx_base + 0x5c)) (\<lambda>axi_errors.
     bind_io (read64_retry os (rx_base + 0x64) (rx_base + 0x68)) (\<lambda>gap_count.
     bind_io (read64_retry os (rx_base + 0x6c) (rx_base + 0x70)) (\<lambda>gap_sum.
     bind_io (read64_retry os (rx_base + 0x74) (rx_base + 0x78)) (\<lambda>gap_min.
     bind_io (read64_retry os (rx_base + 0x7c) (rx_base + 0x80)) (\<lambda>gap_max.
     bind_io (read64_retry os (rx_base + 0x84) (rx_base + 0x88)) (\<lambda>gap_last.
     bind_io (read64_retry os (rx_base + 0x8c) (rx_base + 0x90)) (\<lambda>tick.
     bind_io (read32 os (rx_base + 0x98)) (\<lambda>sample_available.
     bind_io (read32 os (rx_base + 0xa4)) (\<lambda>sample_wr.
     ret \<lparr> ir_completed = completed, ir_wall_seconds = wall_seconds, ir_tx_pkts = tx_pkts, ir_drop_pkts = drop_pkts,
       ir_late_pkts = late_pkts, ir_underrun_pkts = underrun_pkts, ir_rx_pkts = rx_pkts, ir_rx_bytes = rx_bytes,
       ir_rx_errors = rx_errors, ir_axi_errors = axi_errors, ir_gap_count = gap_count, ir_gap_sum = gap_sum,
       ir_gap_min = gap_min, ir_gap_max = gap_max, ir_gap_last = gap_last, ir_tick = tick,
       ir_sample_available = sample_available, ir_sample_wr = sample_wr \<rparr>))))))))))))))))"

definition interval_run_args :: "interval_args \<Rightarrow> int \<Rightarrow> run_args" where
  "interval_run_args args packet_count = \<lparr> ra_desc_base = it_desc_base args, ra_data_base = it_data_base args,
     ra_packet_count = packet_count, ra_rate_q16_16 = it_rate_q16_16 args, ra_force_link_up = it_force_link_up args,
     ra_force_tx_ready = it_force_tx_ready args, ra_no_auto_drop = False \<rparr>"

text \<open>How many samples are compared, and the descriptor of the first one.\<close>

definition compare_count_of :: "interval_args \<Rightarrow> interval_report \<Rightarrow> int \<Rightarrow> int" where
  "compare_count_of args r packet_count =
     min (min (min (min (ir_sample_available r) (it_max_samples args)) (ir_gap_count r)) (packet_count - 1)) 4096"

definition first_desc_of :: "interval_report \<Rightarrow> int \<Rightarrow> int" where
  "first_desc_of r compare_count = ir_gap_count r - compare_count + 1"

text \<open>The run on the hardware: the counters and the samples.\<close>

definition interval_run :: "'w os \<Rightarrow> interval_args \<Rightarrow> string \<Rightarrow> bytes \<Rightarrow> string \<Rightarrow> bytes \<Rightarrow> int \<Rightarrow> int \<Rightarrow> int
    \<Rightarrow> ('w, interval_report \<times> int list) io" where
  "interval_run os args desc_path desc_bytes data_path data_bytes packet_count desc_size data_size =
    (let tx_base = tx_port_base (it_tx_port args); rx_base = rx_base_of (it_rx_port args) in
     seq_io (pwrite_file_limited os desc_path desc_bytes (it_desc_base args) desc_size (it_chunk_bytes args))
    (seq_io (pwrite_file_limited os data_path data_bytes (it_data_base args) data_size (it_chunk_bytes args))
    (seq_io (configure_rx_stats os rx_base)
    (seq_io (configure_and_start os tx_base (interval_run_args args packet_count) desc_size data_size)
    (bind_io (wait_done os tx_base packet_count (it_timeout args)) (\<lambda>(completed, wall_seconds).
     seq_io (wait_rx_packets os rx_base packet_count (min 2 (it_timeout args)))
    (seq_io (sleep os (1 / 5))
    (bind_io (interval_counters os tx_base rx_base completed wall_seconds) (\<lambda>r.
     let compare_count = compare_count_of args r packet_count in
     if compare_count \<le> 0
     then raise (SystemExit ''no RX gap samples are available; rebuild/program a bitstream with gap sample support'')
     else bind_io (read_gap_window os rx_base compare_count (ir_sample_wr r)) (\<lambda>samples. ret (r, samples)))))))))))"

definition interval_fails :: "interval_report \<Rightarrow> interval_stats \<Rightarrow> int \<Rightarrow> bool" where
  "interval_fails r st packet_count \<longleftrightarrow> \<not> ir_completed r \<or> ir_tx_pkts r \<noteq> packet_count \<or> ir_drop_pkts r \<noteq> 0
     \<or> ir_late_pkts r \<noteq> 0 \<or> ir_underrun_pkts r \<noteq> 0 \<or> ir_rx_pkts r < packet_count \<or> ir_rx_errors r \<noteq> 0
     \<or> ir_axi_errors r \<noteq> 0 \<or> ir_gap_count r < packet_count - 1 \<or> st_mismatches st \<noteq> 0"

text \<open>From the samples to the verdict.\<close>

definition interval_verdict :: "interval_args \<Rightarrow> desc list \<Rightarrow> interval_report \<Rightarrow> int list
    \<Rightarrow> (interval_report \<times> interval_stats \<times> rat \<times> rat) res" where
  "interval_verdict args descs r cycles =
    (let packet_count = int (length descs); compare_count = compare_count_of args r packet_count;
         first_desc_index = first_desc_of r compare_count in
     if first_desc_index < 1 \<or> int (length descs) < first_desc_index + compare_count
     then Inl (SystemExit (''cannot map RX sample window to descriptor gaps: first_desc_index='' @ show_int first_desc_index
            @ '' compare_count='' @ show_int compare_count @ '' desc_count='' @ show_int (int (length descs))
            @ '' rx_gap_count='' @ show_int (ir_gap_count r)))
     else bind_res (compare_gaps args descs first_desc_index cycles) (\<lambda>st.
          let avg_err_ns = fl (st_sum_err_ns st / fl (of_int compare_count)) in
          bind_res (gap_average (ir_gap_sum r) (ir_gap_count r)) (\<lambda>rx_gap_avg.
          if interval_fails r st packet_count then Inl (SystemExit ''FAIL: RX trace interval check failed'')
          else Inr (r, st, avg_err_ns, rx_gap_avg))))"

definition interval_main :: "'w os \<Rightarrow> (string \<Rightarrow> bytes option) \<Rightarrow> interval_args \<Rightarrow> ('w, interval_report \<times> interval_stats \<times> rat \<times> rat) io" where
  "interval_main os fs args0 =
    (let args = interval_load_manifest fs args0 in
     bind_io (lift_res (require_file fs (it_desc args) ''--desc'')) (\<lambda>desc_bytes.
     bind_io (lift_res (require_file fs (it_data args) ''--data'')) (\<lambda>data_bytes.
     bind_io (lift_res (read_descriptors desc_bytes (it_packet_count args))) (\<lambda>descs.
     if length descs < 2 then raise (SystemExit ''at least two packets are required for interval checking'')
     else let packet_count = int (length descs); desc_size = packet_count * 64; data_size = trace_data_bytes descs in
          if int (length data_bytes) < data_size
          then raise (SystemExit (''data file is shorter than descriptor references: need '' @ show_int data_size))
          else bind_io (interval_run os args (the (it_desc args)) desc_bytes (the (it_data args)) data_bytes
                 packet_count desc_size data_size) (\<lambda>(r, samples).
               lift_res (interval_verdict args descs r samples))))))"

section \<open>The window of samples\<close>

lemma rx_retry: "bind_io (read64_retry (rx_os base) (base + lo) (base + hi)) f r = f (rx_read lo r OR push_bit 32 (rx_read hi r)) r"
  by (simp add: read64_retry_def bind_io_def rx_read32 ret_def)

lemma gap_sample_core:
  assumes "0 \<le> i" and "i < 4096"
  shows "bind_io (read_gap_sample (rx_os base) base i) f r
     = f (uint (slot (rc_gap_old r) (rc_gaps r) 4096 (nat i))) (r\<lparr>rc_gap_sel := word_of_int i\<rparr>)"
proof -
  let ?r = "r\<lparr>rc_gap_sel := word_of_int i\<rparr>" and ?x = "uint (slot (rc_gap_old r) (rc_gaps r) 4096 (nat i))"
  have t: "take_bit 32 i = i" using assms by (simp add: take_bit_int_eq_self_iff)
  have w: "rx_write 0x94 (take_bit 32 i) r = ?r" by (simp add: rx_write_def t)
  have u: "unat (word_of_int i :: 12 word) = nat i"
    using assms unat_select(2) [of "nat i"] by (simp add: nat_less_iff)
  have v: "rx_read 0x9c ?r OR push_bit 32 (rx_read 0xa0 ?r) = ?x"
    using split_64 [of ?x] by (simp add: rx_read_def u gap_memory_def GAP_SAMPLE_DEPTH_def)
  show ?thesis
    unfolding read_gap_sample_def bind_io_assoc rx_bind w rx_retry v ..
qed

lemma gap_window_core:
  "\<exists>q. for_io xs (\<lambda>i acc. bind_io (read_gap_sample (rx_os base) base ((start + int i) mod 4096)) (\<lambda>x. ret (acc @ [x]))) acc r
     = Some (Inr (acc @ map (\<lambda>i. uint (slot (rc_gap_old r) (rc_gaps r) 4096 (nat ((start + int i) mod 4096)))) xs), r\<lparr>rc_gap_sel := q\<rparr>)"
proof (induction xs arbitrary: acc r)
  case Nil
  have "r\<lparr>rc_gap_sel := rc_gap_sel r\<rparr> = r" by (cases r) simp
  then show ?case by (intro exI [of _ "rc_gap_sel r"]) (simp add: ret_def)
next
  case (Cons i xs)
  define f where "f = (\<lambda>i acc. bind_io (read_gap_sample (rx_os base) base ((start + int i) mod 4096)) (\<lambda>x. ret (acc @ [x])))"
  define x where "x = uint (slot (rc_gap_old r) (rc_gaps r) 4096 (nat ((start + int i) mod 4096)))"
  let ?r = "r\<lparr>rc_gap_sel := word_of_int ((start + int i) mod 4096)\<rparr>"
  have "f i acc r = Some (Inr (acc @ [x]), ?r)" by (simp add: f_def gap_sample_core ret_def x_def)
  then have step: "for_io (i # xs) f acc r = for_io xs f (acc @ [x]) ?r" by (simp add: bind_io_def)
  show ?case
    using Cons.IH [of "acc @ [x]" ?r] unfolding f_def [symmetric] step by (simp add: x_def)
qed

text \<open>C14: The interval check compares like with like.  On a receive core at rest whose measured gaps all reached
  the sample ring, the window the tool reads is the newest \<^verbatim>\<open>compare_count\<close> gaps in their order, also when the ring
  has wrapped, and the descriptor index it pairs with sample \<open>i\<close> is the packet that ended that gap: counting from
  zero, gap \<open>k\<close> lies before packet \<open>k + 1\<close>.\<close>

theorem interval_window_aligned:
  assumes "rc_measured r = rc_gaps r" and "n \<le> length (rc_gaps r)" and "n \<le> 4096" and "ir_gap_count rep = int (length (rc_measured r))"
  shows "\<exists>window q. read_gap_window (rx_os base) base (int n) (rx_read 0xa4 r) r = Some (Inr window, r\<lparr>rc_gap_sel := q\<rparr>)
     \<and> window = map uint (drop (length (rc_gaps r) - n) (rc_gaps r))
     \<and> (\<forall>i < n. window ! i = uint (rc_gaps r ! (nat (first_desc_of rep (int n) + int i) - 1)))"
proof -
  let ?L = "length (rc_gaps r)" and ?g = "rc_gaps r" and ?old = "rc_gap_old r"
  let ?start = "(rx_read 0xa4 r - int n) mod 4096"
  have wr: "rx_read 0xa4 r = int (?L mod 4096)" by (simp add: rx_read_def GAP_SAMPLE_DEPTH_def)
  have idx: "nat ((?start + int i) mod 4096) = (?L - n + i) mod 4096" if "i < n" for i
  proof -
    have "(?start + int i) mod 4096 = (int ?L - int n + int i) mod 4096"
      unfolding wr by (simp add: mod_simps zmod_int)
    also have "\<dots> = int ((?L - n + i) mod 4096)" using assms(2) by (simp add: zmod_int of_nat_diff algebra_simps)
    finally show ?thesis by simp
  qed
  have at_slot: "slot ?old ?g 4096 (nat ((?start + int i) mod 4096)) = ?g ! (?L - n + i)" if "i < n" for i
    unfolding idx [OF that] by (rule slot_recent) (use that assms in auto)
  obtain q where "read_gap_window (rx_os base) base (int n) (rx_read 0xa4 r) r
      = Some (Inr (map (\<lambda>i. uint (slot ?old ?g 4096 (nat ((?start + int i) mod 4096)))) [0..<n]), r\<lparr>rc_gap_sel := q\<rparr>)"
    using gap_window_core [of "[0..<n]" base ?start "[]" r] by (auto simp: read_gap_window_def Let_def)
  moreover have "map (\<lambda>i. uint (slot ?old ?g 4096 (nat ((?start + int i) mod 4096)))) [0..<n] = map uint (drop (?L - n) (rc_gaps r))"
    using assms(2) at_slot by (intro nth_equalityI) auto
  moreover have "map uint (drop (?L - n) (rc_gaps r)) ! i = uint (rc_gaps r ! (nat (first_desc_of rep (int n) + int i) - 1))" if "i < n" for i
  proof -
    have "nat (first_desc_of rep (int n) + int i) - 1 = ?L - n + i"
      using assms by (simp add: first_desc_of_def)
    then show ?thesis using that assms(2) by simp
  qed
  ultimately show ?thesis by auto
qed

definition demo_gaps :: rx_core where
  "demo_gaps = demo_core\<lparr>rc_measured := [5, 6, 7], rc_gaps := [5, 6, 7]\<rparr>"

definition demo_report :: interval_report where
  "demo_report = \<lparr> ir_completed = True, ir_wall_seconds = 0, ir_tx_pkts = 4, ir_drop_pkts = 0, ir_late_pkts = 0, ir_underrun_pkts = 0,
     ir_rx_pkts = 4, ir_rx_bytes = 0, ir_rx_errors = 0, ir_axi_errors = 0, ir_gap_count = 3, ir_gap_sum = 18, ir_gap_min = 5,
     ir_gap_max = 7, ir_gap_last = 7, ir_tick = 0, ir_sample_available = 3, ir_sample_wr = 3 \<rparr>"

theorem interval_window_aligned_witness:
  "\<exists>q. read_gap_window (rx_os 0x20000) 0x20000 2 (rx_read 0xa4 demo_gaps) demo_gaps = Some (Inr [6, 7], demo_gaps\<lparr>rc_gap_sel := q\<rparr>)"
proof -
  have g: "rc_measured demo_gaps = [5, 6, 7]" "rc_gaps demo_gaps = [5, 6, 7]" by (simp_all add: demo_gaps_def)
  have "\<exists>window q. read_gap_window (rx_os 0x20000) 0x20000 (int 2) (rx_read 0xa4 demo_gaps) demo_gaps = Some (Inr window, demo_gaps\<lparr>rc_gap_sel := q\<rparr>)
     \<and> window = map uint (drop (length (rc_gaps demo_gaps) - 2) (rc_gaps demo_gaps))"
    using interval_window_aligned [of demo_gaps 2 demo_report "0x20000"] by (auto simp: g demo_report_def)
  then show ?thesis by (simp add: g)
qed

section \<open>The run\<close>

context live_device begin

lemma read64_retry_range: "spec (\<lambda>_. True) (read64_retry os lo hi) (\<lambda>x _. True \<and> 0 \<le> x \<and> x < 2 ^ 64) E"
proof -
  have r: "spec (\<lambda>_. True) (read32 os a) (\<lambda>x _. True \<and> 0 \<le> x \<and> x < 2 ^ 32) E" for a
    by (rule late_any, rule spec_conseq [OF read32_takes]) auto
  have last: "spec (\<lambda>_. True) (bind_io (if h \<noteq> h' then read32 os lo else ret l) (\<lambda>l. ret (l OR push_bit 32 h')))
      (\<lambda>x _. True \<and> 0 \<le> x \<and> x < 2 ^ 64) E" if h: "0 \<le> l \<and> l < 2 ^ 32" "0 \<le> h' \<and> h' < 2 ^ 32" for l h h'
  proof (rule spec_bind)
    show "spec (\<lambda>_. True) (if h \<noteq> h' then read32 os lo else ret l) (\<lambda>x _. True \<and> 0 \<le> x \<and> x < 2 ^ 32) E"
      using h r [of lo] by (auto intro!: spec_ret)
    show "spec (\<lambda>_. True \<and> 0 \<le> x \<and> x < 2 ^ 32) (ret (x OR push_bit 32 h')) (\<lambda>x _. True \<and> 0 \<le> x \<and> x < 2 ^ 64) E" for x
    proof (rule spec_ret)
      assume "True \<and> 0 \<le> x \<and> x < 2 ^ 32"
      then have "0 \<le> x OR push_bit 32 h' \<and> x OR push_bit 32 h' < 2 ^ 64" using h by (subst or_push_32; simp)+
      then show "True \<and> 0 \<le> x OR push_bit 32 h' \<and> x OR push_bit 32 h' < 2 ^ 64" by simp
    qed
  qed
  show ?thesis unfolding read64_retry_def
    by (rule spec_bind [OF r], rule spec_assume)+ (rule last)
qed

lemma read64_retry_late: "spec (late T) (read64_retry os lo hi) (\<lambda>_. late T) E"
  unfolding read64_retry_def by (intro bind_late read32_late) (auto intro!: bind_late spec_ret)

lemma wait_stats_cleared_runs: "runs (wait_stats_cleared os base timeout) (\<lambda>e _. \<exists>m. e = TimeoutError m)"
  unfolding wait_stats_cleared_def Let_def
  apply (rule late_any, rule spec_bind [OF clock_late], rule spec_assume, rule deadline_loop)
   apply ((rule bind_late, rule read32_late read64_retry_late)+)
   apply (auto intro!: spec_ret spec_bind [OF sleep_takes] spec_raise)
  done

lemma configure_rx_stats_runs: "runs (configure_rx_stats os base) (\<lambda>e _. \<exists>m. e = TimeoutError m)"
  unfolding configure_rx_stats_def by (intro runs_bind step_runs wait_stats_cleared_runs)

lemma wait_rx_packets_runs: "runs (wait_rx_packets os base n timeout) E"
  unfolding wait_rx_packets_def Let_def
  apply (rule late_any, rule spec_bind [OF clock_late], rule spec_assume, rule deadline_loop)
   apply (rule bind_late [OF read64_retry_late])
   apply (auto intro!: spec_ret spec_bind [OF sleep_takes])
  done

lemma pwrite_file_limited_runs:
  assumes "0 < chunk_bytes" and "chunk_bytes < 2 ^ 63" and "limit \<le> int (length bs)"
  shows "runs (pwrite_file_limited os path bs addr limit chunk_bytes) E"
  unfolding pwrite_file_limited_def
proof (rule late_any, rule spec_conseq [where P' = "\<lambda>_. True" and Q' = "\<lambda>_ _. True" and E' = E])
  show "spec (\<lambda>_. True) (loop_io (\<lambda>offset. if int offset < limit then
       bind_io (lift_res (fh_read (min chunk_bytes (limit - int offset)) (drop offset bs))) (\<lambda>chunk.
       if chunk = [] then raise (RuntimeError (path @ '' ended before '' @ show_int limit @ '' bytes''))
       else seq_io (write_chunk_file os chunk (addr + int offset)) (ret (Continue (offset + length chunk))))
     else ret (Break ())) 0) (\<lambda>_ _. True) E"
  proof (rule spec_loop [where I = "\<lambda>_ _. True" and m = "\<lambda>off _. nat (limit - int off)"])
    fix off v
    let ?chunk = "fh_part (min chunk_bytes (limit - int off)) (drop off bs)"
    show "spec (\<lambda>w. w = v \<and> True) (if int off < limit then
       bind_io (lift_res (fh_read (min chunk_bytes (limit - int off)) (drop off bs))) (\<lambda>chunk.
       if chunk = [] then raise (RuntimeError (path @ '' ended before '' @ show_int limit @ '' bytes''))
       else seq_io (write_chunk_file os chunk (addr + int off)) (ret (Continue (off + length chunk))))
     else ret (Break ()))
     (\<lambda>c w. case c of Continue s' \<Rightarrow> True \<and> nat (limit - int s') < nat (limit - int off) | Break a \<Rightarrow> True) E"
    proof (cases "int off < limit")
      case False
      then show ?thesis by (auto intro!: spec_ret)
    next
      case True
      then have "off < length bs" and ok: "read_size_ok (min chunk_bytes (limit - int off))"
        using assms by (auto simp: read_size_ok_def min_def)
      then have ne: "?chunk \<noteq> []" using fh_part_Nil [OF ok, of "drop off bs"] by simp
      then have "0 < length ?chunk" by simp
      then have "nat (limit - int (off + length ?chunk)) < nat (limit - int off)" using True by linarith
      moreover have chunk: "spec (\<lambda>w. w = v \<and> True) (write_chunk_file os ?chunk (addr + int off)) (\<lambda>_ _. True) E"
        by (rule spec_conseq [OF runs_late [OF write_chunk_late(2)]]) auto
      ultimately show ?thesis unfolding if_P [OF True] fh_read_ok [OF ok] bind_lift_Inr if_not_P [OF ne]
        by (intro spec_bind [OF chunk] spec_ret) simp
    qed
  qed
qed auto

lemma read64_retry_runs: "runs (read64_retry os lo hi) E"
  by (rule spec_conseq [OF read64_retry_range]) auto

lemma interval_counters_range:
  "spec (\<lambda>_. True) (interval_counters os tx_base rx_base completed wall) (\<lambda>r _. 0 \<le> ir_gap_sum r \<and> ir_gap_sum r < 2 ^ 64) E"
  unfolding interval_counters_def
  apply (rule spec_bind [OF runs_late [OF read64_late]])+
  apply (rule spec_bind [OF read64_retry_runs], rule spec_bind [OF read64_retry_runs], rule spec_bind [OF read64_retry_runs],
      rule spec_bind [OF read64_retry_runs], rule spec_bind [OF read64_retry_runs])
  apply (rule spec_bind [OF read64_retry_range], rule spec_assume)
  apply (rule spec_bind [OF read64_retry_runs])+
  apply (rule spec_bind [OF runs_late [OF read32_late]])+
  apply (rule spec_ret, simp)
  done

lemma read_gap_window_length:
  assumes "0 \<le> n"
  shows "spec (\<lambda>_. True) (read_gap_window os base n wr) (\<lambda>cycles _. int (length cycles) = n) E"
proof -
  let ?f = "\<lambda>i acc. bind_io (read_gap_sample os base (((wr - n) mod 4096 + int i) mod 4096)) (\<lambda>x. ret (acc @ [x]))"
  have "spec (\<lambda>_. length ([] :: int list) + length xs = length xs) (for_io xs ?f []) (\<lambda>cycles _. length cycles + length ([] :: nat list) = length xs) E" for xs
  proof (rule spec_for [where I = "\<lambda>ys acc _. length acc + length ys = length xs"])
    fix i ys and acc :: "int list"
    have "spec (\<lambda>_. True) (read_gap_sample os base a) (\<lambda>_ _. True) E" for a
      unfolding read_gap_sample_def by (intro runs_bind step_runs read64_retry_runs)
    then show "spec (\<lambda>_. length acc + length (i # ys) = length xs) (?f i acc) (\<lambda>s' _. length s' + length ys = length xs) E"
      by (rule_tac spec_pure, rule_tac spec_bind) (auto intro!: spec_ret)
  qed
  from this [of "[0..<nat n]"] show ?thesis using assms unfolding read_gap_window_def Let_def
    by (elim spec_conseq) auto
qed

lemma interval_run_ends:
  assumes chunk: "0 < it_chunk_bytes args" "it_chunk_bytes args < 2 ^ 63" and sizes: "desc_size \<le> int (length desc_bytes)" "data_size \<le> int (length data_bytes)"
  shows "spec (\<lambda>_. True) (interval_run os args desc_path desc_bytes data_path data_bytes packet_count desc_size data_size)
    (\<lambda>(r, cycles) _. 0 < compare_count_of args r packet_count \<and> int (length cycles) = compare_count_of args r packet_count
       \<and> 0 \<le> ir_gap_sum r \<and> ir_gap_sum r < 2 ^ 64)
    (\<lambda>e _. (\<exists>m. e = TimeoutError m)
       \<or> e = SystemExit ''no RX gap samples are available; rebuild/program a bitstream with gap sample support'')" (is "spec _ _ ?Q ?E")
proof -
  have clear: "runs (configure_rx_stats os base) ?E" for base
    by (rule spec_conseq [OF configure_rx_stats_runs]) auto
  have read: "spec (\<lambda>_. True \<and> 0 \<le> ir_gap_sum r \<and> ir_gap_sum r < 2 ^ 64) (let compare_count = compare_count_of args r packet_count in
     if compare_count \<le> 0
     then raise (SystemExit ''no RX gap samples are available; rebuild/program a bitstream with gap sample support'')
     else bind_io (read_gap_window os base compare_count (ir_sample_wr r)) (\<lambda>cycles. ret (r, cycles))) ?Q ?E" for r base
  proof (rule spec_assume, cases "compare_count_of args r packet_count \<le> 0")
    case True
    then show "spec (\<lambda>_. True) (let compare_count = compare_count_of args r packet_count in
     if compare_count \<le> 0
     then raise (SystemExit ''no RX gap samples are available; rebuild/program a bitstream with gap sample support'')
     else bind_io (read_gap_window os base compare_count (ir_sample_wr r)) (\<lambda>cycles. ret (r, cycles))) ?Q ?E"
      unfolding Let_def if_P [OF True] by (intro spec_raise) simp
  next
    case False
    assume "0 \<le> ir_gap_sum r \<and> ir_gap_sum r < 2 ^ 64"
    with False show "spec (\<lambda>_. True) (let compare_count = compare_count_of args r packet_count in
     if compare_count \<le> 0
     then raise (SystemExit ''no RX gap samples are available; rebuild/program a bitstream with gap sample support'')
     else bind_io (read_gap_window os base compare_count (ir_sample_wr r)) (\<lambda>cycles. ret (r, cycles))) ?Q ?E"
      unfolding Let_def if_not_P [OF False] by (intro spec_bind [OF read_gap_window_length] spec_ret) auto
  qed
  show ?thesis
    unfolding interval_run_def Let_def
    apply (rule spec_bind [OF pwrite_file_limited_runs [OF chunk sizes(1)]])
    apply (rule spec_bind [OF pwrite_file_limited_runs [OF chunk sizes(2)]])
    apply (rule spec_bind [OF clear], rule spec_bind [OF runs_late [OF configure_and_start_late]])
    apply (rule spec_bind [OF wait_done_runs], rule spec_prod)
    apply (rule spec_bind [OF wait_rx_packets_runs], rule spec_bind [OF runs_late [OF sleep_late]])
    apply (rule spec_bind [OF spec_conseq [OF interval_counters_range]], assumption, erule conjI [OF TrueI], assumption)
    apply (rule read [unfolded Let_def])
    done
qed

end

section \<open>The comparison, in closed form\<close>

definition ns_of :: "int \<Rightarrow> int \<Rightarrow> rat" where
  "ns_of n tick_hz = fl (fl (fl (of_int n) * 1000000000) / fl (of_int tick_hz))"

definition gap_row :: "interval_args \<Rightarrow> desc list \<Rightarrow> int \<Rightarrow> nat \<times> int \<Rightarrow> interval_row" where
  "gap_row args descs first = (\<lambda>(i, rx). let tx = d_gap_ticks (descs ! nat (first + int i)) in
     \<lparr> row_sample_index = i, row_desc_index = first + int i, row_tx_gap_ticks = tx, row_rx_gap_cycles = rx,
       row_expected_ns = ns_of tx (it_tx_tick_hz args), row_rx_gap_ns = ns_of rx (it_rx_tick_hz args),
       row_error_ns = fl (ns_of rx (it_rx_tick_hz args) - ns_of tx (it_tx_tick_hz args)) \<rparr>)"

lemma compare_gaps_rows:
  assumes hz: "it_tx_tick_hz args \<noteq> 0" "it_rx_tick_hz args \<noteq> 0"
  shows "\<exists>st. fold_res (compare_gap args descs first) ps no_stats = Inr st
     \<and> st_rows st = map (gap_row args descs first) ps
     \<and> st_mismatches st = int (length (filter (\<lambda>x. it_max_error_ns args < \<bar>row_error_ns x\<bar>) (st_rows st)))"
proof (induction ps rule: rev_induct)
  case Nil
  show ?case by (simp add: no_stats_def)
next
  case (snoc p ps)
  then show ?case
    by (cases p) (auto simp: fold_res_append compare_gap_def ticks_to_ns_def hz gap_row_def ns_of_def Let_def)
qed

lemma compare_gaps_ok:
  assumes hz: "it_tx_tick_hz args \<noteq> 0" "it_rx_tick_hz args \<noteq> 0"
  shows "\<exists>st. compare_gaps args descs first cycles = Inr st
     \<and> st_rows st = map (\<lambda>i. gap_row args descs first (i, cycles ! i)) [0..<length cycles]
     \<and> (st_mismatches st = 0 \<longleftrightarrow> (\<forall>i < length cycles. \<bar>row_error_ns (gap_row args descs first (i, cycles ! i))\<bar> \<le> it_max_error_ns args))"
proof -
  let ?ps = "zip [0..<length cycles] cycles"
  have ps: "?ps = map (\<lambda>i. (i, cycles ! i)) [0..<length cycles]" by (rule nth_equalityI) simp_all
  obtain st where st: "fold_res (compare_gap args descs first) ?ps no_stats = Inr st" "st_rows st = map (gap_row args descs first) ?ps"
    "st_mismatches st = int (length (filter (\<lambda>x. it_max_error_ns args < \<bar>row_error_ns x\<bar>) (st_rows st)))"
    using compare_gaps_rows [OF hz] by blast
  have rows: "st_rows st = map (\<lambda>i. gap_row args descs first (i, cycles ! i)) [0..<length cycles]"
    using st(2) by (simp add: ps)
  then show ?thesis
    using st(1,3) by (auto simp: compare_gaps_def filter_empty_conv not_less)
qed

definition interval_passes :: "interval_args \<Rightarrow> desc list \<Rightarrow> interval_report \<Rightarrow> int list \<Rightarrow> bool" where
  "interval_passes args descs r cycles \<longleftrightarrow> (let n = int (length descs); first = first_desc_of r (compare_count_of args r n) in
     1 \<le> first \<and> first + compare_count_of args r n \<le> n
     \<and> ir_completed r \<and> ir_tx_pkts r = n \<and> ir_drop_pkts r = 0 \<and> ir_late_pkts r = 0 \<and> ir_underrun_pkts r = 0
     \<and> n \<le> ir_rx_pkts r \<and> ir_rx_errors r = 0 \<and> ir_axi_errors r = 0 \<and> n - 1 \<le> ir_gap_count r
     \<and> (\<forall>i < length cycles. \<bar>row_error_ns (gap_row args descs first (i, cycles ! i))\<bar> \<le> it_max_error_ns args))"

lemma gap_average_ok:
  assumes "0 \<le> s" and "s < 2 ^ 64" and "0 \<le> n"
  shows "\<exists>avg. gap_average s n = Inr avg"
  using scheduled_seconds_ok [of s n 0] assms
  by (cases "s = 0") (auto simp: gap_average_def scheduled_seconds_def py_truediv_def Let_def)

lemma interval_verdict_iff:
  assumes hz: "it_tx_tick_hz args \<noteq> 0" "it_rx_tick_hz args \<noteq> 0" and s: "0 \<le> ir_gap_sum r" "ir_gap_sum r < 2 ^ 64"
    and n: "0 < compare_count_of args r (int (length descs))"
  shows "if interval_passes args descs r cycles then \<exists>out. interval_verdict args descs r cycles = Inr out
    else \<exists>m. interval_verdict args descs r cycles = Inl (SystemExit m)"
proof -
  define n where "n = int (length descs)"
  define c where "c = compare_count_of args r n"
  define first where "first = first_desc_of r c"
  obtain st where st: "compare_gaps args descs first cycles = Inr st"
    "st_mismatches st = 0 \<longleftrightarrow> (\<forall>i < length cycles. \<bar>row_error_ns (gap_row args descs first (i, cycles ! i))\<bar> \<le> it_max_error_ns args)"
    using compare_gaps_ok [OF hz] by blast
  have "0 < ir_gap_count r" using n by (simp add: compare_count_of_def)
  then obtain avg where avg: "gap_average (ir_gap_sum r) (ir_gap_count r) = Inr avg"
    using gap_average_ok [OF s, of "ir_gap_count r"] by auto
  show ?thesis
  proof (cases "first < 1 \<or> n < first + c")
    case True
    then have "\<exists>m. interval_verdict args descs r cycles = Inl (SystemExit m)"
      unfolding interval_verdict_def Let_def n_def [symmetric] c_def [symmetric] first_def [symmetric] if_P [OF True] by blast
    then show ?thesis using True unfolding interval_passes_def Let_def n_def [symmetric] c_def [symmetric] first_def [symmetric] by auto
  next
    case False
    have "interval_verdict args descs r cycles = (if interval_fails r st n then Inl (SystemExit ''FAIL: RX trace interval check failed'')
        else Inr (r, st, fl (st_sum_err_ns st / fl (of_int c)), avg))"
      unfolding interval_verdict_def Let_def n_def [symmetric] c_def [symmetric] first_def [symmetric] if_not_P [OF False] st(1) avg
      by (simp del: append_Cons)
    moreover have "\<not> interval_fails r st n \<longleftrightarrow> interval_passes args descs r cycles"
      using False st(2) unfolding interval_passes_def Let_def n_def [symmetric] c_def [symmetric] first_def [symmetric]
      by (auto simp: interval_fails_def)
    ultimately show ?thesis by auto
  qed
qed

lemma read_descriptors_count:
  assumes "read_descriptors desc_bytes packet_count = Inr descs"
  shows "int (length descs) * 64 \<le> int (length desc_bytes)"
proof -
  have "length descs \<le> length desc_bytes div 64"
    using assms by (auto simp: read_descriptors_def Let_def split: if_splits option.splits)
  then show ?thesis by linarith
qed

text \<open>C24: The interval verdict.  On any device files whose accesses succeed and take time, with readable files that
  hold at least two descriptors and the data they refer to, and a positive chunk size (below \<open>2^63\<close>), the run on
  the hardware ends.  If it raises, that is the timeout of a receive clear or the message that no samples are
  there, and the tool ends with it.  If it returns its counters \<open>r\<close> and samples, these are as many samples as are
  to be compared, at least one, and the tool ends with the verdict on exactly these: it passes if and only if,
  by \<open>r\<close> and the samples, these lie within the trace, the replay completed, all packets were sent and received,
  every counter of losses and errors is zero, and the error of every compared interval, as the floats compute
  it, is within the tolerance; otherwise it exits with a SystemExit.\<close>

theorem interval_check_verdict:
  assumes device: "live_device os now" and args: "args = interval_load_manifest fs args0"
    and files: "require_file fs (it_desc args) ''--desc'' = Inr desc_bytes" "require_file fs (it_data args) ''--data'' = Inr data_bytes"
    and descs: "read_descriptors desc_bytes (it_packet_count args) = Inr descs" "2 \<le> length descs"
    and data: "trace_data_bytes descs \<le> int (length data_bytes)"
    and chunk: "0 < it_chunk_bytes args" "it_chunk_bytes args < 2 ^ 63"
    and hz: "it_tx_tick_hz args \<noteq> 0" "it_rx_tick_hz args \<noteq> 0"
    and run: "run = interval_run os args (the (it_desc args)) desc_bytes (the (it_data args)) data_bytes
       (int (length descs)) (int (length descs) * 64) (trace_data_bytes descs)"
  shows "(\<exists>e w. run v = Some (Inl e, w) \<and> interval_main os fs args0 v = Some (Inl e, w) \<and> ((\<exists>m. e = TimeoutError m)
       \<or> e = SystemExit ''no RX gap samples are available; rebuild/program a bitstream with gap sample support''))
    \<or> (\<exists>r cycles w. run v = Some (Inr (r, cycles), w)
       \<and> int (length cycles) = compare_count_of args r (int (length descs)) \<and> cycles \<noteq> []
       \<and> interval_main os fs args0 v = Some (interval_verdict args descs r cycles, w)
       \<and> (if interval_passes args descs r cycles then \<exists>out. interval_verdict args descs r cycles = Inr out
          else \<exists>m. interval_verdict args descs r cycles = Inl (SystemExit m)))"
proof -
  let ?n = "int (length descs)"
  have main: "interval_main os fs args0 = bind_io run (\<lambda>(r, cycles). lift_res (interval_verdict args descs r cycles))"
  proof -
    have a: "\<not> length descs < 2" "\<not> int (length data_bytes) < trace_data_bytes descs" using descs(2) data by simp_all
    show ?thesis unfolding run interval_main_def Let_def args [symmetric] files descs(1) bind_lift_Inr if_not_P [OF a(1)] if_not_P [OF a(2)] ..
  qed
  from spec_outcome [OF live_device.interval_run_ends [OF device chunk read_descriptors_count [OF descs(1)] data,
        of "the (it_desc args)" "the (it_data args)" ?n, folded run] TrueI, of v]
  show ?thesis
  proof (elim disjE exE conjE)
    fix x w assume "run v = Some (Inr x, w)"
      and q: "(case x of (r, cycles) \<Rightarrow> \<lambda>_. 0 < compare_count_of args r ?n \<and> int (length cycles) = compare_count_of args r ?n
         \<and> 0 \<le> ir_gap_sum r \<and> ir_gap_sum r < 2 ^ 64) w"
    then obtain r cycles where x: "run v = Some (Inr (r, cycles), w)" "0 < compare_count_of args r ?n"
      "int (length cycles) = compare_count_of args r ?n" "0 \<le> ir_gap_sum r" "ir_gap_sum r < 2 ^ 64" by (cases x) auto
    have "interval_main os fs args0 v = Some (interval_verdict args descs r cycles, w)"
      unfolding main bind_io_def x(1) by (simp add: lift_res_def)
    with interval_verdict_iff [OF hz x(4,5,2), of cycles] x
    show ?thesis by (intro disjI2 exI [of _ r] exI [of _ cycles] exI [of _ w]) (auto split: if_splits)
  next
    fix e w m assume "run v = Some (Inl e, w)" "e = TimeoutError m"
    then show ?thesis unfolding main bind_io_def by auto
  next
    fix e w assume "run v = Some (Inl e, w)" "e = SystemExit ''no RX gap samples are available; rebuild/program a bitstream with gap sample support''"
    then show ?thesis unfolding main bind_io_def by auto
  qed
qed

definition demo_desc_file :: bytes where
  "demo_desc_file = (let d = [9, 0, 0, 0, 0, 0, 0, 0, 0, 0, 0, 0, 64, 0, 0, 0] @ replicate 48 0 in d @ d)"

definition demo_interval :: interval_args where
  "demo_interval = \<lparr> it_tx_port = 0, it_rx_port = 1, it_manifest = None, it_desc = Some ''desc.bin'', it_data = Some ''data.bin'',
     it_desc_base = 0x4000000, it_data_base = 0x14000000, it_packet_count = Some 2, it_tx_tick_hz = 300000000,
     it_rx_tick_hz = 322265625, it_rate_q16_16 = 0x10000, it_force_link_up = True, it_force_tx_ready = False,
     it_max_samples = 4096, it_max_error_ns = 80, it_timeout = 60, it_chunk_bytes = 4194304 \<rparr>"

theorem interval_check_verdict_witness:
  "\<exists>r w. interval_main (board_os demo_hw) [''desc.bin'' \<mapsto> demo_desc_file, ''data.bin'' \<mapsto> replicate 64 7] demo_interval demo_board
     = Some (r, w)"
proof -
  let ?fs = "[''desc.bin'' \<mapsto> demo_desc_file, ''data.bin'' \<mapsto> replicate 64 7]"
  let ?d = "\<lparr>d_gap_ticks = 9, d_data_word_offset = 0, d_frame_len = 64, d_flags = 0\<rparr> :: desc"
  have args: "demo_interval = interval_load_manifest ?fs demo_interval" by (simp add: interval_load_manifest_def demo_interval_def)
  have files: "require_file ?fs (it_desc demo_interval) ''--desc'' = Inr demo_desc_file"
    "require_file ?fs (it_data demo_interval) ''--data'' = Inr (replicate 64 7)"
    by (simp_all add: require_file_def demo_interval_def)
  have two: "[0..<2] = [0, 1 :: nat]" by (simp add: upt_rec)
  have descs: "read_descriptors demo_desc_file (it_packet_count demo_interval) = Inr [?d, ?d]"
    by (simp add: read_descriptors_def demo_desc_file_def demo_interval_def unpack_QIHH_def pyslice_def Let_def two)
  have "trace_data_bytes [?d, ?d] \<le> int (length (replicate 64 (7 :: 8 word)))" by (simp add: trace_data_bytes_def align_up_def)
  from interval_check_verdict [OF live.live_device_axioms args files descs _ this _ _ _ _ refl, of demo_hw demo_board] show ?thesis
    by (simp add: demo_interval_def split: if_splits) blast
qed

end
