(* ===== verification/TickReplay.thy ===== *)
theory TickReplay
  imports LoadTrace PyFloat
begin

text \<open>
  tick_replay.py: the front end.  Each of its commands becomes the command lines of the tools, which it
  prints and, unless it is a dry run, starts one after the other.  The property follows the load command
  through the words of its command line and the parser of xdma_load_trace.py down to the card.
\<close>

section \<open>Numbers and words as text\<close>

text \<open>
  \<^verbatim>\<open>str(x)\<close> of a finite float: the digits of the shortest decimal that rounds to \<open>x\<close> (the one nearer to
  \<open>x\<close> if two of that length do), in positional notation for decimal exponents from -4 to 15.
  The search starts at a power of ten above \<open>x\<close>.
\<close>

definition decimal_at :: "rat \<Rightarrow> int \<Rightarrow> int option" where
  "decimal_at x k =
     (let unit = (if 0 \<le> k then 10 ^ nat k else 1 / 10 ^ nat (- k)) :: rat;
          down = \<lfloor>x / unit\<rfloor>; up = \<lceil>x / unit\<rceil>;
          near = (if x / unit - of_int down \<le> of_int up - x / unit then [down, up] else [up, down])
      in find (\<lambda>m. 0 < m \<and> fl (of_int m * unit) = x) near)"

fun shortest_decimal :: "nat \<Rightarrow> rat \<Rightarrow> int \<Rightarrow> (int \<times> int) option" where
  "shortest_decimal 0 x k = None"
| "shortest_decimal (Suc n) x k = (case decimal_at x k of Some m \<Rightarrow> Some (m, k) | None \<Rightarrow> shortest_decimal n x (k - 1))"

definition place_point :: "string \<Rightarrow> int \<Rightarrow> string" where
  "place_point digits k =
     (let n = int (length digits); point = n + k in
      if -4 < point \<and> point \<le> 16
      then (if point \<le> 0 then ''0.'' @ replicate (nat (- point)) (CHR ''0'') @ digits
            else if n \<le> point then digits @ replicate (nat k) (CHR ''0'') @ ''.0''
            else take (nat point) digits @ ''.'' @ drop (nat point) digits)
      else (let e = point - 1 in
            take 1 digits @ (if n = 1 then '''' else ''.'' @ drop 1 digits) @ ''e'' @ (if e < 0 then ''-'' else ''+'')
            @ pad_left 2 (CHR ''0'') (show_int \<bar>e\<bar>)))"

definition show_float :: "rat \<Rightarrow> string" where
  "show_float x =
     (if x = 0 then ''0.0''
      else (if x < 0 then ''-'' else '''') @
           (case shortest_decimal 1400 \<bar>x\<bar> (int (length (show_int \<lceil>\<bar>x\<bar>\<rceil>))) of
              Some (m, k) \<Rightarrow> place_point (show_int m) k | None \<Rightarrow> ''nan''))"

text \<open>\<^verbatim>\<open>shlex.quote\<close>.\<close>

definition safe_char :: "char \<Rightarrow> bool" where
  "safe_char c = (let n = of_char c :: nat in (48 \<le> n \<and> n \<le> 57) \<or> (65 \<le> n \<and> n \<le> 90) \<or> (97 \<le> n \<and> n \<le> 122)
     \<or> c \<in> set ''_@%+=:,./-'')"

definition quote :: "string \<Rightarrow> string" where
  "quote s = (if s = [] then [CHR 0x27, CHR 0x27]
     else if list_all safe_char s then s
     else CHR 0x27 # concat (map (\<lambda>c. if c = CHR 0x27 then [CHR 0x27, CHR 0x22, CHR 0x27, CHR 0x22, CHR 0x27] else [c]) s) @ [CHR 0x27])"

section \<open>Starting tools\<close>

text \<open>
  What the front end finds around it: the interpreter, its own directory, which files exist, and what a
  process it starts does: the exit status and the world afterwards, or \<open>None\<close> when it does not end.
\<close>

record 'w tick_env =
  te_executable :: string
  te_tool_dir :: string
  te_exists :: "string \<Rightarrow> bool"
  te_process :: "string list \<Rightarrow> 'w \<Rightarrow> (int \<times> 'w) option"
  te_dry_run :: bool

definition tool :: "'w tick_env \<Rightarrow> string \<Rightarrow> string res" where
  "tool env name = (let path = path_join (te_tool_dir env) name in
     if \<not> te_exists env path \<and> \<not> te_dry_run env
     then Inl (FileNotFoundError (''required Tick Replayer tool is missing: '' @ path))
     else Inr path)"

text \<open>The value is the printed lines.\<close>

definition run :: "'w tick_env \<Rightarrow> string list \<Rightarrow> ('w, string list) io" where
  "run env command = (let line = ''$ '' @ join '' '' (map quote command) in
     if te_dry_run env then ret [line]
     else (\<lambda>w. case te_process env command w of
             None \<Rightarrow> None
           | Some (code, w') \<Rightarrow> if code = 0 then Some (Inr [line], w') else Some (Inl (CalledProcessError code), w')))"

definition python_tool :: "'w tick_env \<Rightarrow> string \<Rightarrow> string list \<Rightarrow> string list res" where
  "python_tool env name args = bind_res (tool env name) (\<lambda>path. Inr (te_executable env # path # args))"

definition port_bases :: "nat \<Rightarrow> int \<times> int \<times> int" where
  "port_bases port = (if port = 0 then (0x0000000000, 0x0010000000, 0x0020000000) else (0x0400000000, 0x0410000000, 0x0420000000))"

definition run_python :: "'w tick_env \<Rightarrow> string \<Rightarrow> string list \<Rightarrow> ('w, string list) io" where
  "run_python env name args = bind_io (lift_res (python_tool env name args)) (run env)"

abbreviation opt_flag :: "bool \<Rightarrow> string \<Rightarrow> string list" where
  "opt_flag b name \<equiv> (if b then [name] else [])"

section \<open>The commands\<close>

record tick_prepare =
  tp_pcap :: string
  tp_out_dir :: string
  tp_tick_hz :: int
  tp_min_frame :: int
  tp_keep_fcs :: bool

record tick_load =
  tl_manifest :: string
  tl_mode :: load_mode
  tl_port :: nat
  tl_user :: string
  tl_h2c :: string
  tl_desc_base :: "int option"
  tl_data_base :: "int option"
  tl_loop_count :: int
  tl_loop_gap :: int
  tl_start_time :: int
  tl_rate_q16_16 :: int
  tl_arm_only :: bool
  tl_force_link_up :: bool
  tl_force_tx_ready :: bool
  tl_strict :: bool

record tick_stream =
  ts_manifest :: "string option"
  ts_stripe_manifest :: string
  ts_port :: nat
  ts_user :: string
  ts_h2c :: string
  ts_ring_base :: "int option"
  ts_ring_size :: int
  ts_pingpong :: bool
  ts_pingpong_bank1_base :: int
  ts_prefill_bytes :: int
  ts_guard_bytes :: int
  ts_batch_bytes :: int
  ts_read_bytes :: int
  ts_queue_depth :: int
  ts_writer_threads :: int
  ts_reader_threads :: int
  ts_reader_window_blocks :: int
  ts_host_cache_bytes :: "string option"
  ts_host_cache_fraction :: rat
  ts_watermark :: int
  ts_start_time :: int
  ts_start_delay_ms :: rat
  ts_tick_hz :: int
  ts_rate_q16_16 :: int
  ts_sync_enable :: bool
  ts_egress_schedule :: bool
  ts_timeout :: rat
  ts_feed_timeout :: rat
  ts_buffered_read :: bool
  ts_force_link_up :: bool
  ts_force_tx_ready :: bool
  ts_no_wait :: bool

record tick_sync =
  ty_ports :: string
  ty_delay_ms :: rat
  ty_tick_hz :: int
  ty_egress_schedule :: bool
  ty_user :: string

datatype tick_rx = Rx_status | Rx_clear | Rx_enable | Rx_disable | Rx_events int | Rx_histogram "int option"

record tick_ddr =
  td_case :: "string list"
  td_repeat :: int
  td_h2c :: string
  td_c2h :: string

record tick_loopback =
  tb_tx_port :: nat
  tb_rx_port :: nat
  tb_packet_count :: int
  tb_frame_len :: int
  tb_gap_ticks :: int

record tick_precision =
  tc_tx_port :: nat
  tc_rx_port :: nat
  tc_work_dir :: string
  tc_report :: string

record tick_validate =
  tv_profile :: string
  tv_work_dir :: string
  tv_port :: nat
  tv_h2c :: string
  tv_c2h :: string
  tv_user :: string
  tv_rx_port :: nat
  tv_ring_loader :: string
  tv_skip_ddr :: bool
  tv_skip_preload :: bool
  tv_skip_ring :: bool
  tv_skip_rx :: bool
  tv_force_link_up :: bool
  tv_force_tx_ready :: bool

record tick_bench =
  th_h2c :: string
  th_addr :: int
  th_bytes :: int
  th_chunk_bytes :: int
  th_threads :: int
  th_passes :: int

datatype tick_control = Ctl_start | Ctl_stop | Ctl_clear | Ctl_pause | Ctl_resume

text \<open>The arguments of one call; status takes one port, or all (\<open>None\<close>), and the user device.\<close>

datatype tick_cmd =
    Tick_prepare tick_prepare
  | Tick_load tick_load
  | Tick_stream tick_stream
  | Tick_status "nat option" string
  | Tick_control tick_control nat string
  | Tick_sync_start tick_sync
  | Tick_rx nat string tick_rx
  | Tick_verify_ddr tick_ddr
  | Tick_verify_loopback tick_loopback
  | Tick_verify_precision tick_precision
  | Tick_validate tick_validate
  | Tick_benchmark tick_bench

definition show_port :: "nat \<Rightarrow> string" where
  "show_port port = show_int (int port)"

definition mode_word :: "load_mode \<Rightarrow> string" where
  "mode_word mode = (case mode of Preload \<Rightarrow> ''preload'' | Loop \<Rightarrow> ''loop'')"

definition prepare_words :: "tick_prepare \<Rightarrow> string list" where
  "prepare_words a = [tp_pcap a, ''--out-dir'', tp_out_dir a, ''--tick-hz'', show_int (tp_tick_hz a),
     ''--min-frame'', show_int (tp_min_frame a)] @ opt_flag (tp_keep_fcs a) ''--keep-fcs''"

definition load_words :: "tick_load \<Rightarrow> string list" where
  "load_words a = (let (default_desc, default_data, _) = port_bases (tl_port a) in
     [''--manifest'', tl_manifest a, ''--port'', show_port (tl_port a), ''--h2c'', tl_h2c a, ''--user'', tl_user a,
      ''--desc-base'', show_hex (case tl_desc_base a of None \<Rightarrow> default_desc | Some b \<Rightarrow> b),
      ''--data-base'', show_hex (case tl_data_base a of None \<Rightarrow> default_data | Some b \<Rightarrow> b),
      ''--mode'', mode_word (tl_mode a), ''--loop-count'', show_int (tl_loop_count a), ''--loop-gap'', show_int (tl_loop_gap a),
      ''--start-time'', show_int (tl_start_time a), ''--rate-q16-16'', show_hex (tl_rate_q16_16 a)]
     @ opt_flag (tl_arm_only a) ''--no-start''
     @ opt_flag (tl_force_link_up a) ''--force-link-up''
     @ opt_flag (tl_force_tx_ready a) ''--force-tx-ready''
     @ [if tl_strict a then ''--no-auto-drop'' else ''--auto-drop''])"

text \<open>\<^verbatim>\<open>del command[i : i + 2]\<close> at the first occurrence of a word.\<close>

definition drop_option :: "string \<Rightarrow> string list \<Rightarrow> string list" where
  "drop_option name command = takeWhile (\<lambda>w. w \<noteq> name) command @ drop 2 (dropWhile (\<lambda>w. w \<noteq> name) command)"

definition stream_words :: "string \<Rightarrow> tick_stream \<Rightarrow> string list" where
  "stream_words path a = (let (_, _, default_ring) = port_bases (ts_port a);
      command =
       [path, (case ts_manifest a of Some _ \<Rightarrow> ''--manifest'' | None \<Rightarrow> ''--stripe-manifest''),
        (case ts_manifest a of Some m \<Rightarrow> m | None \<Rightarrow> ts_stripe_manifest a),
        ''--port'', show_port (ts_port a), ''--h2c'', ts_h2c a, ''--user'', ts_user a,
        ''--ring-base'', show_hex (case ts_ring_base a of None \<Rightarrow> default_ring | Some b \<Rightarrow> b),
        ''--ring-size'', show_hex (ts_ring_size a), ''--prefill-bytes'', show_hex (ts_prefill_bytes a),
        ''--guard-bytes'', show_hex (ts_guard_bytes a), ''--batch-bytes'', show_hex (ts_batch_bytes a),
        ''--read-bytes'', show_hex (ts_read_bytes a), ''--queue-depth'', show_int (ts_queue_depth a),
        ''--writer-threads'', show_int (ts_writer_threads a), ''--reader-threads'', show_int (ts_reader_threads a),
        ''--reader-window-blocks'', show_int (ts_reader_window_blocks a), ''--watermark'', show_int (ts_watermark a),
        ''--start-time'', show_int (ts_start_time a), ''--tick-hz'', show_int (ts_tick_hz a),
        ''--rate-q16-16'', show_hex (ts_rate_q16_16 a), ''--timeout'', show_float (ts_timeout a),
        ''--feed-timeout'', show_float (ts_feed_timeout a)];
      command = (if ts_pingpong a then command @ [''--pingpong'', ''--pingpong-bank1-base'', show_hex (ts_pingpong_bank1_base a)] else command);
      command = (if ts_start_delay_ms a \<noteq> 0
                 then drop_option ''--start-time'' command @ [''--start-delay-ms'', show_float (ts_start_delay_ms a)] else command)
     in command
        @ opt_flag (ts_sync_enable a) ''--sync-enable''
        @ opt_flag (ts_egress_schedule a) ''--egress-schedule''
        @ (case ts_host_cache_bytes a of None \<Rightarrow> []
           | Some b \<Rightarrow> if b = [] then [] else [''--host-cache-bytes'', b, ''--host-cache-fraction'', show_float (ts_host_cache_fraction a)])
        @ opt_flag (ts_buffered_read a) ''--buffered-read''
        @ opt_flag (ts_force_link_up a) ''--force-link-up''
        @ opt_flag (ts_force_tx_ready a) ''--force-tx-ready''
        @ opt_flag (ts_no_wait a) ''--no-wait'')"

definition port_words :: "string \<Rightarrow> nat \<Rightarrow> string list" where
  "port_words user port = [''--user'', user, ''--port'', show_port port]"

text \<open>The two headings of status start with a line break.\<close>

definition run_status :: "'w tick_env \<Rightarrow> nat option \<Rightarrow> string \<Rightarrow> ('w, string list) io" where
  "run_status env port user =
     for_io (case port of None \<Rightarrow> [0, 1] | Some p \<Rightarrow> [p]) (\<lambda>p out.
       bind_io (run_python env ''traffic_replay_cli.py'' (port_words user p @ [''status''])) (\<lambda>tx.
       bind_io (run_python env ''traffic_replay_cli.py'' (port_words user p @ [''rx-status''])) (\<lambda>rx.
       ret (out @ ['''', ''[port '' @ show_port p @ '' TX]''] @ tx @ ['''', ''[port '' @ show_port p @ '' RX]''] @ rx)))) []"

definition control_word :: "tick_control \<Rightarrow> string" where
  "control_word c = (case c of Ctl_start \<Rightarrow> ''start'' | Ctl_stop \<Rightarrow> ''stop'' | Ctl_clear \<Rightarrow> ''clear''
     | Ctl_pause \<Rightarrow> ''pause'' | Ctl_resume \<Rightarrow> ''resume'')"

definition run_sync_start :: "'w tick_env \<Rightarrow> tick_sync \<Rightarrow> ('w, string list) io" where
  "run_sync_start env a =
     bind_io (lift_res (fold_res (\<lambda>port ports. bind_res (int_auto (strip port)) (\<lambda>p. Inr (ports @ [p]))) (split_on (CHR '','') (ty_ports a)) [])) (\<lambda>ports.
     bind_io (if ty_egress_schedule a
              then for_io ports (\<lambda>port out.
                     bind_io (run_python env ''traffic_replay_cli.py''
                       [''--user'', ty_user a, ''--port'', show_int port, ''egress-schedule'', ''on'']) (\<lambda>lines. ret (out @ lines))) []
              else ret []) (\<lambda>out.
     bind_io (run_python env ''traffic_replay_cli.py''
       [''--user'', ty_user a, ''sync-start'', ''--ports'', ty_ports a, ''--delay-ms'', show_float (ty_delay_ms a),
        ''--tick-hz'', show_int (ty_tick_hz a)]) (\<lambda>lines. ret (out @ lines))))"

definition rx_words :: "nat \<Rightarrow> string \<Rightarrow> tick_rx \<Rightarrow> string list" where
  "rx_words port user c = port_words user port @ (case c of
       Rx_events limit \<Rightarrow> [''rx-events'', ''--limit'', show_int limit]
     | Rx_histogram index \<Rightarrow> ''rx-histogram'' # (case index of None \<Rightarrow> [] | Some i \<Rightarrow> [show_int i])
     | Rx_status \<Rightarrow> [''rx-status''] | Rx_clear \<Rightarrow> [''rx-clear''] | Rx_enable \<Rightarrow> [''rx-enable''] | Rx_disable \<Rightarrow> [''rx-disable''])"

definition ddr_words :: "tick_ddr \<Rightarrow> string list" where
  "ddr_words a = (let cases = (if td_case a \<noteq> [] then td_case a else
       [''0x0000000000:0x100000'', ''0x03fff00000:0x100000'', ''0x0400000000:0x100000'', ''0x07fff00000:0x100000'',
        ''0x0800000000:0x100000'', ''0x0bfff00000:0x100000'', ''0x0c00000000:0x100000'', ''0x0ffff00000:0x100000''])
     in [''--h2c'', td_h2c a, ''--c2h'', td_c2h a, ''--repeat'', show_int (td_repeat a)] @ concat (map (\<lambda>c. [''--case'', c]) cases))"

definition loopback_words :: "tick_loopback \<Rightarrow> string list" where
  "loopback_words a = (let (tx_desc, tx_data, _) = port_bases (tb_tx_port a);
       rx_ring = (if tb_rx_port a = 1 then 0x0C10000000 else 0x0810000000) in
     [''--tx-port'', show_port (tb_tx_port a), ''--rx-port'', show_port (tb_rx_port a), ''--desc-base'', show_hex tx_desc,
      ''--data-base'', show_hex tx_data, ''--rx-ring-base'', show_hex rx_ring, ''--rx-ring-size'', ''0x01000000'',
      ''--truncate-bytes'', show_int (tb_frame_len a), ''--packet-count'', show_int (tb_packet_count a),
      ''--frame-len'', show_int (tb_frame_len a), ''--gap-ticks'', show_int (tb_gap_ticks a)])"

definition precision_words :: "tick_precision \<Rightarrow> string list" where
  "precision_words a = (let (tx_desc, tx_data, _) = port_bases (tc_tx_port a) in
     [''--tx-port'', show_port (tc_tx_port a), ''--rx-port'', show_port (tc_rx_port a), ''--work-dir'', tc_work_dir a,
      ''--desc-base'', show_hex tx_desc, ''--data-base'', show_hex tx_data, ''--timeout'', ''180'', ''--report'', tc_report a])"

definition validate_words :: "tick_validate \<Rightarrow> string list" where
  "validate_words a =
     [''--profile'', tv_profile a, ''--work-dir'', tv_work_dir a, ''--port'', show_port (tv_port a), ''--h2c'', tv_h2c a,
      ''--c2h'', tv_c2h a, ''--user'', tv_user a, ''--rx-port'', show_port (tv_rx_port a), ''--ring-loader'', tv_ring_loader a]
     @ opt_flag (tv_skip_ddr a) ''--skip-ddr'' @ opt_flag (tv_skip_preload a) ''--skip-preload''
     @ opt_flag (tv_skip_ring a) ''--skip-ring'' @ opt_flag (tv_skip_rx a) ''--skip-rx''
     @ opt_flag (tv_force_link_up a) ''--force-link-up'' @ opt_flag (tv_force_tx_ready a) ''--force-tx-ready''"

definition bench_words :: "string \<Rightarrow> tick_bench \<Rightarrow> string list" where
  "bench_words path a = [path, ''--h2c'', th_h2c a, ''--addr'', show_hex (th_addr a), ''--bytes'', show_hex (th_bytes a),
     ''--chunk-bytes'', show_hex (th_chunk_bytes a), ''--threads'', show_int (th_threads a), ''--passes'', show_int (th_passes a)]"

definition dispatch :: "'w tick_env \<Rightarrow> tick_cmd \<Rightarrow> ('w, string list) io" where
  "dispatch env cmd = (case cmd of
     Tick_prepare a \<Rightarrow> run_python env ''pcap2trace.py'' (prepare_words a)
   | Tick_load a \<Rightarrow> run_python env ''xdma_load_trace.py'' (load_words a)
   | Tick_stream a \<Rightarrow> bind_io (lift_res (tool env ''xdma_stream_ring_fast'')) (\<lambda>path. run env (stream_words path a))
   | Tick_status port user \<Rightarrow> run_status env port user
   | Tick_control c port user \<Rightarrow> run_python env ''traffic_replay_cli.py'' (port_words user port @ [control_word c])
   | Tick_sync_start a \<Rightarrow> run_sync_start env a
   | Tick_rx port user c \<Rightarrow> run_python env ''traffic_replay_cli.py'' (rx_words port user c)
   | Tick_verify_ddr a \<Rightarrow> run_python env ''ddr_readback_check.py'' (ddr_words a)
   | Tick_verify_loopback a \<Rightarrow> run_python env ''loopback_rx_verify.py'' (loopback_words a)
   | Tick_verify_precision a \<Rightarrow> run_python env ''replay_precision_suite.py'' (precision_words a)
   | Tick_validate a \<Rightarrow> run_python env ''hw_validation_suite.py'' (validate_words a)
   | Tick_benchmark a \<Rightarrow> bind_io (lift_res (tool env ''xdma_h2c_bench'')) (\<lambda>path. run env (bench_words path a)))"

text \<open>The exit status, with the printed lines; only the caught exceptions become exit status 1.\<close>

definition caught :: "py_error \<Rightarrow> bool" where
  "caught e = (case e of OSError \<Rightarrow> True | FileNotFoundError _ \<Rightarrow> True | TimeoutError _ \<Rightarrow> True | CalledProcessError _ \<Rightarrow> True
     | ValueError _ \<Rightarrow> True | RuntimeError _ \<Rightarrow> True | _ \<Rightarrow> False)"

definition tick_main :: "'w tick_env \<Rightarrow> tick_cmd \<Rightarrow> ('w, int \<times> string list) io" where
  "tick_main env cmd = (\<lambda>w. case dispatch env cmd w of
       None \<Rightarrow> None
     | Some (Inl e, w') \<Rightarrow> if caught e then Some (Inr (1, []), w') else Some (Inl e, w')
     | Some (Inr out, w') \<Rightarrow> Some (Inr (0, out), w'))"

section \<open>The parser of xdma\_load\_trace.py\<close>

text \<open>
  argparse on words whose options are written in full, each followed by its value as a word of its own.  A
  word with a leading minus is a value only if it is a negative decimal integer; the other such words
  argparse would take (a lone minus, decimal fractions, words with blanks) are refused here.
\<close>

definition negative_number :: "string \<Rightarrow> bool" where
  "negative_number w = (case w of [] \<Rightarrow> False
     | c # cs \<Rightarrow> c = CHR ''-'' \<and> cs \<noteq> [] \<and> list_all (\<lambda>d. digit_val 10 d \<noteq> None) cs)"

definition is_value :: "string \<Rightarrow> bool" where
  "is_value w \<longleftrightarrow> w = [] \<or> hd w \<noteq> CHR ''-'' \<or> negative_number w"

definition usage :: "'a res" where
  "usage = Inl (SystemExit ''2'')"

fun read_options :: "string list \<Rightarrow> string list \<Rightarrow> (string \<Rightarrow> string \<Rightarrow> 'a \<Rightarrow> 'a res) \<Rightarrow> string list \<Rightarrow> 'a \<Rightarrow> 'a res" where
  "read_options valued flags put_option [] args = Inr args"
| "read_options valued flags put_option (w # ws) args =
     (if w \<in> set flags then bind_res (put_option w [] args) (read_options valued flags put_option ws)
      else if w \<in> set valued
           then (case ws of [] \<Rightarrow> usage
                 | v # ws' \<Rightarrow> if is_value v then bind_res (put_option w v args) (read_options valued flags put_option ws') else usage)
           else usage)"

text \<open>\<^verbatim>\<open>type=int_auto\<close>, and a port: \<^verbatim>\<open>type=int\<close> with \<^verbatim>\<open>choices=[0, 1]\<close>.\<close>

definition auto_value :: "string \<Rightarrow> int res" where
  "auto_value v = (case int_auto v of Inl e \<Rightarrow> usage | Inr n \<Rightarrow> Inr n)"

definition port_value :: "string \<Rightarrow> nat res" where
  "port_value v = (let s = strip v; t = (if s \<noteq> [] \<and> hd s = CHR ''+'' then tl s else s) in
     case parse_digits 10 t of Some n \<Rightarrow> if n < 2 then Inr n else usage | None \<Rightarrow> usage)"

text \<open>The manifest is still a path here; \<open>la_manifest\<close> is filled in when it is read.\<close>

type_synonym load_line = "string option \<times> load_args"

definition load_line0 :: load_line where
  "load_line0 = (None, \<lparr> la_manifest = None, la_desc = None, la_data = None, la_port = 0, la_reg_base = None,
     la_desc_base = 0x00000000, la_data_base = 0x10000000, la_mode = Preload, la_loop_count = 0, la_loop_gap = 0, la_start_time = 0,
     la_rate_q16_16 = 0x00010000, la_force_link_up = False, la_clear_force_link_up = False, la_force_tx_ready = False,
     la_clear_force_tx_ready = False, la_auto_drop = False, la_no_auto_drop = False, la_no_start = False,
     la_chunk_bytes = 4 * 1024 * 1024 \<rparr>)"

definition load_valued :: "string list" where
  "load_valued = [''--manifest'', ''--desc'', ''--data'', ''--h2c'', ''--user'', ''--port'', ''--reg-base'', ''--desc-base'',
     ''--data-base'', ''--mode'', ''--loop-count'', ''--loop-gap'', ''--start-time'', ''--rate-q16-16'', ''--chunk-bytes'']"

definition load_flags :: "string list" where
  "load_flags = [''--force-link-up'', ''--clear-force-link-up'', ''--force-tx-ready'', ''--clear-force-tx-ready'',
     ''--auto-drop'', ''--no-auto-drop'', ''--no-start'']"

definition load_option :: "string \<Rightarrow> string \<Rightarrow> load_line \<Rightarrow> load_line res" where
  "load_option w v = (\<lambda>(path, a).
     if w = ''--manifest'' then Inr (Some v, a)
     else if w = ''--desc'' then Inr (path, a\<lparr>la_desc := Some v\<rparr>)
     else if w = ''--data'' then Inr (path, a\<lparr>la_data := Some v\<rparr>)
     else if w = ''--h2c'' \<or> w = ''--user'' then Inr (path, a)
     else if w = ''--port'' then bind_res (port_value v) (\<lambda>n. Inr (path, a\<lparr>la_port := n\<rparr>))
     else if w = ''--reg-base'' then bind_res (auto_value v) (\<lambda>n. Inr (path, a\<lparr>la_reg_base := Some n\<rparr>))
     else if w = ''--desc-base'' then bind_res (auto_value v) (\<lambda>n. Inr (path, a\<lparr>la_desc_base := n\<rparr>))
     else if w = ''--data-base'' then bind_res (auto_value v) (\<lambda>n. Inr (path, a\<lparr>la_data_base := n\<rparr>))
     else if w = ''--mode'' then (if v = ''preload'' then Inr (path, a\<lparr>la_mode := Preload\<rparr>)
                                  else if v = ''loop'' then Inr (path, a\<lparr>la_mode := Loop\<rparr>) else usage)
     else if w = ''--loop-count'' then bind_res (auto_value v) (\<lambda>n. Inr (path, a\<lparr>la_loop_count := n\<rparr>))
     else if w = ''--loop-gap'' then bind_res (auto_value v) (\<lambda>n. Inr (path, a\<lparr>la_loop_gap := n\<rparr>))
     else if w = ''--start-time'' then bind_res (auto_value v) (\<lambda>n. Inr (path, a\<lparr>la_start_time := n\<rparr>))
     else if w = ''--rate-q16-16'' then bind_res (auto_value v) (\<lambda>n. Inr (path, a\<lparr>la_rate_q16_16 := n\<rparr>))
     else if w = ''--chunk-bytes'' then bind_res (auto_value v) (\<lambda>n. Inr (path, a\<lparr>la_chunk_bytes := n\<rparr>))
     else if w = ''--force-link-up'' then Inr (path, a\<lparr>la_force_link_up := True\<rparr>)
     else if w = ''--clear-force-link-up'' then Inr (path, a\<lparr>la_clear_force_link_up := True\<rparr>)
     else if w = ''--force-tx-ready'' then Inr (path, a\<lparr>la_force_tx_ready := True\<rparr>)
     else if w = ''--clear-force-tx-ready'' then Inr (path, a\<lparr>la_clear_force_tx_ready := True\<rparr>)
     else if w = ''--auto-drop'' then Inr (path, a\<lparr>la_auto_drop := True\<rparr>)
     else if w = ''--no-auto-drop'' then Inr (path, a\<lparr>la_no_auto_drop := True\<rparr>)
     else if w = ''--no-start'' then Inr (path, a\<lparr>la_no_start := True\<rparr>)
     else usage)"

definition parent_dir :: "string \<Rightarrow> string" where
  "parent_dir p = (if CHR ''/'' \<notin> set p then ''.''
     else let d = rev (tl (dropWhile (\<lambda>c. c \<noteq> CHR ''/'') (rev p))) in if d = [] then ''/'' else d)"

text \<open>The whole program from its words; \<open>manifests\<close> gives the two file names of a readable manifest.\<close>

definition load_program :: "'w os \<Rightarrow> (string \<Rightarrow> bytes option) \<Rightarrow> (string \<Rightarrow> (string \<times> string) option) \<Rightarrow> string list \<Rightarrow> ('w, unit) io" where
  "load_program os fs manifests words =
     bind_io (lift_res (read_options load_valued load_flags load_option words load_line0)) (\<lambda>(path, args).
     case path of
       None \<Rightarrow> load_main os fs args
     | Some p \<Rightarrow> (case manifests p of
         None \<Rightarrow> raise OSError
       | Some (descriptor_file, data_file) \<Rightarrow> load_main os fs (args\<lparr>la_manifest := Some (parent_dir p, descriptor_file, data_file)\<rparr>)))"

text \<open>A Python process: exit status 0, or 1 after any exception.\<close>

definition process :: "('w, 'a) io \<Rightarrow> 'w \<Rightarrow> (int \<times> 'w) option" where
  "process m w = (case m w of None \<Rightarrow> None | Some (Inl e, w') \<Rightarrow> Some (1, w') | Some (Inr x, w') \<Rightarrow> Some (0, w'))"

section \<open>What the loader is asked to do\<close>

definition asked_load :: "tick_load \<Rightarrow> string \<Rightarrow> string \<Rightarrow> load_args" where
  "asked_load a descriptor_file data_file = \<lparr>
     la_manifest = Some (parent_dir (tl_manifest a), descriptor_file, data_file), la_desc = None, la_data = None,
     la_port = tl_port a, la_reg_base = None,
     la_desc_base = (case tl_desc_base a of Some b \<Rightarrow> b | None \<Rightarrow> if tl_port a = 0 then 0 else 16 * 2 ^ 30),
     la_data_base = (case tl_data_base a of Some b \<Rightarrow> b | None \<Rightarrow> if tl_port a = 0 then 2 ^ 28 else 16 * 2 ^ 30 + 2 ^ 28),
     la_mode = tl_mode a, la_loop_count = tl_loop_count a, la_loop_gap = tl_loop_gap a, la_start_time = tl_start_time a,
     la_rate_q16_16 = tl_rate_q16_16 a, la_force_link_up = tl_force_link_up a, la_clear_force_link_up = False,
     la_force_tx_ready = tl_force_tx_ready a, la_clear_force_tx_ready = False, la_auto_drop = \<not> tl_strict a,
     la_no_auto_drop = tl_strict a, la_no_start = tl_arm_only a, la_chunk_bytes = 4194304 \<rparr>"

definition plain_load :: "tick_load \<Rightarrow> bool" where
  "plain_load a \<longleftrightarrow> tl_port a < 2 \<and> is_value (tl_manifest a) \<and> is_value (tl_h2c a) \<and> is_value (tl_user a)
     \<and> 0 \<le> tl_rate_q16_16 a \<and> (\<forall>b. tl_desc_base a = Some b \<longrightarrow> 0 \<le> b) \<and> (\<forall>b. tl_data_base a = Some b \<longrightarrow> 0 \<le> b)"

lemma auto_value_show [simp]: "auto_value (show_int n) = Inr n" "auto_value (show_hex n) = Inr n"
  by (simp_all add: auto_value_def int_auto_show_int int_auto_show_hex)

lemma show_base_digit:
  assumes "c \<in> set (show_base 10 n)"
  shows "\<exists>v. digit_val 10 c = Some v"
proof -
  obtain d where "d < 10" "c = digit_char d" using show_base_chars [OF _ _ assms] by auto
  then show ?thesis using digit_char_facts(1) [of d 10] by simp
qed

lemma is_value_show_int [simp]: "is_value (show_int n)"
proof (cases "n < 0")
  case True
  then show ?thesis
    by (simp add: is_value_def show_int_def negative_number_def list_all_iff show_base_digit)
next
  case False
  obtain c cs where s: "show_base 10 (nat n) = c # cs" by (cases "show_base 10 (nat n)") simp_all
  have "c \<noteq> CHR ''-''" using show_base_no_sign(1) [OF _ _ s] by simp
  with False s show ?thesis by (simp add: is_value_def show_int_def)
qed

lemma is_value_show_hex [simp]: "0 \<le> n \<Longrightarrow> is_value (show_hex n)"
  by (simp add: is_value_def show_hex_def)

lemma port_value_show [simp]: "p < 2 \<Longrightarrow> port_value (show_port p) = Inr p"
proof -
  assume p: "p < 2"
  obtain c cs where s: "show_base 10 p = c # cs" by (cases "show_base 10 p") simp_all
  have "strip (show_base 10 p) = show_base 10 p" using strip_digits [of 10 "[]" p] by simp
  moreover have "c \<noteq> CHR ''+''" using show_base_no_sign(2) [OF _ _ s] by simp
  ultimately show ?thesis using p parse_digits_show [of 10 p] by (simp add: port_value_def show_port_def show_int_def s)
qed

lemma is_value_words [simp]: "is_value (show_port p)" "is_value (mode_word m)"
  by (simp_all add: show_port_def) (cases m; simp add: mode_word_def is_value_def)

lemma read_valued:
  assumes "w \<notin> set flags" and "w \<in> set valued" and "is_value v" and "put_option w v args = Inr args'"
  shows "read_options valued flags put_option (w # v # ws) args = read_options valued flags put_option ws args'"
  using assms by simp

lemma read_flag:
  assumes "w \<in> set flags" and "put_option w [] args = Inr args'"
  shows "read_options valued flags put_option (w # ws) args = read_options valued flags put_option ws args'"
  using assms by simp

lemma load_words_read:
  assumes "plain_load a"
  shows "read_options load_valued load_flags load_option (load_words a) load_line0
     = Inr (Some (tl_manifest a), (asked_load a d e)\<lparr>la_manifest := None\<rparr>)"
proof -
  define db where "db = (case tl_desc_base a of None \<Rightarrow> fst (port_bases (tl_port a)) | Some b \<Rightarrow> b)"
  define eb where "eb = (case tl_data_base a of None \<Rightarrow> fst (snd (port_bases (tl_port a))) | Some b \<Rightarrow> b)"
  have nn: "0 \<le> db" "0 \<le> eb" "0 \<le> tl_rate_q16_16 a" "tl_port a < 2"
    and v: "is_value (tl_manifest a)" "is_value (tl_h2c a)" "is_value (tl_user a)"
    using assms by (auto simp: plain_load_def db_def eb_def port_bases_def split: option.splits)
  have m: "load_option ''--mode'' (mode_word m) (path, args) = Inr (path, args\<lparr>la_mode := m\<rparr>)" for m path args
    by (cases m) (simp_all add: load_option_def mode_word_def)
  have words: "load_words a = [''--manifest'', tl_manifest a, ''--port'', show_port (tl_port a), ''--h2c'', tl_h2c a, ''--user'', tl_user a,
      ''--desc-base'', show_hex db, ''--data-base'', show_hex eb,
      ''--mode'', mode_word (tl_mode a), ''--loop-count'', show_int (tl_loop_count a), ''--loop-gap'', show_int (tl_loop_gap a),
      ''--start-time'', show_int (tl_start_time a), ''--rate-q16-16'', show_hex (tl_rate_q16_16 a)]
     @ opt_flag (tl_arm_only a) ''--no-start'' @ opt_flag (tl_force_link_up a) ''--force-link-up''
     @ opt_flag (tl_force_tx_ready a) ''--force-tx-ready'' @ [if tl_strict a then ''--no-auto-drop'' else ''--auto-drop'']"
    by (cases "port_bases (tl_port a)") (simp add: load_words_def db_def eb_def split: option.split)
  show ?thesis
    unfolding words append_Cons append_Nil load_line0_def
    apply (subst read_valued, (simp add: load_valued_def load_flags_def), (simp add: load_valued_def), (simp add: nn v),
       (rule m | simp add: load_option_def nn))+
    apply (cases "tl_arm_only a"; cases "tl_force_link_up a"; cases "tl_force_tx_ready a"; cases "tl_strict a";
        simp add: load_valued_def load_flags_def load_option_def asked_load_def db_def eb_def port_bases_def split: option.split)
    done
qed

text \<open>C3: Loading through the front end.  For any card behaviour: if the tool is there and its processes are the
  loader's program, the manifest is readable and names two files that exist, the descriptor file is whole, the
  two regions do not overlap and no word looks like an option, then tick-replay load ends with exit status 0;
  the memory holds both files at the chosen addresses (by default the port's own half of the memory), the port is
  configured with the mode, loop count, loop gap, start time, rate and debug flags of the command line,
  automatic dropping is off exactly with --strict, the other port is untouched, and the port has received a
  clear and then, unless --arm-only is given, one start, at which memory and configuration already were as
  described.\<close>

theorem tick_load_programs_card:
  assumes plain: "plain_load a" and live: "\<not> te_dry_run env"
    and script: "script = path_join (te_tool_dir env) ''xdma_load_trace.py''" "te_exists env script"
    and runs: "\<forall>words. te_process env (te_executable env # script # words) = process (load_program (board_os hw) fs manifests words)"
    and manifest: "manifests (tl_manifest a) = Some (d, e)" and args: "args = asked_load a d e"
    and files: "require_file fs (la_desc (load_manifest args)) ''--desc'' = Inr desc" "require_file fs (la_data (load_manifest args)) ''--data'' = Inr data"
    and whole: "length desc mod 64 = 0"
    and apart: "la_desc_base args + int (length desc) \<le> la_data_base args \<or> la_data_base args + int (length data) \<le> la_desc_base args"
  shows "\<exists>out w. tick_main env (Tick_load a) b = Some (Inr (0, out), w)
     \<and> read_mem (c_mem (bd_card w)) (la_desc_base args) (length desc) = desc
     \<and> read_mem (c_mem (bd_card w)) (la_data_base args) (length data) = data
     \<and> c_cfg (bd_card w) = (c_cfg (bd_card b))(tl_port a :=
         loaded_cfg args (int (length desc)) (int (length data)) (c_cfg (bd_card b) (tl_port a)))
     \<and> c_pulses (bd_card w) = c_pulses (bd_card b) @ (tl_port a, Clear) # (if tl_arm_only a then [] else [(tl_port a, Start)])
     \<and> c_starts (bd_card w) = c_starts (bd_card b) @ (if tl_arm_only a then [] else [(tl_port a, c_mem (bd_card w), c_cfg (bd_card w))])"
proof -
  have port: "la_port args = tl_port a" "la_port args < 2" "la_reg_base args = None" "read_size_ok (la_chunk_bytes args)"
    "la_no_start args = tl_arm_only a"
    using plain by (simp_all add: args asked_load_def plain_load_def read_size_ok_def)
  from load_main_loads [OF port(2-4) files whole, of hw b] obtain w where w:
    "load_main (board_os hw) fs args b = Some (Inr (), w)"
    "c_mem (bd_card w) = write_mem (write_mem (c_mem (bd_card b)) (la_desc_base args) desc) (la_data_base args) data"
    "c_cfg (bd_card w) = (c_cfg (bd_card b))(la_port args :=
         loaded_cfg args (int (length desc)) (int (length data)) (c_cfg (bd_card b) (la_port args)))"
    "c_pulses (bd_card w) = c_pulses (bd_card b) @ (la_port args, Clear) # (if la_no_start args then [] else [(la_port args, Start)])"
    "c_starts (bd_card w) = c_starts (bd_card b)
       @ (if la_no_start args then [] else [(la_port args, c_mem (bd_card w), c_cfg (bd_card w))])"
    by blast
  have held: "read_mem (c_mem (bd_card w)) (la_desc_base args) (length desc) = desc"
    "read_mem (c_mem (bd_card w)) (la_data_base args) (length data) = data"
    using apart by (simp_all add: w(2) read_write_mem_other)
  have "args\<lparr>la_manifest := Some (parent_dir (tl_manifest a), d, e)\<rparr> = args" by (simp add: args asked_load_def)
  then have "load_program (board_os hw) fs manifests (load_words a) = load_main (board_os hw) fs args"
    unfolding load_program_def load_words_read [OF plain, of d e] by (simp add: manifest args)
  then have "te_process env (te_executable env # script # load_words a) b = Some (0, w)"
    by (simp add: runs process_def w(1))
  then have "\<exists>out. tick_main env (Tick_load a) b = Some (Inr (0, out), w)"
    using live script by (simp add: tick_main_def dispatch_def run_python_def python_tool_def tool_def run_def Let_def)
  then show ?thesis using held w(3-5) unfolding port by blast
qed

definition demo_tick_load :: tick_load where
  "demo_tick_load = \<lparr> tl_manifest = ''/tmp/trace/manifest.json'', tl_mode = Loop, tl_port = 1, tl_user = ''/dev/xdma0_user'',
     tl_h2c = ''/dev/xdma0_h2c_0'', tl_desc_base = None, tl_data_base = None, tl_loop_count = 7, tl_loop_gap = 0,
     tl_start_time = 0, tl_rate_q16_16 = 0x10000, tl_arm_only = False, tl_force_link_up = True, tl_force_tx_ready = False,
     tl_strict = True \<rparr>"

definition demo_env :: "(string \<Rightarrow> bytes option) \<Rightarrow> board tick_env" where
  "demo_env fs = \<lparr> te_executable = ''/usr/bin/python3'', te_tool_dir = ''/opt/tick'', te_exists = (\<lambda>p. True),
     te_process = (\<lambda>command. process (load_program (board_os demo_hw) fs (\<lambda>p. Some (''desc.bin'', ''data.bin'')) (drop 2 command))),
     te_dry_run = False \<rparr>"

theorem tick_load_programs_card_witness:
  "\<exists>out w. tick_main (demo_env [''/tmp/trace/desc.bin'' \<mapsto> replicate 64 1, ''/tmp/trace/data.bin'' \<mapsto> replicate 64 2])
       (Tick_load demo_tick_load) demo_board = Some (Inr (0, out), w)
     \<and> cfg_desc_base (c_cfg (bd_card w) 1) = 0x400000000 \<and> cfg_loop_count (c_cfg (bd_card w) 1) = 7
     \<and> c_pulses (bd_card w) = [(1, Clear), (1, Start)]"
proof -
  let ?fs = "[''/tmp/trace/desc.bin'' \<mapsto> replicate 64 1, ''/tmp/trace/data.bin'' \<mapsto> replicate 64 2] :: string \<Rightarrow> bytes option"
  let ?args = "asked_load demo_tick_load ''desc.bin'' ''data.bin''"
  have plain: "plain_load demo_tick_load"
    by (simp add: plain_load_def demo_tick_load_def is_value_def)
  have "la_desc (load_manifest ?args) = Some ''/tmp/trace/desc.bin''" "la_data (load_manifest ?args) = Some ''/tmp/trace/data.bin''"
    by code_simp+
  then have files: "require_file ?fs (la_desc (load_manifest ?args)) ''--desc'' = Inr (replicate 64 1)"
    "require_file ?fs (la_data (load_manifest ?args)) ''--data'' = Inr (replicate 64 2)"
    by (simp_all add: require_file_def)
  have env: "\<not> te_dry_run (demo_env ?fs)" "te_exists (demo_env ?fs) (path_join (te_tool_dir (demo_env ?fs)) ''xdma_load_trace.py'')"
    "\<forall>words. te_process (demo_env ?fs) (te_executable (demo_env ?fs) # path_join (te_tool_dir (demo_env ?fs)) ''xdma_load_trace.py'' # words)
       = process (load_program (board_os demo_hw) ?fs (\<lambda>p. Some (''desc.bin'', ''data.bin'')) words)"
    by (simp_all add: demo_env_def)
  have at: "la_desc_base ?args = 0x400000000" "la_data_base ?args = 0x410000000" "la_loop_count ?args = 7" "tl_port demo_tick_load = 1"
    "tl_arm_only demo_tick_load = False"
    by (simp_all add: asked_load_def demo_tick_load_def)
  from tick_load_programs_card [OF plain env(1) refl env(2,3) refl refl files, of demo_board] show ?thesis
    unfolding at by (auto simp: loaded_cfg_def at demo_board_def)
qed

end
