(* ===== verification/DdrCheck.thy ===== *)
theory DdrCheck
  imports LoopbackVerify
begin

text \<open>
  ddr_readback_check.py: write a pattern to each range of the card's memory, read it back, and compare.
  The locale \<open>ddr_device\<close> is a memory whose cells may be faulty: what a read senses of a byte is any
  function of its address and of what was written.  The theorem says which faults the check finds.
\<close>

section \<open>The program\<close>

definition DEFAULT_CASES :: "(int \<times> int) list" where
  "DEFAULT_CASES = [(0x00000000, 4 * 1024), (0x00100000, 64 * 1024), (0x10000000, 1024 * 1024)]"

definition ddr_parse_case :: "string \<Rightarrow> (int \<times> int) res" where
  "ddr_parse_case value =
    (if CHR '':'' \<notin> set value then Inl (ArgumentTypeError ''case must be addr:size'')
     else case split_first (CHR '':'') value of (addr_s, size_s) \<Rightarrow>
       bind_res (int_auto addr_s) (\<lambda>addr. bind_res (int_auto size_s) (\<lambda>n. Inr (addr, n))))"

definition make_pattern :: "int \<Rightarrow> int \<Rightarrow> int \<Rightarrow> bytes" where
  "make_pattern addr n repeat_index = map (\<lambda>i. word_of_int
     ((drop_bit 6 addr + repeat_index * 29 + int i * 17 + drop_bit 8 (int i)) AND 0xff)) [0..<nat n]"

definition ddr_pwrite_all :: "'w os \<Rightarrow> bytes \<Rightarrow> int \<Rightarrow> ('w, unit) io" where
  "ddr_pwrite_all os data addr = loop_io (\<lambda>offset.
     if offset < int (length data)
     then bind_io (pwrite os H2C (drop (nat offset) data) (addr + offset)) (\<lambda>written.
          if written \<le> 0 then raise (RuntimeError ''short H2C write'') else ret (Continue (offset + written)))
     else ret (Break ())) 0"

definition ddr_pread_all :: "'w os \<Rightarrow> int \<Rightarrow> int \<Rightarrow> ('w, bytes) io" where
  "ddr_pread_all os n addr = loop_io (\<lambda>out.
     if int (length out) < n
     then bind_io (pread os C2H (n - int (length out)) (addr + int (length out))) (\<lambda>chunk.
          if chunk = [] then raise (RuntimeError ''short C2H read'') else ret (Continue (out @ chunk)))
     else ret (Break out)) []"

definition first_mismatch :: "bytes \<Rightarrow> bytes \<Rightarrow> (nat \<times> int \<times> int) option" where
  "first_mismatch expected actual =
     (case filter (\<lambda>(index, want, got). want \<noteq> got) (zip [0..<min (length expected) (length actual)] (zip expected actual)) of
        (index, want, got) # _ \<Rightarrow> Some (index, uint want, uint got)
      | [] \<Rightarrow> if length expected \<noteq> length actual then Some (min (length expected) (length actual), -1, -1) else None)"

text \<open>\<^verbatim>\<open>0x{n:x}\<close> and \<^verbatim>\<open>0x{n:02x}\<close>.\<close>

definition hex_digits :: "nat \<Rightarrow> int \<Rightarrow> string" where
  "hex_digits w n = ''0x'' @ (if n < 0 then ''-'' @ pad_left (w - 1) (CHR ''0'') (show_base 16 (nat (- n)))
     else pad_left w (CHR ''0'') (show_base 16 (nat n)))"

definition fail_text :: "int \<Rightarrow> int \<Rightarrow> int \<Rightarrow> nat \<times> int \<times> int \<Rightarrow> string" where
  "fail_text addr n repeat_index = (\<lambda>(offset, expected, got).
     ''FAIL addr='' @ hex_digits 0 addr @ '' size='' @ show_int n @ '' repeat='' @ show_int repeat_index @ '': offset=''
     @ hex_digits 0 (int offset) @ '' expected='' @ hex_digits 2 expected @ '' got='' @ hex_digits 2 got)"

text \<open>A line of the report: address, size, repeat, and the two rates.\<close>

record ddr_line =
  dl_addr :: int
  dl_size :: int
  dl_repeat :: int
  dl_write_gbps :: rat
  dl_read_gbps :: rat

definition gbps :: "int \<Rightarrow> rat \<Rightarrow> rat" where
  "gbps bits seconds = (if 0 < seconds then fl (fl (fl (of_int bits) / seconds) / 1000000000) else 0)"

definition ddr_case :: "'w os \<Rightarrow> int \<Rightarrow> int \<Rightarrow> int \<Rightarrow> ('w, ddr_line) io" where
  "ddr_case os addr n repeat_index =
    (let pattern = make_pattern addr n repeat_index in
     bind_io (perf_counter os) (\<lambda>t0.
     seq_io (ddr_pwrite_all os pattern addr)
    (bind_io (elapsed os t0) (\<lambda>write_s.
     bind_io (perf_counter os) (\<lambda>t1.
     bind_io (ddr_pread_all os n addr) (\<lambda>readback.
     bind_io (elapsed os t1) (\<lambda>read_s.
     case first_mismatch pattern readback of
       Some mismatch \<Rightarrow> raise (SystemExit (fail_text addr n repeat_index mismatch))
     | None \<Rightarrow> ret \<lparr> dl_addr = addr, dl_size = n, dl_repeat = repeat_index,
         dl_write_gbps = gbps (n * 8) write_s, dl_read_gbps = gbps (n * 8) read_s \<rparr>)))))))"

record ddr_summary =
  ds_lines :: "ddr_line list"
  ds_total_bytes :: int
  ds_aggregate_gbps :: rat

definition ddr_main :: "'w os \<Rightarrow> (int \<times> int) list option \<Rightarrow> int \<Rightarrow> ('w, ddr_summary) io" where
  "ddr_main os cases_arg repeat =
    (let cases = (case cases_arg of None \<Rightarrow> DEFAULT_CASES | Some cs \<Rightarrow> if cs = [] then DEFAULT_CASES else cs) in
     if repeat \<le> 0 then raise (SystemExit ''--repeat must be positive'')
     else bind_io (perf_counter os) (\<lambda>start.
          bind_io (for_io [0..<nat repeat] (\<lambda>repeat_index.
                   for_io cases (\<lambda>(addr, n) (lines, total_bytes).
                     bind_io (ddr_case os addr n (int repeat_index)) (\<lambda>line. ret (lines @ [line], total_bytes + n)))) ([], 0))
            (\<lambda>(lines, total_bytes).
          bind_io (elapsed os start) (\<lambda>seconds.
          ret \<lparr> ds_lines = lines, ds_total_bytes = total_bytes, ds_aggregate_gbps = gbps (total_bytes * 16) seconds \<rparr>))))"

section \<open>Comparing\<close>

lemma first_mismatch_None: "first_mismatch xs ys = None \<longleftrightarrow> xs = ys"
proof (cases "length xs = length ys")
  case True
  then have "first_mismatch xs ys = None \<longleftrightarrow> filter (\<lambda>(i, x, y). x \<noteq> y) (zip [0..<length xs] (zip xs ys)) = []"
    by (auto simp: first_mismatch_def split: list.splits)
  then show ?thesis by (simp only: differences_Nil [OF True])
qed (auto simp: first_mismatch_def split: list.splits)

lemma first_mismatch_Some:
  assumes "length xs = length ys" and "first_mismatch xs ys = Some (i, e, g)"
  shows "i < length xs" and "xs ! i \<noteq> ys ! i" and "\<forall>j < i. xs ! j = ys ! j" and "e = uint (xs ! i)" and "g = uint (ys ! i)"
proof -
  let ?z = "zip [0..<length xs] (zip xs ys)"
  obtain x y rest where f: "filter (\<lambda>(i, x, y). x \<noteq> y) ?z = (i, x, y) # rest" and eg: "e = uint x" "g = uint y"
    using assms by (auto simp: first_mismatch_def split: list.splits)
  then obtain us vs where z: "?z = us @ (i, x, y) # vs" "\<forall>u \<in> set us. \<not> (case u of (i, x, y) \<Rightarrow> x \<noteq> y)" "x \<noteq> y"
    by (auto simp: filter_eq_Cons_iff)
  have len: "length us < length ?z" using z(1) by simp
  have at: "?z ! length us = (i, x, y)" unfolding z(1) by simp
  have i: "i = length us" "xs ! i = x" "ys ! i = y" "i < length xs" using at len assms(1) by auto
  have "xs ! j = ys ! j" if "j < i" for j
  proof -
    have "us ! j = ?z ! j" unfolding z(1) using that i by (simp add: nth_append)
    also have "\<dots> = (j, xs ! j, ys ! j)" using that i assms(1) by simp
    finally show ?thesis using z(2) that i nth_mem [of j us] by auto
  qed
  then show "i < length xs" "xs ! i \<noteq> ys ! i" "\<forall>j < i. xs ! j = ys ! j" "e = uint (xs ! i)" "g = uint (ys ! i)"
    using i z(3) eg by auto
qed

lemma length_make_pattern [simp]: "length (make_pattern addr n r) = nat n"
  by (simp add: make_pattern_def)

section \<open>A memory with faults\<close>

text \<open>What the check of one range asks of the cells.\<close>

definition range_ok :: "(int \<Rightarrow> byte \<Rightarrow> byte) \<Rightarrow> int \<Rightarrow> int \<Rightarrow> int \<Rightarrow> bool" where
  "range_ok sense addr n r \<longleftrightarrow> (\<forall>i < nat n. sense (addr + int i) (make_pattern addr n r ! i) = make_pattern addr n r ! i)"

locale ddr_device =
  fixes os :: "'w os" and mem :: "'w \<Rightarrow> int \<Rightarrow> byte" and sense :: "int \<Rightarrow> byte \<Rightarrow> byte"
  assumes h2c: "dma_mem os mem (\<lambda>_. ())"
    and c2h: "\<And>n a w. 0 < n \<Longrightarrow> \<exists>k w'. os_pread os C2H n a w = (Inr (map (\<lambda>i. sense (a + int i) (mem w (a + int i))) [0..<k]), w')
      \<and> 0 < k \<and> int k \<le> n \<and> mem w' = mem w"
    and clock_mem: "\<And>w. mem (snd (os_clock os w)) = mem w"
begin

lemma clock_keeps: "spec (\<lambda>w. mem w = m) (perf_counter os) (\<lambda>_ w. mem w = m) E"
  unfolding spec_def perf_counter_def using clock_mem by (auto split: prod.splits) (metis snd_conv)

lemma elapsed_keeps: "spec (\<lambda>w. mem w = m) (elapsed os t) (\<lambda>_ w. mem w = m) E"
  unfolding elapsed_def by (rule spec_bind [OF clock_keeps], rule spec_ret)

lemma write_done: "spec (\<lambda>w. mem w = m) (ddr_pwrite_all os data addr) (\<lambda>_ w. mem w = write_mem m addr data) E"
proof -
  have "ddr_pwrite_all os data addr = write_chunk_file os data addr"
    by (simp add: ddr_pwrite_all_def write_chunk_file_def)
  then show ?thesis by (auto intro: spec_point [OF write_chunk_spec(2) [OF h2c]])
qed

definition seen :: "(int \<Rightarrow> byte) \<Rightarrow> int \<Rightarrow> nat \<Rightarrow> bytes" where
  "seen m a n = map (\<lambda>i. sense (a + int i) (m (a + int i))) [0..<n]"

lemma seen_append: "seen m a j @ seen m (a + int j) k = seen m a (j + k)"
  by (rule nth_equalityI) (auto simp: seen_def nth_append add.assoc)

lemma length_seen [simp]: "length (seen m a n) = n"
  by (simp add: seen_def)

lemma read_back: "spec (\<lambda>w. mem w = m) (ddr_pread_all os n addr) (\<lambda>out w. mem w = m \<and> out = seen m addr (nat n)) E"
proof -
  let ?I = "\<lambda>out w. mem w = m \<and> (\<exists>j \<le> nat n. out = seen m addr j)"
  have "spec (?I []) (ddr_pread_all os n addr) (\<lambda>out w. mem w = m \<and> out = seen m addr (nat n)) E"
    unfolding ddr_pread_all_def
  proof (rule spec_loop [where I = ?I and m = "\<lambda>out _. nat (n - int (length out))"])
    fix out :: bytes and v
    let ?body = "if int (length out) < n
        then bind_io (pread os C2H (n - int (length out)) (addr + int (length out))) (\<lambda>chunk.
          if chunk = [] then raise (RuntimeError ''short C2H read'') else ret (Continue (out @ chunk)))
        else ret (Break out)"
    show "spec (\<lambda>w. w = v \<and> ?I out v) ?body
      (\<lambda>c w. case c of Continue s' \<Rightarrow> ?I s' w \<and> nat (n - int (length s')) < nat (n - int (length out))
        | Break a \<Rightarrow> mem w = m \<and> a = seen m addr (nat n)) E"
    proof (cases "?I out v")
      case False
      then show ?thesis unfolding spec_def by blast
    next
      case True
      then obtain j where j: "mem v = m" "j \<le> nat n" "out = seen m addr j" by blast
      show ?thesis
      proof (cases "int (length out) < n")
        case False
        then have "j = nat n" using j by simp
        then show ?thesis using False j by (auto intro!: spec_ret)
      next
        case less: True
        then obtain k w' where k: "os_pread os C2H (n - int (length out)) (addr + int (length out)) v
            = (Inr (seen m (addr + int j) k), w')" "0 < k" "int k \<le> n - int j" "mem w' = m"
          using c2h [of "n - int (length out)" "addr + int (length out)" v] j by (auto simp: seen_def)
        have "out @ seen m (addr + int j) k = seen m addr (j + k)" "seen m (addr + int j) k \<noteq> []" "j + k \<le> nat n"
          using j k(2,3) by (auto simp: seen_append simp flip: length_0_conv)
        then show ?thesis using less j k
          by (auto simp: spec_def bind_io_def pread_def ret_def simp flip: seen_append intro!: exI [of _ "j + k"])
      qed
    qed
  qed
  moreover have "?I [] w \<longleftrightarrow> mem w = m" for w by (auto simp: seen_def intro: exI [of _ 0])
  ultimately show ?thesis by simp
qed

lemma seen_pattern: "make_pattern addr n r = seen (write_mem m addr (make_pattern addr n r)) addr (nat n) \<longleftrightarrow> range_ok sense addr n r"
  by (auto simp: list_eq_iff_nth_eq seen_def write_mem_def range_ok_def)

definition fault_at :: "int \<Rightarrow> int \<Rightarrow> int \<Rightarrow> nat \<times> int \<times> int \<Rightarrow> bool" where
  "fault_at addr n r = (\<lambda>(off, e, g). off < nat n \<and> e = uint (make_pattern addr n r ! off)
     \<and> g = uint (sense (addr + int off) (make_pattern addr n r ! off)) \<and> e \<noteq> g
     \<and> (\<forall>j < off. sense (addr + int j) (make_pattern addr n r ! j) = make_pattern addr n r ! j))"

lemma mismatch_fault:
  assumes "first_mismatch (make_pattern addr n r) (seen (write_mem m addr (make_pattern addr n r)) addr (nat n)) = Some x"
  shows "fault_at addr n r x"
proof -
  obtain i e g where x: "x = (i, e, g)" by (cases x)
  have "length (make_pattern addr n r) = length (seen (write_mem m addr (make_pattern addr n r)) addr (nat n))" by simp
  note f = first_mismatch_Some [OF this assms [unfolded x]]
  have s: "seen (write_mem m addr (make_pattern addr n r)) addr (nat n) ! j = sense (addr + int j) (make_pattern addr n r ! j)" if "j < nat n" for j
  proof -
    have "int j < n" "0 \<le> n" using that by linarith+
    then show ?thesis by (simp add: seen_def write_mem_def)
  qed
  have "make_pattern addr n r ! j = sense (addr + int j) (make_pattern addr n r ! j)" if "j < i" for j
    using f(1,3) s [of j] that by simp
  moreover have "e \<noteq> g" using f(2,4,5) by (simp add: word_uint_eq_iff)
  moreover have "i < nat n" using f(1) by simp
  moreover have "g = uint (sense (addr + int i) (make_pattern addr n r ! i))" using f(5) s [of i] calculation(3) by simp
  ultimately show ?thesis using f(4) unfolding x fault_at_def by auto
qed

lemma case_spec:
  "spec (\<lambda>_. True) (ddr_case os addr n r)
     (\<lambda>l _. range_ok sense addr n r \<and> dl_addr l = addr \<and> dl_size l = n \<and> dl_repeat l = r)
     (\<lambda>e _. \<exists>x. fault_at addr n r x \<and> e = SystemExit (fail_text addr n r x))" (is "spec _ _ ?Q ?E")
proof (rule spec_pre)
  fix v
  let ?p = "make_pattern addr n r" and ?m = "write_mem (mem v) addr (make_pattern addr n r)"
  let ?k = "\<lambda>ws bs rs. case first_mismatch ?p bs of
       Some mismatch \<Rightarrow> raise (SystemExit (fail_text addr n r mismatch))
     | None \<Rightarrow> ret \<lparr> dl_addr = addr, dl_size = n, dl_repeat = r, dl_write_gbps = gbps (n * 8) ws, dl_read_gbps = gbps (n * 8) rs \<rparr>"
  have last: "spec (\<lambda>w. mem w = ?m) (?k ws (seen ?m addr (nat n)) rs) ?Q ?E" for ws rs
  proof (cases "first_mismatch ?p (seen ?m addr (nat n))")
    case None
    then have "range_ok sense addr n r" by (simp add: first_mismatch_None seen_pattern)
    with None show ?thesis by (simp add: spec_ret)
  next
    case (Some x)
    from mismatch_fault [OF this] show ?thesis unfolding Some option.case by (intro spec_raise) blast
  qed
  have "spec (\<lambda>w. mem w = mem v) (ddr_case os addr n r) ?Q ?E"
    unfolding ddr_case_def Let_def
    by (rule spec_bind [OF clock_keeps], rule spec_bind [OF write_done], rule spec_bind [OF elapsed_keeps],
        rule spec_bind [OF clock_keeps], rule spec_bind [OF read_back], rule spec_assume, hypsubst, rule spec_bind [OF elapsed_keeps], rule last)
  then show "spec (\<lambda>w. w = v) (ddr_case os addr n r) ?Q ?E" by (rule spec_conseq) simp_all
qed

definition line_key :: "ddr_line \<Rightarrow> int \<times> int \<times> int" where
  "line_key l = (dl_repeat l, dl_addr l, dl_size l)"

definition good_lines :: "ddr_line list \<Rightarrow> int \<Rightarrow> bool" where
  "good_lines ls total_bytes \<longleftrightarrow> (\<forall>l \<in> set ls. range_ok sense (dl_addr l) (dl_size l) (dl_repeat l)) \<and> total_bytes = sum_list (map dl_size ls)"

abbreviation round_keys :: "(int \<times> int) list \<Rightarrow> nat \<Rightarrow> (int \<times> int \<times> int) list" where
  "round_keys cs r \<equiv> map (\<lambda>(a, n). (int r, a, n)) cs"

definition faulty :: "(int \<times> int) list \<Rightarrow> nat list \<Rightarrow> py_error \<Rightarrow> bool" where
  "faulty cs rs e \<longleftrightarrow> (\<exists>(a, n) \<in> set cs. \<exists>r \<in> set rs. \<exists>x. fault_at a n (int r) x \<and> e = SystemExit (fail_text a n (int r) x))"

lemma faulty_case:
  assumes "(a, n) \<in> set cs" and "r \<in> set rs" and "\<exists>x. fault_at a n (int r) x \<and> e = SystemExit (fail_text a n (int r) x)"
  shows "faulty cs rs e"
  unfolding faulty_def using assms by (intro bexI [of _ "(a, n)"]) auto

lemma round_spec:
  assumes "r \<in> set rs"
  shows "spec (\<lambda>_. good_lines ls t \<and> map line_key ls = done)
     (for_io cs (\<lambda>(addr, n) (lines, total_bytes).
        bind_io (ddr_case os addr n (int r)) (\<lambda>line. ret (lines @ [line], total_bytes + n))) (ls, t))
     (\<lambda>(ls, t) _. good_lines ls t \<and> map line_key ls = done @ round_keys cs r) (\<lambda>e _. faulty cs rs e)"
proof -
  let ?I = "\<lambda>xs (ls, t) _. set xs \<subseteq> set cs \<and> good_lines ls t \<and> map line_key ls @ round_keys xs r = done @ round_keys cs r"
  let ?f = "\<lambda>(addr, n) (lines, total_bytes). bind_io (ddr_case os addr n (int r)) (\<lambda>line. ret (lines @ [line], total_bytes + n))"
  have "spec (?I cs (ls, t)) (for_io cs ?f (ls, t)) (\<lambda>s w. ?I [] s w) (\<lambda>e _. faulty cs rs e)"
  proof (rule spec_for [where I = ?I])
    fix x :: "int \<times> int" and xs and s :: "ddr_line list \<times> int"
    obtain a n where x: "x = (a, n)" by (cases x)
    obtain ls t where st: "s = (ls, t)" by (cases s)
    show "spec (?I (x # xs) s) (?f x s) (\<lambda>s' w. ?I xs s' w) (\<lambda>e _. faulty cs rs e)"
      unfolding x st prod.case
    proof (rule spec_pure, rule spec_bind)
      assume inv: "set ((a, n) # xs) \<subseteq> set cs \<and> good_lines ls t \<and> map line_key ls @ round_keys ((a, n) # xs) r = done @ round_keys cs r"
      show "spec (\<lambda>_. True) (ddr_case os a n (int r))
          (\<lambda>l _. range_ok sense a n (int r) \<and> dl_addr l = a \<and> dl_size l = n \<and> dl_repeat l = int r) (\<lambda>e _. faulty cs rs e)"
        by (rule spec_conseq [OF case_spec]) (use inv assms in \<open>auto intro: faulty_case\<close>)
      show "spec (\<lambda>_. range_ok sense a n (int r) \<and> dl_addr l = a \<and> dl_size l = n \<and> dl_repeat l = int r)
          (ret (ls @ [l], t + n)) (\<lambda>s' w. ?I xs s' w) (\<lambda>e _. faulty cs rs e)" for l
        by (rule spec_ret) (use inv in \<open>auto simp: good_lines_def line_key_def\<close>)
    qed
  qed
  then show ?thesis by (rule spec_conseq) auto
qed

lemma rounds_spec:
  "spec (\<lambda>_. True) (for_io [0..<k] (\<lambda>r. for_io cs (\<lambda>(addr, n) (lines, total_bytes).
        bind_io (ddr_case os addr n (int r)) (\<lambda>line. ret (lines @ [line], total_bytes + n)))) ([], 0))
     (\<lambda>(ls, t) _. good_lines ls t \<and> map line_key ls = concat (map (round_keys cs) [0..<k])) (\<lambda>e _. faulty cs [0..<k] e)"
proof -
  let ?I = "\<lambda>rs (ls, t) _. set rs \<subseteq> {0..<k} \<and> good_lines ls t
     \<and> map line_key ls @ concat (map (round_keys cs) rs) = concat (map (round_keys cs) [0..<k])"
  let ?f = "\<lambda>r. for_io cs (\<lambda>(addr, n) (lines, total_bytes).
        bind_io (ddr_case os addr n (int r)) (\<lambda>line. ret (lines @ [line], total_bytes + n)))"
  have "spec (?I [0..<k] ([], 0)) (for_io [0..<k] ?f ([], 0)) (\<lambda>s w. ?I [] s w) (\<lambda>e _. faulty cs [0..<k] e)"
  proof (rule spec_for [where I = ?I])
    fix r rs and s :: "ddr_line list \<times> int"
    obtain ls t where st: "s = (ls, t)" by (cases s)
    show "spec (?I (r # rs) s) (?f r s) (\<lambda>s' w. ?I rs s' w) (\<lambda>e _. faulty cs [0..<k] e)"
      unfolding st prod.case
    proof (rule spec_pure)
      assume inv: "set (r # rs) \<subseteq> {0..<k} \<and> good_lines ls t
        \<and> map line_key ls @ concat (map (round_keys cs) (r # rs)) = concat (map (round_keys cs) [0..<k])"
      then have "r \<in> set [0..<k]" by simp
      from round_spec [OF this, of ls t "map line_key ls" cs]
      show "spec (\<lambda>_. True) (?f r (ls, t)) (\<lambda>s' w. ?I rs s' w) (\<lambda>e _. faulty cs [0..<k] e)"
        by (rule spec_conseq) (use inv in auto)
    qed
  qed
  then show ?thesis by (rule spec_conseq) (auto simp: good_lines_def)
qed

lemma main_spec:
  assumes "0 < repeat" and cs: "cs = (case cases of None \<Rightarrow> DEFAULT_CASES | Some xs \<Rightarrow> if xs = [] then DEFAULT_CASES else xs)"
  shows "spec (\<lambda>_. True) (ddr_main os cases repeat)
    (\<lambda>out _. good_lines (ds_lines out) (ds_total_bytes out) \<and> map line_key (ds_lines out) = concat (map (round_keys cs) [0..<nat repeat]))
    (\<lambda>e _. faulty cs [0..<nat repeat] e)"
proof -
  have any: "spec (\<lambda>_. C) (perf_counter os) (\<lambda>_ _. C) E" for C E
    by (auto simp: spec_def perf_counter_def split: prod.splits)
  then have el: "spec (\<lambda>_. C) (elapsed os t) (\<lambda>_ _. C) E" for C t E
    unfolding elapsed_def by (rule spec_bind) (rule spec_ret)
  have pos: "\<not> repeat \<le> 0" using assms(1) by simp
  show ?thesis
    unfolding ddr_main_def Let_def cs [symmetric] if_not_P [OF pos]
  proof (rule spec_bind [OF any], rule spec_bind [OF rounds_spec])
    fix start and s :: "ddr_line list \<times> int"
    obtain ls t where s: "s = (ls, t)" by (cases s)
    show "spec (case s of (ls, t) \<Rightarrow> \<lambda>_. good_lines ls t \<and> map line_key ls = concat (map (round_keys cs) [0..<nat repeat]))
      (case s of (lines, total_bytes) \<Rightarrow> bind_io (elapsed os start) (\<lambda>seconds.
         ret \<lparr> ds_lines = lines, ds_total_bytes = total_bytes, ds_aggregate_gbps = gbps (total_bytes * 16) seconds \<rparr>))
      (\<lambda>out _. good_lines (ds_lines out) (ds_total_bytes out) \<and> map line_key (ds_lines out) = concat (map (round_keys cs) [0..<nat repeat]))
      (\<lambda>e _. faulty cs [0..<nat repeat] e)"
      unfolding s prod.case by (rule spec_bind [OF el], rule spec_ret) simp
  qed
qed

end

interpretation ddr: ddr_device "board_os hw" "\<lambda>b. c_mem (bd_card b)" "\<lambda>_ x. x" for hw
proof
  show "dma_mem (board_os hw) (\<lambda>b. c_mem (bd_card b)) (\<lambda>_. ())"
    unfolding dma_mem_def
  proof (intro allI impI)
    fix data :: bytes and addr w assume "data \<noteq> []"
    with board.dma [of hw, unfolded dma_mem_def, rule_format, of data addr w]
    show "\<exists>n w'. os_pwrite (board_os hw) H2C data addr w = (Inr (int n), w') \<and> 0 < n \<and> n \<le> length data
       \<and> c_mem (bd_card w') = write_mem (c_mem (bd_card w)) addr (take n data) \<and> () = ()" by auto
  qed
next
  fix n a w assume "0 < (n :: int)"
  then show "\<exists>k w'. os_pread (board_os hw) C2H n a w = (Inr (map (\<lambda>i. c_mem (bd_card w) (a + int i)) [0..<k]), w')
      \<and> 0 < k \<and> int k \<le> n \<and> c_mem (bd_card w') = c_mem (bd_card w)"
    by (intro exI [of _ "nat n"]) (simp add: board_os_def board_pread_def Let_def)
next
  fix w
  show "c_mem (bd_card (snd (os_clock (board_os hw) w))) = c_mem (bd_card w)" by (simp add: board_os_def)
qed

text \<open>C19: The verdict of the memory check.  On any device that keeps what is written, moves some bytes with every
  transfer, and reads each cell through an arbitrary fault, the check ends.  Either every cell of every range
  reads back each of its pattern bytes, and the check passes with one line per repeat and range in order and the
  total of the bytes; or it stops with the message that names a range, a repeat and the first cell of it that
  reads wrong, with the byte written and the byte read.\<close>

theorem ddr_check_verdict:
  assumes device: "ddr_device os mem sense" and "0 < repeat"
    and cs: "cs = (case cases of None \<Rightarrow> DEFAULT_CASES | Some xs \<Rightarrow> if xs = [] then DEFAULT_CASES else xs)"
  shows "((\<forall>(a, n) \<in> set cs. \<forall>r < nat repeat. range_ok sense a n (int r))
      \<and> (\<exists>out w. ddr_main os cases repeat v = Some (Inr out, w)
        \<and> map (\<lambda>l. (dl_repeat l, dl_addr l, dl_size l)) (ds_lines out) = concat (map (\<lambda>r. map (\<lambda>(a, n). (int r, a, n)) cs) [0..<nat repeat])
        \<and> ds_total_bytes out = sum_list (map dl_size (ds_lines out))))
    \<or> (\<exists>(a, n) \<in> set cs. \<exists>r < nat repeat. \<exists>off < nat n. \<exists>w. let want = make_pattern a n (int r) ! off; got = sense (a + int off) want in
        want \<noteq> got \<and> (\<forall>j < off. sense (a + int j) (make_pattern a n (int r) ! j) = make_pattern a n (int r) ! j)
        \<and> ddr_main os cases repeat v = Some (Inl (SystemExit (fail_text a n (int r) (off, uint want, uint got))), w))"
proof -
  note fd = ddr_device.fault_at_def [OF device] and kd = ddr_device.line_key_def [OF device] and gd = ddr_device.good_lines_def [OF device]
  from spec_outcome [OF ddr_device.main_spec [OF device assms(2) cs] TrueI, of v]
  show ?thesis
  proof (elim disjE exE conjE)
    fix out w
    assume run: "ddr_main os cases repeat v = Some (Inr out, w)"
      and good: "ddr_device.good_lines sense (ds_lines out) (ds_total_bytes out)"
      and keys: "map ddr_device.line_key (ds_lines out) = concat (map (\<lambda>r. map (\<lambda>(a, n). (int r, a, n)) cs) [0..<nat repeat])"
    have ok: "range_ok sense a n (int r)" if "(a, n) \<in> set cs" "r < nat repeat" for a n r
    proof -
      have "(int r, a, n) \<in> set (map ddr_device.line_key (ds_lines out))"
        unfolding keys using that by force
      then show ?thesis using good unfolding gd by (auto simp: kd)
    qed
    have "map (\<lambda>l. (dl_repeat l, dl_addr l, dl_size l)) (ds_lines out) = map ddr_device.line_key (ds_lines out)"
      by (simp add: kd)
    then show ?thesis using run good keys ok unfolding gd by (intro disjI1) fastforce
  next
    fix e w
    assume run: "ddr_main os cases repeat v = Some (Inl e, w)" and "ddr_device.faulty sense cs [0..<nat repeat] e"
    then obtain a n r off x g where f: "(a, n) \<in> set cs" "r < nat repeat" "ddr_device.fault_at sense a n (int r) (off, x, g)"
      "e = SystemExit (fail_text a n (int r) (off, x, g))"
      unfolding ddr_device.faulty_def [OF device] by auto
    note fault = f(3) [unfolded fd prod.case]
    show ?thesis
      unfolding Let_def
      by (rule disjI2, rule bexI [OF _ f(1)], unfold prod.case, intro exI [of _ r] exI [of _ off] exI [of _ w] conjI)
        (use fault f(2,4) run in auto)
  qed
qed

text \<open>The second disjunct is not idle: a memory whose bit 0 is stuck at one.\<close>

definition stuck_os :: "(int \<Rightarrow> byte) os" where
  "stuck_os = short_dma\<lparr>os_pread := \<lambda>fd n addr w. (Inr (map (\<lambda>i. w (addr + int i) OR 1) [0..<nat n]), w)\<rparr>"

lemma stuck_device: "ddr_device stuck_os (\<lambda>w. w) (\<lambda>_ x. x OR 1)"
proof
  show "dma_mem stuck_os (\<lambda>w. w) (\<lambda>_. ())"
    using short_dma_ok by (simp add: dma_mem_def stuck_os_def)
next
  fix n a and w :: "int \<Rightarrow> byte" assume "0 < (n :: int)"
  then show "\<exists>k w'. os_pread stuck_os C2H n a w = (Inr (map (\<lambda>i. w (a + int i) OR 1) [0..<k]), w') \<and> 0 < k \<and> int k \<le> n \<and> w' = w"
    by (intro exI [of _ "nat n"]) (simp add: stuck_os_def)
next
  fix w :: "int \<Rightarrow> byte"
  show "snd (os_clock stuck_os w) = w" by (simp add: stuck_os_def short_dma_def)
qed

theorem ddr_check_verdict_witness:
  "(\<exists>out w. ddr_main (board_os demo_hw) (Some [(0x100, 3), (0x200, 2)]) 2 demo_board = Some (Inr out, w)
      \<and> map (\<lambda>l. (dl_repeat l, dl_addr l, dl_size l)) (ds_lines out) = [(0, 0x100, 3), (0, 0x200, 2), (1, 0x100, 3), (1, 0x200, 2)])
   \<and> (\<exists>m w. ddr_main stuck_os (Some [(0, 2)]) 1 (\<lambda>_. 0) = Some (Inl (SystemExit m), w))"
proof
  have two: "[0..<2] = [0, 1 :: nat]" by (simp add: upt_rec)
  show "\<exists>out w. ddr_main (board_os demo_hw) (Some [(0x100, 3), (0x200, 2)]) 2 demo_board = Some (Inr out, w)
      \<and> map (\<lambda>l. (dl_repeat l, dl_addr l, dl_size l)) (ds_lines out) = [(0, 0x100, 3), (0, 0x200, 2), (1, 0x100, 3), (1, 0x200, 2)]"
    using ddr_check_verdict [OF ddr.ddr_device_axioms [of demo_hw], of 2 "[(0x100, 3), (0x200, 2)]" "Some [(0x100, 3), (0x200, 2)]" demo_board]
    by (auto simp: range_ok_def Let_def two)
  have "\<not> range_ok (\<lambda>_ x. x OR 1) 0 2 0"
    by (auto simp: range_ok_def make_pattern_def two intro!: exI [of _ 0])
  then show "\<exists>m w. ddr_main stuck_os (Some [(0, 2)]) 1 (\<lambda>_. 0) = Some (Inl (SystemExit m), w)"
    using ddr_check_verdict [OF stuck_device, of 1 "[(0, 2)]" "Some [(0, 2)]" "\<lambda>_. 0"]
    by (auto simp: Let_def)
qed

end
