(* ===== verification/PrecisionCheck.thy ===== *)
theory PrecisionCheck
  imports IntervalCheck
begin

text \<open>
  The two scheduler precision checks: preload_precision_check.py compares the tick counter of the transmit
  port with the gaps of the trace, preload_rx_precision_check.py the gap statistics of the receive core
  with the one gap of the trace.  Both theorems state what a pass means, on any device files.
\<close>

section \<open>The transmit side: preload\_precision\_check.py\<close>

record tick_check_args = run_args +
  kc_port :: nat
  kc_pattern :: "(int \<times> int) list"
  kc_timeout :: rat
  kc_max_abs_tick_error :: int

record tick_check_report =
  kr_completed :: bool
  kr_wall_seconds :: rat
  kr_tx_pkts :: int
  kr_late_pkts :: int
  kr_underrun_pkts :: int
  kr_drop_pkts :: int
  kr_stall_events :: int
  kr_expected_ticks :: int
  kr_debug_ticks :: int
  kr_tick_error :: int

definition tick_check_run :: "'w os \<Rightarrow> tick_check_args \<Rightarrow> mixed_state \<Rightarrow> int \<Rightarrow> int \<Rightarrow> ('w, tick_check_report) io" where
  "tick_check_run os args st desc_size data_size =
    (let reg_base = tx_port_base (kc_port args) in
     seq_io (pwrite_file os (tr_desc_file (mx_out st)) (ra_desc_base args) (4 * 1024 * 1024))
    (seq_io (pwrite_file os (tr_data_file (mx_out st)) (ra_data_base args) (4 * 1024 * 1024))
    (seq_io (configure_and_start os reg_base args desc_size data_size)
    (bind_io (wait_done os reg_base (ra_packet_count args) (kc_timeout args)) (\<lambda>(completed, wall_seconds).
     bind_io (read64 os (reg_base + 0x60) (reg_base + 0x64)) (\<lambda>tx_pkts.
     bind_io (read64 os (reg_base + 0x70) (reg_base + 0x74)) (\<lambda>late_pkts.
     bind_io (read64 os (reg_base + 0x78) (reg_base + 0x7c)) (\<lambda>underrun_pkts.
     bind_io (read64 os (reg_base + 0xc8) (reg_base + 0xcc)) (\<lambda>drop_pkts.
     bind_io (read64 os (reg_base + 0xd8) (reg_base + 0xdc)) (\<lambda>stall_events.
     bind_io (read64 os (reg_base + 0x94) (reg_base + 0x98)) (\<lambda>debug_ticks.
     ret \<lparr> kr_completed = completed, kr_wall_seconds = wall_seconds, kr_tx_pkts = tx_pkts, kr_late_pkts = late_pkts,
       kr_underrun_pkts = underrun_pkts, kr_drop_pkts = drop_pkts, kr_stall_events = stall_events,
       kr_expected_ticks = mx_expected_ticks st, kr_debug_ticks = debug_ticks,
       kr_tick_error = debug_ticks - mx_expected_ticks st \<rparr>)))))))))))"

definition tick_check_fails :: "tick_check_args \<Rightarrow> tick_check_report \<Rightarrow> bool" where
  "tick_check_fails args r \<longleftrightarrow> \<not> kr_completed r \<or> kr_tx_pkts r \<noteq> ra_packet_count args \<or> kr_late_pkts r \<noteq> 0
     \<or> kr_underrun_pkts r \<noteq> 0 \<or> kr_drop_pkts r \<noteq> 0 \<or> kr_stall_events r \<noteq> 0
     \<or> kc_max_abs_tick_error args < \<bar>kr_tick_error r\<bar>"

definition tick_check_main :: "'w os \<Rightarrow> tick_check_args \<Rightarrow> ('w, tick_check_report) io" where
  "tick_check_main os args =
     bind_io (lift_res (make_mixed_trace (ra_packet_count args) (kc_pattern args))) (\<lambda>(st, desc_size, data_size).
     bind_io (tick_check_run os args st desc_size data_size) (\<lambda>r.
     if tick_check_fails args r then raise (SystemExit ''FAIL: scheduler precision check failed'') else ret r))"

section \<open>The receive side: preload\_rx\_precision\_check.py\<close>

record rx_check_args =
  xc_tx_port :: nat
  xc_rx_port :: nat
  xc_desc_base :: int
  xc_data_base :: int
  xc_packet_count :: int
  xc_frame_len :: int
  xc_gap_ticks :: int
  xc_tx_tick_hz :: int
  xc_rx_tick_hz :: int
  xc_max_error_rx_cycles :: rat
  xc_timeout :: rat

definition wait_gap_cleared :: "'w os \<Rightarrow> int \<Rightarrow> rat \<Rightarrow> ('w, unit) io" where
  "wait_gap_cleared os base timeout = bind_io (perf_counter os) (\<lambda>t0. let deadline = fl (t0 + timeout) in
     loop_io (\<lambda>seen. bind_io (perf_counter os) (\<lambda>t.
       if t < deadline then
         bind_io (read32 os (base + 0x04)) (\<lambda>status.
         bind_io (read32 os (base + 0x20)) (\<lambda>write_ptr.
         bind_io (read64_retry os (base + 0x30) (base + 0x34)) (\<lambda>rx_pkts.
         bind_io (read64_retry os (base + 0x38) (base + 0x3c)) (\<lambda>rx_bytes.
         bind_io (read64_retry os (base + 0x40) (base + 0x44)) (\<lambda>rx_errors.
         bind_io (read64_retry os (base + 0x64) (base + 0x68)) (\<lambda>gap_count.
           if writer_state status = 0 \<and> busy_bits status = 0 \<and> write_ptr = 0 \<and> rx_pkts = 0 \<and> rx_bytes = 0 \<and> rx_errors = 0
              \<and> gap_count = 0
           then ret (Break ())
           else seq_io (sleep os (1 / 100)) (ret (Continue (Some [status, write_ptr, rx_pkts, rx_bytes, rx_errors, gap_count]))))))))) 
       else raise (TimeoutError (''RX clear did not settle: '' @ show_last seen)))) None)"

definition configure_gap_stats :: "'w os \<Rightarrow> int \<Rightarrow> ('w, unit) io" where
  "configure_gap_stats os base =
     seq_io (write32 os (base + 0x00) 0x0)
    (seq_io (write32 os (base + 0x00) 0x2)
    (seq_io (wait_gap_cleared os base 2)
    (seq_io (write32 os (base + 0x18) 0)
    (seq_io (write32 os (base + 0x1c) 0)
    (seq_io (write32 os (base + 0x00) 0x2)
    (seq_io (wait_gap_cleared os base 2)
    (write32 os (base + 0x00) 0x1)))))))"

definition rx_check_run_args :: "rx_check_args \<Rightarrow> run_args" where
  "rx_check_run_args args = \<lparr> ra_desc_base = xc_desc_base args, ra_data_base = xc_data_base args,
     ra_packet_count = xc_packet_count args, ra_rate_q16_16 = 0x00010000, ra_force_link_up = False,
     ra_force_tx_ready = False, ra_no_auto_drop = False \<rparr>"

record rx_check_counters =
  xr_completed :: bool
  xr_wall_seconds :: rat
  xr_tx_pkts :: int
  xr_drop_pkts :: int
  xr_late_pkts :: int
  xr_underrun_pkts :: int
  xr_rx_pkts :: int
  xr_rx_bytes :: int
  xr_rx_errors :: int
  xr_axi_errors :: int
  xr_gap_count :: int
  xr_gap_sum :: int
  xr_gap_min :: int
  xr_gap_max :: int
  xr_gap_last :: int
  xr_tick :: int

definition rx_check_read :: "'w os \<Rightarrow> int \<Rightarrow> int \<Rightarrow> bool \<Rightarrow> rat \<Rightarrow> ('w, rx_check_counters) io" where
  "rx_check_read os tx_base rx_base completed wall_seconds =
     bind_io (read64 os (tx_base + 0x60) (tx_base + 0x64)) (\<lambda>tx_pkts.
     bind_io (read64 os (tx_base + 0xc8) (tx_base + 0xcc)) (\<lambda>drop_pkts.
     bind_io (read64 os (tx_base + 0x70) (tx_base + 0x74)) (\<lambda>late_pkts.
     bind_io (read64 os (tx_base + 0x78) (tx_base + 0x7c)) (\<lambda>underrun_pkts.
     bind_io (read64_retry os (rx_base + 0x30) (rx_base + 0x34)) (\<lambda>rx_pkts.
     bind_io (read64_retry os (rx_base + 0x38) (rx_base + 0x3c)) (\<lambda>rx_bytes.
     bind_io (read64_retry os (rx_base + 0x40) (rx_base + 0x44)) (\<lambda>rx_errors.
     bind_io (read64_retry os (rx_base + 0x58) (rx_base + 0x5c)) (\<lambda>axi_errors.
     bind_io (read64_retry os (rx_base + 0x64) (rx_base + 0x68)) (\<lambda>gap_count.
     bind_io (read64_retry os (rx_base + 0x6c) (rx_base + 0x70)) (\<lambda>gap_sum.
     bind_io (read64_retry os (rx_base + 0x74) (rx_base + 0x78)) (\<lambda>gap_min.
     bind_io (read64_retry os (rx_base + 0x7c) (rx_base + 0x80)) (\<lambda>gap_max.
     bind_io (read64_retry os (rx_base + 0x84) (rx_base + 0x88)) (\<lambda>gap_last.
     bind_io (read64_retry os (rx_base + 0x8c) (rx_base + 0x90)) (\<lambda>tick.
     ret \<lparr> xr_completed = completed, xr_wall_seconds = wall_seconds, xr_tx_pkts = tx_pkts, xr_drop_pkts = drop_pkts,
       xr_late_pkts = late_pkts, xr_underrun_pkts = underrun_pkts, xr_rx_pkts = rx_pkts, xr_rx_bytes = rx_bytes,
       xr_rx_errors = rx_errors, xr_axi_errors = axi_errors, xr_gap_count = gap_count, xr_gap_sum = gap_sum,
       xr_gap_min = gap_min, xr_gap_max = gap_max, xr_gap_last = gap_last, xr_tick = tick \<rparr>))))))))))))))"

text \<open>The errors against the expected gap, in receive cycles, and the length of a cycle.\<close>

record rx_check_errors =
  xe_expected :: rat
  xe_avg :: rat
  xe_min_err :: rat
  xe_max_err :: rat
  xe_avg_err :: rat
  xe_max_abs_error :: rat
  xe_cycle_ns :: rat

definition rx_errors_of :: "rx_check_args \<Rightarrow> rx_check_counters \<Rightarrow> rx_check_errors res" where
  "rx_errors_of args c =
     bind_res (py_truediv (xc_rx_tick_hz args) (xc_tx_tick_hz args)) (\<lambda>ratio.
     let expected = fl (fl (of_int (xc_gap_ticks args)) * ratio) in
     bind_res (gap_average (xr_gap_sum c) (xr_gap_count c)) (\<lambda>avg.
     let min_err = fl (fl (of_int (xr_gap_min c)) - expected);
         max_err = fl (fl (of_int (xr_gap_max c)) - expected);
         avg_err = fl (avg - expected) in
     if xc_rx_tick_hz args = 0 then Inl ZeroDivisionError
     else Inr \<lparr> xe_expected = expected, xe_avg = avg, xe_min_err = min_err, xe_max_err = max_err, xe_avg_err = avg_err,
            xe_max_abs_error = max (max \<bar>min_err\<bar> \<bar>max_err\<bar>) \<bar>avg_err\<bar>,
            xe_cycle_ns = fl (1000000000 / fl (of_int (xc_rx_tick_hz args))) \<rparr>))"

text \<open>The average is a finite float here: the test \<^verbatim>\<open>not math.isfinite(avg)\<close> never holds.\<close>

definition rx_check_fails :: "rx_check_args \<Rightarrow> rx_check_counters \<Rightarrow> rx_check_errors \<Rightarrow> bool" where
  "rx_check_fails args c e \<longleftrightarrow> \<not> xr_completed c \<or> xr_tx_pkts c \<noteq> xc_packet_count args \<or> xr_drop_pkts c \<noteq> 0
     \<or> xr_late_pkts c \<noteq> 0 \<or> xr_underrun_pkts c \<noteq> 0 \<or> xr_rx_pkts c < xc_packet_count args \<or> xr_rx_errors c \<noteq> 0
     \<or> xr_axi_errors c \<noteq> 0 \<or> xr_gap_count c \<noteq> xc_packet_count args - 1
     \<or> xc_max_error_rx_cycles args < xe_max_abs_error e"

definition rx_check_run :: "'w os \<Rightarrow> rx_check_args \<Rightarrow> trace_out \<Rightarrow> int \<Rightarrow> int \<Rightarrow> ('w, rx_check_counters) io" where
  "rx_check_run os args out desc_size data_size =
    (let tx_base = tx_port_base (xc_tx_port args); rx_base = rx_base_of (xc_rx_port args) in
     seq_io (pwrite_file os (tr_desc_file out) (xc_desc_base args) (4 * 1024 * 1024))
    (seq_io (pwrite_file os (tr_data_file out) (xc_data_base args) (4 * 1024 * 1024))
    (seq_io (configure_gap_stats os rx_base)
    (seq_io (configure_and_start os tx_base (rx_check_run_args args) desc_size data_size)
    (bind_io (wait_done os tx_base (xc_packet_count args) (xc_timeout args)) (\<lambda>(completed, wall_seconds).
     seq_io (sleep os (1 / 4))
    (rx_check_read os tx_base rx_base completed wall_seconds)))))))"

definition rx_check_main :: "'w os \<Rightarrow> rx_check_args \<Rightarrow> ('w, rx_check_counters \<times> rx_check_errors) io" where
  "rx_check_main os args =
    (if xc_packet_count args < 2 then raise (SystemExit ''--packet-count must be at least 2'')
     else bind_io (lift_res (pst_make_trace (xc_packet_count args) (xc_frame_len args) (xc_gap_ticks args))) (\<lambda>(out, desc_size, data_size).
          bind_io (rx_check_run os args out desc_size data_size) (\<lambda>c.
          bind_io (lift_res (rx_errors_of args c)) (\<lambda>e.
          if rx_check_fails args c e then raise (SystemExit ''FAIL: RX-side scheduling precision check failed'')
          else ret (c, e)))))"

section \<open>The runs end\<close>

context live_device begin

lemma file_runs: "runs (pwrite_file os bs addr (4 * 1024 * 1024)) E"
  by (rule runs_late, rule pwrite_file_late) (simp add: read_size_ok_def)

lemma tick_check_run_ends:
  "spec (\<lambda>_. True) (tick_check_run os args st desc_size data_size)
     (\<lambda>r _. kr_expected_ticks r = mx_expected_ticks st \<and> kr_tick_error r = kr_debug_ticks r - mx_expected_ticks st) E"
  unfolding tick_check_run_def Let_def
  by (rule spec_bind, rule file_runs step_runs | rule spec_prod | rule spec_ret, simp)+

lemma wait_gap_cleared_runs: "runs (wait_gap_cleared os base timeout) (\<lambda>e _. \<exists>m. e = TimeoutError m)"
  unfolding wait_gap_cleared_def Let_def
  apply (rule late_any, rule spec_bind [OF clock_late], rule spec_assume, rule deadline_loop)
   apply ((rule bind_late, rule read32_late read64_retry_late)+)
   apply (auto intro!: spec_ret spec_bind [OF sleep_takes] spec_raise)
  done

lemma configure_gap_stats_runs: "runs (configure_gap_stats os base) (\<lambda>e _. \<exists>m. e = TimeoutError m)"
  unfolding configure_gap_stats_def by (intro runs_bind step_runs wait_gap_cleared_runs)

lemma rx_check_read_range:
  "spec (\<lambda>_. True) (rx_check_read os tx_base rx_base completed wall) (\<lambda>c _. 0 \<le> xr_gap_sum c \<and> xr_gap_sum c < 2 ^ 64 \<and> 0 \<le> xr_gap_count c) E"
  unfolding rx_check_read_def
  apply (rule spec_bind [OF runs_late [OF read64_late]])+
  apply (rule spec_bind [OF read64_retry_runs], rule spec_bind [OF read64_retry_runs], rule spec_bind [OF read64_retry_runs],
      rule spec_bind [OF read64_retry_runs])
  apply (rule spec_bind [OF read64_retry_range], rule spec_assume)
  apply (rule spec_bind [OF read64_retry_range], rule spec_assume)
  apply (rule spec_bind [OF read64_retry_runs])+
  apply (rule spec_ret, simp)
  done

lemma rx_check_run_ends:
  "spec (\<lambda>_. True) (rx_check_run os args out desc_size data_size)
     (\<lambda>c _. 0 \<le> xr_gap_sum c \<and> xr_gap_sum c < 2 ^ 64 \<and> 0 \<le> xr_gap_count c) (\<lambda>e _. \<exists>m. e = TimeoutError m)"
  unfolding rx_check_run_def Let_def
  by (rule spec_bind, rule file_runs configure_gap_stats_runs step_runs | rule spec_prod | rule rx_check_read_range)+

end

section \<open>What a pass means\<close>

text \<open>The transmit precision check.  On any device files whose accesses succeed and take time, for a legal pattern
  the trace is built, the run on it returns its counters and the check ends with the verdict on these: it passes
  if and only if the replay completed, all packets were sent,
  no packet was late, dropped, starved or stalled, and the tick counter differs from the sum of the gaps of the
  trace by at most the allowed number of ticks.\<close>

theorem tick_check_verdict:
  assumes device: "live_device os now" and n: "0 \<le> ra_packet_count args" and fits: "pattern_fits (ra_packet_count args) (kc_pattern args)"
  shows "\<exists>st desc_size data_size r w. make_mixed_trace (ra_packet_count args) (kc_pattern args) = Inr (st, desc_size, data_size)
     \<and> tick_check_run os args st desc_size data_size v = Some (Inr r, w)
     \<and> tick_check_main os args v = Some (if kr_completed r \<and> kr_tx_pkts r = ra_packet_count args \<and> kr_late_pkts r = 0
        \<and> kr_underrun_pkts r = 0 \<and> kr_drop_pkts r = 0 \<and> kr_stall_events r = 0
        \<and> \<bar>kr_debug_ticks r - (\<Sum>i \<leftarrow> [0..<nat (ra_packet_count args)]. snd (kc_pattern args ! (i mod length (kc_pattern args))))\<bar>
            \<le> kc_max_abs_tick_error args
      then Inr r else Inl (SystemExit ''FAIL: scheduler precision check failed''), w)"
proof -
  obtain st d e where t: "make_mixed_trace (ra_packet_count args) (kc_pattern args) = Inr (st, d, e)"
    and inv: "mixed_inv (kc_pattern args) (nat (ra_packet_count args)) st"
    using make_mixed_trace_files [OF fits n] by blast
  have ticks: "mx_expected_ticks st = (\<Sum>i \<leftarrow> [0..<nat (ra_packet_count args)]. snd (kc_pattern args ! (i mod length (kc_pattern args))))"
    using inv by (simp add: mixed_inv_def pattern_pk_def split_def comp_def Let_def)
  from spec_returns [OF live_device.tick_check_run_ends [OF device, where E = "\<lambda>_ _. False"] TrueI]
  obtain r w where r: "tick_check_run os args st d e v = Some (Inr r, w)" "kr_tick_error r = kr_debug_ticks r - mx_expected_ticks st"
    by blast
  have "tick_check_main os args v = Some (if tick_check_fails args r then Inl (SystemExit ''FAIL: scheduler precision check failed'') else Inr r, w)"
    unfolding tick_check_main_def t bind_lift_Inr prod.case bind_io_def r(1) by (simp add: lift_res_def r(1) ret_def raise_def del: append_Cons)
  moreover have "\<not> tick_check_fails args r \<longleftrightarrow> kr_completed r \<and> kr_tx_pkts r = ra_packet_count args \<and> kr_late_pkts r = 0
        \<and> kr_underrun_pkts r = 0 \<and> kr_drop_pkts r = 0 \<and> kr_stall_events r = 0
        \<and> \<bar>kr_debug_ticks r - (\<Sum>i \<leftarrow> [0..<nat (ra_packet_count args)]. snd (kc_pattern args ! (i mod length (kc_pattern args))))\<bar>
            \<le> kc_max_abs_tick_error args" (is "_ \<longleftrightarrow> ?pass")
    unfolding ticks [symmetric] using r(2) by (auto simp: tick_check_fails_def not_less)
  ultimately have "tick_check_main os args v = Some (if ?pass then Inr r else Inl (SystemExit ''FAIL: scheduler precision check failed''), w)"
    by (cases "tick_check_fails args r") simp_all
  with t r(1) show ?thesis by blast
qed

definition demo_tick_check :: tick_check_args where
  "demo_tick_check = \<lparr> ra_desc_base = 0, ra_data_base = 0x10000000, ra_packet_count = 3, ra_rate_q16_16 = 0x10000,
     ra_force_link_up = True, ra_force_tx_ready = False, ra_no_auto_drop = False, kc_port = 0, kc_pattern = [(64, 3), (1518, 38)],
     kc_timeout = 60, kc_max_abs_tick_error = 0 \<rparr>"

theorem tick_check_verdict_witness:
  "\<exists>r w. tick_check_main (board_os demo_hw) demo_tick_check demo_board = Some (r, w)"
  using tick_check_verdict [OF live.live_device_axioms, of demo_tick_check demo_hw demo_board]
  by (auto simp: demo_tick_check_def pattern_fits_def pattern_ok_def)

lemma rx_errors_ok:
  assumes "0 \<le> xr_gap_sum c" and "xr_gap_sum c < 2 ^ 64" and "0 \<le> xr_gap_count c"
    and "0 < xc_tx_tick_hz args" and "0 < xc_rx_tick_hz args" and "xc_rx_tick_hz args < 2 ^ 64"
  shows "\<exists>e. rx_errors_of args c = Inr e"
proof -
  obtain ratio where ratio: "py_truediv (xc_rx_tick_hz args) (xc_tx_tick_hz args) = Inr ratio"
    using scheduled_seconds_ok [of "xc_rx_tick_hz args" "xc_tx_tick_hz args" 0] assms by (auto simp: scheduled_seconds_def)
  obtain avg where avg: "gap_average (xr_gap_sum c) (xr_gap_count c) = Inr avg"
    using gap_average_ok assms(1-3) by blast
  show ?thesis using assms(5) by (simp add: rx_errors_of_def ratio avg Let_def)
qed

lemma rx_errors_between:
  assumes e: "rx_errors_of args c = Inr e" and g: "xr_gap_min c \<le> g" "g \<le> xr_gap_max c"
  shows "\<bar>fl (fl (of_int g) - xe_expected e)\<bar> \<le> xe_max_abs_error e"
proof -
  have m: "xe_max_abs_error e = max (max \<bar>fl (fl (of_int (xr_gap_min c)) - xe_expected e)\<bar> \<bar>fl (fl (of_int (xr_gap_max c)) - xe_expected e)\<bar>) \<bar>xe_avg_err e\<bar>"
    using e by (auto simp: rx_errors_of_def bind_res_def Let_def split: sum.splits if_splits)
  have "fl (fl (of_int (xr_gap_min c)) - xe_expected e) \<le> fl (fl (of_int g) - xe_expected e)"
    "fl (fl (of_int g) - xe_expected e) \<le> fl (fl (of_int (xr_gap_max c)) - xe_expected e)"
    using g by (intro fl_mono diff_right_mono; simp)+
  then show ?thesis unfolding m by linarith
qed

text \<open>C39: The receive precision check.  On any device files whose accesses succeed and take time, for a trace of at
  least two packets with one gap, the trace is built and the run on it ends.  If the run raises, that is the
  timeout of a receive clear, and the check ends with it; if it returns its counters \<open>c\<close>, the check ends with
  the verdict on exactly these.  It passes if and only if, by \<open>c\<close>, the replay completed, all packets were sent
  and received, one gap fewer than packets was measured, no loss or error was counted, and the floating point
  errors of the least, the greatest and the average gap are within the tolerance.  After a pass the error of
  every gap between the least and the greatest is within it as well.\<close>

theorem rx_check_verdict:
  assumes device: "live_device os now" and n: "2 \<le> xc_packet_count args"
    and fits: "pattern_fits (xc_packet_count args) [(xc_frame_len args, xc_gap_ticks args)]"
    and hz: "0 < xc_tx_tick_hz args" "0 < xc_rx_tick_hz args" "xc_rx_tick_hz args < 2 ^ 64"
  shows "\<exists>out desc_size data_size. pst_make_trace (xc_packet_count args) (xc_frame_len args) (xc_gap_ticks args) = Inr (out, desc_size, data_size)
   \<and> ((\<exists>m w. rx_check_run os args out desc_size data_size v = Some (Inl (TimeoutError m), w)
        \<and> rx_check_main os args v = Some (Inl (TimeoutError m), w))
    \<or> (\<exists>c e w pass. rx_check_run os args out desc_size data_size v = Some (Inr c, w) \<and> rx_errors_of args c = Inr e
        \<and> rx_check_main os args v = Some (if pass then Inr (c, e) else Inl (SystemExit ''FAIL: RX-side scheduling precision check failed''), w)
        \<and> (pass \<longleftrightarrow> xr_completed c \<and> xr_tx_pkts c = xc_packet_count args \<and> xr_drop_pkts c = 0 \<and> xr_late_pkts c = 0
              \<and> xr_underrun_pkts c = 0 \<and> xc_packet_count args \<le> xr_rx_pkts c \<and> xr_rx_errors c = 0 \<and> xr_axi_errors c = 0
              \<and> xr_gap_count c = xc_packet_count args - 1 \<and> xe_max_abs_error e \<le> xc_max_error_rx_cycles args)
        \<and> (pass \<longrightarrow> (\<forall>g. xr_gap_min c \<le> g \<and> g \<le> xr_gap_max c \<longrightarrow> \<bar>fl (fl (of_int g) - xe_expected e)\<bar> \<le> xc_max_error_rx_cycles args))))"
proof -
  obtain out d s where t: "pst_make_trace (xc_packet_count args) (xc_frame_len args) (xc_gap_ticks args) = Inr (out, d, s)"
    using pst_make_trace_files [OF fits] n by auto
  have two: "\<not> xc_packet_count args < 2" using n by simp
  have main: "rx_check_main os args = bind_io (rx_check_run os args out d s) (\<lambda>c. bind_io (lift_res (rx_errors_of args c)) (\<lambda>e.
      if rx_check_fails args c e then raise (SystemExit ''FAIL: RX-side scheduling precision check failed'') else ret (c, e)))"
    unfolding rx_check_main_def if_not_P [OF two] t bind_lift_Inr prod.case ..
  from spec_outcome [OF live_device.rx_check_run_ends [OF device] TrueI, of args out d s v]
  show ?thesis
  proof (elim disjE exE conjE)
    fix x w m assume "rx_check_run os args out d s v = Some (Inl x, w)" "x = TimeoutError m"
    moreover from this have "rx_check_main os args v = Some (Inl (TimeoutError m), w)" unfolding main bind_io_def by simp
    ultimately show ?thesis using t by blast
  next
    fix c w assume run: "rx_check_run os args out d s v = Some (Inr c, w)"
      and c: "0 \<le> xr_gap_sum c" "xr_gap_sum c < 2 ^ 64" "0 \<le> xr_gap_count c"
    obtain e where e: "rx_errors_of args c = Inr e" using rx_errors_ok [OF c hz] by blast
    have "rx_check_main os args v = Some (if \<not> rx_check_fails args c e then Inr (c, e)
        else Inl (SystemExit ''FAIL: RX-side scheduling precision check failed''), w)"
      unfolding main bind_io_def run by (simp add: lift_res_def e ret_def raise_def del: append_Cons)
    moreover have "\<bar>fl (fl (of_int g) - xe_expected e)\<bar> \<le> xc_max_error_rx_cycles args"
      if "\<not> rx_check_fails args c e" "xr_gap_min c \<le> g \<and> g \<le> xr_gap_max c" for g
      using rx_errors_between [OF e, of g] that by (simp add: rx_check_fails_def)
    ultimately show ?thesis
      by (intro exI [of _ out] exI [of _ d] exI [of _ s] conjI [OF t] disjI2 exI [of _ c] exI [of _ e] exI [of _ w]
          exI [of _ "\<not> rx_check_fails args c e"] conjI)
        (auto simp: e run rx_check_fails_def)
  qed
qed

definition demo_rx_check :: rx_check_args where
  "demo_rx_check = \<lparr> xc_tx_port = 0, xc_rx_port = 1, xc_desc_base = 0x4000000, xc_data_base = 0x14000000, xc_packet_count = 3,
     xc_frame_len = 64, xc_gap_ticks = 3000, xc_tx_tick_hz = 300000000, xc_rx_tick_hz = 322265625, xc_max_error_rx_cycles = 8,
     xc_timeout = 30 \<rparr>"

theorem rx_check_verdict_witness:
  "\<exists>r w. rx_check_main (board_os demo_hw) demo_rx_check demo_board = Some (r, w)"
  using rx_check_verdict [OF live.live_device_axioms, of demo_rx_check demo_hw demo_board]
  by (auto simp: demo_rx_check_def pattern_fits_def pattern_ok_def)

end
