(* ===== verification/ValidationSuite.thy ===== *)
theory ValidationSuite
  imports TickReplay DdrCheck
begin

text \<open>
  hw_validation_suite.py: the tools as one pipeline.  The suite is the list of its steps, each a name and the
  words of a command, and their execution, which stops at the first step that fails.  The theorems: how the
  execution ends, and that every file a step reads has been written by a step before it.
\<close>

section \<open>Profiles and arguments\<close>

record profile =
  pf_ddr_repeat :: int
  pf_preload_packets :: int
  pf_preload_safe_cases :: "string list"
  pf_preload_overrate_cases :: "string list"
  pf_pcap_packets :: int
  pf_stream_packets :: int
  pf_ring_packets :: int
  pf_ring_gap_ticks :: int
  pf_ring_size :: int
  pf_prefill :: int
  pf_rx_packets :: int
  pf_timeout :: int

datatype profile_name = Smoke | Stress | Long

definition PROFILES :: "profile_name \<Rightarrow> profile" where
  "PROFILES name = (case name of
     Smoke \<Rightarrow> \<lparr> pf_ddr_repeat = 1, pf_preload_packets = 20000, pf_preload_safe_cases = [''64:3'', ''1518:38''],
       pf_preload_overrate_cases = [''64:2'', ''1518:0''], pf_pcap_packets = 4096, pf_stream_packets = 2000, pf_ring_packets = 20000,
       pf_ring_gap_ticks = 480, pf_ring_size = 0x00800000, pf_prefill = 0x00400000, pf_rx_packets = 2000, pf_timeout = 30 \<rparr>
   | Stress \<Rightarrow> \<lparr> pf_ddr_repeat = 3, pf_preload_packets = 100000, pf_preload_safe_cases = [''64:3'', ''1518:38''],
       pf_preload_overrate_cases = [''64:2'', ''1518:0''], pf_pcap_packets = 100000, pf_stream_packets = 100000, pf_ring_packets = 200000,
       pf_ring_gap_ticks = 240, pf_ring_size = 0x02000000, pf_prefill = 0x01000000, pf_rx_packets = 50000, pf_timeout = 120 \<rparr>
   | Long \<Rightarrow> \<lparr> pf_ddr_repeat = 10, pf_preload_packets = 500000, pf_preload_safe_cases = [''64:3'', ''1518:38''],
       pf_preload_overrate_cases = [''64:2'', ''1518:0''], pf_pcap_packets = 500000, pf_stream_packets = 500000, pf_ring_packets = 1000000,
       pf_ring_gap_ticks = 240, pf_ring_size = 0x04000000, pf_prefill = 0x02000000, pf_rx_packets = 200000, pf_timeout = 600 \<rparr>)"

definition profile_word :: "profile_name \<Rightarrow> string" where
  "profile_word name = (case name of Smoke \<Rightarrow> ''smoke'' | Stress \<Rightarrow> ''stress'' | Long \<Rightarrow> ''long'')"

record suite_args =
  sa_profile :: profile_name
  sa_work_dir :: string
  sa_python :: string
  sa_h2c :: string
  sa_c2h :: string
  sa_user :: string
  sa_port :: nat
  sa_rx_port :: nat
  sa_ring_base :: "int option"
  sa_rx_ring_base :: "int option"
  sa_rx_ring_size :: int
  sa_watermark :: int
  sa_cpp_loader :: bool
  sa_skip_ddr :: bool
  sa_skip_preload :: bool
  sa_skip_ring :: bool
  sa_skip_rx :: bool
  sa_force_link_up :: bool
  sa_force_tx_ready :: bool

definition suite_ring_base :: "suite_args \<Rightarrow> int" where
  "suite_ring_base a = (case sa_ring_base a of Some b \<Rightarrow> b | None \<Rightarrow> if sa_port a = 0 then 0x20000000 else 0x420000000)"

definition suite_rx_ring_base :: "suite_args \<Rightarrow> int" where
  "suite_rx_ring_base a = (case sa_rx_ring_base a of Some b \<Rightarrow> b | None \<Rightarrow> if sa_rx_port a = 0 then 0x810000000 else 0xC10000000)"

section \<open>The steps\<close>

type_synonym step = "string \<times> string list"

text \<open>\<^verbatim>\<open>f"0x{n:x}"\<close>.\<close>

abbreviation hex_word :: "int \<Rightarrow> string" where
  "hex_word \<equiv> hex_digits 0"

definition maybe_force_args :: "suite_args \<Rightarrow> string list" where
  "maybe_force_args a = opt_flag (sa_force_link_up a) ''--force-link-up'' @ opt_flag (sa_force_tx_ready a) ''--force-tx-ready''"

definition repeated_case_args :: "string list \<Rightarrow> string list" where
  "repeated_case_args cases = concat (map (\<lambda>c. [''--case'', c]) cases)"

text \<open>A script of the suite's own directory, run by the chosen interpreter.\<close>

definition suite_script :: "string \<Rightarrow> suite_args \<Rightarrow> string \<Rightarrow> string list" where
  "suite_script dir a name = [sa_python a, path_join dir name]"

definition device_words :: "suite_args \<Rightarrow> string list" where
  "device_words a = [''--h2c'', sa_h2c a, ''--user'', sa_user a, ''--port'', show_port (sa_port a)]"

definition cli_words :: "string \<Rightarrow> suite_args \<Rightarrow> nat \<Rightarrow> string list \<Rightarrow> string list" where
  "cli_words dir a port words = suite_script dir a ''traffic_replay_cli.py'' @ [''--user'', sa_user a, ''--port'', show_port port] @ words"

definition ddr_steps :: "string \<Rightarrow> suite_args \<Rightarrow> step list" where
  "ddr_steps dir a = (if sa_skip_ddr a then [] else
     [(''xdma h2c/c2h ddr readback'', suite_script dir a ''ddr_readback_check.py''
        @ [''--h2c'', sa_h2c a, ''--c2h'', sa_c2h a, ''--repeat'', show_int (pf_ddr_repeat (PROFILES (sa_profile a)))]
        @ repeated_case_args
           [''0x0000000000:0x100000'', ''0x03fff00000:0x100000'', ''0x0400000000:0x100000'', ''0x07fff00000:0x100000'',
            ''0x0800000000:0x100000'', ''0x0bfff00000:0x100000'', ''0x0c00000000:0x100000'', ''0x0ffff00000:0x100000''])])"

definition preload_steps :: "string \<Rightarrow> suite_args \<Rightarrow> string \<Rightarrow> step list" where
  "preload_steps dir a run_dir = (if sa_skip_preload a then [] else
     let cfg = PROFILES (sa_profile a);
         tx_desc_base = (if sa_port a = 0 then 0x00000000 else 0x400000000);
         tx_data_base = (if sa_port a = 0 then 0x10000000 else 0x410000000);
         common = suite_script dir a ''preload_stress_test.py'' @ device_words a
           @ [''--desc-base'', hex_word tx_desc_base, ''--data-base'', hex_word tx_data_base,
              ''--packet-count'', show_int (pf_preload_packets cfg)]
     in [(''preload scheduled no-drop sweep'', common
           @ [''--work-dir'', path_join run_dir ''preload_safe'', ''--csv'', path_join run_dir ''preload_sweep.csv'',
              ''--timeout'', show_int (pf_timeout cfg), ''--require-no-drop'']
           @ repeated_case_args (pf_preload_safe_cases cfg) @ maybe_force_args a),
         (''preload overrate robustness sweep'', common
           @ [''--work-dir'', path_join run_dir ''preload_overrate'', ''--csv'', path_join run_dir ''preload_overrate.csv'',
              ''--timeout'', show_int (pf_timeout cfg)]
           @ repeated_case_args (pf_preload_overrate_cases cfg) @ maybe_force_args a)])"

definition pcap_steps :: "string \<Rightarrow> suite_args \<Rightarrow> string \<Rightarrow> step list" where
  "pcap_steps dir a run_dir =
    (let cfg = PROFILES (sa_profile a); pcap_dir = path_join run_dir ''pcap_1518'';
         pcap_path = path_join pcap_dir ''udp_1518.pcap''; trace_dir = path_join pcap_dir ''trace'';
         stream_path = path_join pcap_dir ''stream.bin'' in
     [(''generate synthetic pcap'', suite_script dir a ''gen_synthetic_pcap.py''
        @ [''--out'', pcap_path, ''--packet-count'', show_int (pf_pcap_packets cfg), ''--frame-len'', ''1518'',
           ''--gap-ticks'', show_int (pf_ring_gap_ticks cfg), ''--vary-flow'']),
      (''pcap to descriptor/data trace'', suite_script dir a ''pcap2trace.py'' @ [pcap_path, ''--out-dir'', trace_dir]),
      (''descriptor/data trace to stream records'', suite_script dir a ''trace_to_stream.py''
        @ [''--manifest'', path_join trace_dir ''manifest.json'', ''--out'', stream_path])])"

definition ring_words :: "suite_args \<Rightarrow> string list" where
  "ring_words a = (let cfg = PROFILES (sa_profile a) in
     [''--ring-base'', hex_word (suite_ring_base a), ''--ring-size'', hex_word (pf_ring_size cfg), ''--prefill-bytes'', hex_word (pf_prefill cfg)])"

definition ring_loader_step :: "string \<Rightarrow> suite_args \<Rightarrow> string \<Rightarrow> step" where
  "ring_loader_step dir a ring_trace_dir =
    (let cfg = PROFILES (sa_profile a); manifest = path_join ring_trace_dir ''stream_manifest.json'' in
     if sa_cpp_loader a
     then let batch_bytes = min (pf_prefill cfg) (32 * 1024 * 1024) in
       (''dynamic ddr ring stream replay cpp'', [path_join dir ''xdma_stream_ring_fast'',
          ''--h2c'', (if sa_h2c a = ''/dev/xdma0_h2c_0'' then ''auto'' else sa_h2c a), ''--user'', sa_user a,
          ''--port'', show_port (sa_port a), ''--manifest'', manifest] @ ring_words a
        @ [''--batch-bytes'', hex_word batch_bytes, ''--read-bytes'', hex_word batch_bytes, ''--queue-depth'', ''4'',
           ''--watermark'', show_int (sa_watermark a), ''--timeout'', show_int (pf_timeout cfg),
           ''--feed-timeout'', show_int (pf_timeout cfg)] @ maybe_force_args a)
     else (''dynamic ddr ring stream replay python'', suite_script dir a ''xdma_stream_ring.py'' @ device_words a
        @ [''--manifest'', manifest] @ ring_words a
        @ [''--watermark'', show_int (sa_watermark a), ''--timeout'', show_int (pf_timeout cfg)] @ maybe_force_args a))"

definition ring_steps :: "string \<Rightarrow> suite_args \<Rightarrow> string \<Rightarrow> step list" where
  "ring_steps dir a run_dir = (if sa_skip_ring a then [] else
     let cfg = PROFILES (sa_profile a); pcap_dir = path_join run_dir ''pcap_1518'';
         ring_trace_dir = path_join run_dir ''ring_trace_1518'' in
     [(''stream ring throughput sweep'', suite_script dir a ''stream_stress_test.py'' @ device_words a
        @ [''--frame-sizes'', ''64,128,256,512,1024,1518'', ''--packet-count'', show_int (pf_stream_packets cfg), ''--gap-ticks'', ''0'']
        @ ring_words a
        @ [''--work-dir'', path_join run_dir ''stream_ring_sweep'', ''--csv'', path_join run_dir ''stream_ring_sweep.csv'',
           ''--timeout'', show_int (pf_timeout cfg), ''--watermark'', show_int (sa_watermark a)] @ maybe_force_args a),
      (''pcap-derived ring stream replay'', suite_script dir a ''xdma_stream_ring.py'' @ device_words a
        @ [''--manifest'', path_join pcap_dir ''stream_manifest.json''] @ ring_words a
        @ [''--watermark'', show_int (sa_watermark a), ''--timeout'', show_int (pf_timeout cfg)] @ maybe_force_args a),
      (''generate oversized ring-stream trace'', suite_script dir a ''gen_synthetic_trace.py''
        @ [''--out-dir'', ring_trace_dir, ''--packet-count'', show_int (pf_ring_packets cfg), ''--frame-len'', ''1518'',
           ''--gap-ticks'', show_int (pf_ring_gap_ticks cfg)]),
      (''ring trace to stream records'', suite_script dir a ''trace_to_stream.py''
        @ [''--manifest'', path_join ring_trace_dir ''manifest.json'', ''--out'', path_join ring_trace_dir ''stream.bin'']),
      ring_loader_step dir a ring_trace_dir])"

definition rx_steps :: "string \<Rightarrow> suite_args \<Rightarrow> string \<Rightarrow> step list" where
  "rx_steps dir a run_dir = (if sa_skip_rx a then [] else
     let cfg = PROFILES (sa_profile a) in
     [(''rx disable'', cli_words dir a (sa_rx_port a) [''rx-disable'']),
      (''rx configure capture ring'', cli_words dir a (sa_rx_port a)
        [''rx-config'', ''--ring-base'', hex_word (suite_rx_ring_base a), ''--ring-size'', hex_word (sa_rx_ring_size a),
         ''--truncate-bytes'', ''128'']),
      (''rx clear'', cli_words dir a (sa_rx_port a) [''rx-clear'']),
      (''rx enable'', cli_words dir a (sa_rx_port a) [''rx-enable'']),
      (''rx capture on'', cli_words dir a (sa_rx_port a) [''rx-capture'', ''on'']),
      (''tx to opposite qsfp for rx loopback'', suite_script dir a ''stream_stress_test.py'' @ device_words a
        @ [''--frame-sizes'', ''512'', ''--packet-count'', show_int (pf_rx_packets cfg), ''--gap-ticks'', ''0''] @ ring_words a
        @ [''--work-dir'', path_join run_dir ''rx_loopback_tx'', ''--timeout'', show_int (pf_timeout cfg),
           ''--watermark'', show_int (sa_watermark a)] @ maybe_force_args a),
      (''rx status after loopback'', cli_words dir a (sa_rx_port a) [''rx-status''])])"

definition suite_steps :: "string \<Rightarrow> suite_args \<Rightarrow> string \<Rightarrow> step list" where
  "suite_steps dir a run_dir =
     [(''tx status before'', cli_words dir a (sa_port a) [''status'']),
      (''rx status before'', cli_words dir a (sa_rx_port a) [''rx-status''])]
     @ ddr_steps dir a @ preload_steps dir a run_dir @ pcap_steps dir a run_dir @ ring_steps dir a run_dir @ rx_steps dir a run_dir
     @ [(''tx status after'', cli_words dir a (sa_port a) [''status''])]"

section \<open>Running them\<close>

text \<open>
  A process: its exit status, its output and the world after it; \<open>None\<close> if it does not end.  The log entry of a
  step is its banner and what it printed; the line with the elapsed time is left out.
\<close>

type_synonym 'w shell = "string list \<Rightarrow> 'w \<Rightarrow> ((int \<times> string) \<times> 'w) option"

definition shell_line :: "string list \<Rightarrow> string" where
  "shell_line cmd = join '' '' (map quote cmd)"

definition run_step :: "'w shell \<Rightarrow> step \<Rightarrow> ('w, string) io" where
  "run_step sh st = (\<lambda>w. case sh (snd st) w of
       None \<Rightarrow> None
     | Some ((code, said), w') \<Rightarrow>
         if code \<noteq> 0 then Some (Inl (SystemExit (''step failed: '' @ fst st)), w')
         else Some (Inr ([CHR 0x0A] @ ''===== '' @ fst st @ '' ====='' @ [CHR 0x0A] @ ''$ '' @ shell_line (snd st) @ [CHR 0x0A] @ said), w'))"

definition log_step :: "'w shell \<Rightarrow> step \<Rightarrow> string \<Rightarrow> ('w, string) io" where
  "log_step sh st acc = bind_io (run_step sh st) (\<lambda>out. ret (acc @ out))"

definition run_steps :: "'w shell \<Rightarrow> step list \<Rightarrow> ('w, string) io" where
  "run_steps sh steps = for_io steps (log_step sh) []"

definition suite_main :: "'w shell \<Rightarrow> string \<Rightarrow> string \<Rightarrow> suite_args \<Rightarrow> ('w, string) io" where
  "suite_main sh dir stamp a =
    (let run_dir = path_join (sa_work_dir a) (stamp @ ''_'' @ profile_word (sa_profile a)) in
     run_steps sh (suite_steps dir a run_dir))"

text \<open>The world after the first \<open>k\<close> commands, when all of them succeed.\<close>

fun after_steps :: "'w shell \<Rightarrow> string list list \<Rightarrow> 'w \<Rightarrow> 'w option" where
  "after_steps sh [] w = Some w"
| "after_steps sh (cmd # cmds) w = (case sh cmd w of
     None \<Rightarrow> None | Some ((code, said), w') \<Rightarrow> if code = 0 then after_steps sh cmds w' else None)"

lemma for_steps:
  assumes ends: "\<And>cmd w. sh cmd w \<noteq> None"
  shows "(\<exists>out w. for_io steps (log_step sh) acc v = Some (Inr out, w)
        \<and> after_steps sh (map snd steps) v = Some w)
    \<or> (\<exists>k u code said w. k < length steps \<and> after_steps sh (map snd (take k steps)) v = Some u
        \<and> sh (snd (steps ! k)) u = Some ((code, said), w) \<and> code \<noteq> 0
        \<and> for_io steps (log_step sh) acc v
          = Some (Inl (SystemExit (''step failed: '' @ fst (steps ! k))), w))"
proof (induction steps arbitrary: acc v)
  case Nil
  then show ?case by (simp add: ret_def)
next
  case (Cons st steps)
  obtain code said w where sh: "sh (snd st) v = Some ((code, said), w)" using ends [of "snd st" v] by auto
  show ?case
  proof (cases "code = 0")
    case False
    then show ?thesis
      by (intro disjI2 exI [of _ 0] exI [of _ v] exI [of _ code] exI [of _ said] exI [of _ w])
        (simp add: sh log_step_def run_step_def bind_io_def del: append_Cons)
  next
    case True
    then obtain acc' where step: "for_io (st # steps) (log_step sh) acc v
        = for_io steps (log_step sh) acc' w"
      by (simp add: sh log_step_def run_step_def bind_io_def ret_def del: append_Cons)
    from Cons.IH [of acc' w] show ?thesis
    proof (elim disjE exE conjE)
      fix out w' assume "for_io steps (log_step sh) acc' w = Some (Inr out, w')"
        "after_steps sh (map snd steps) w = Some w'"
      then show ?thesis using sh True unfolding step by (simp del: for_io.simps)
    next
      fix k u c o' w' assume "k < length steps" "after_steps sh (map snd (take k steps)) w = Some u"
        "sh (snd (steps ! k)) u = Some ((c, o'), w')" "c \<noteq> 0"
        "for_io steps (log_step sh) acc' w
          = Some (Inl (SystemExit (''step failed: '' @ fst (steps ! k))), w')"
      then show ?thesis using sh True
        by (intro disjI2 exI [of _ "Suc k"] exI [of _ u] exI [of _ c] exI [of _ o'] exI [of _ w'])
          (simp del: append_Cons for_io.simps add: step)
    qed
  qed
qed

text \<open>C20: How the suite ends.  If every process ends, the suite ends: normally, when every step has exited with status
  zero, each started in the world the ones before it left; or with the message that names the first step that
  failed, and then the world is the one that step left: no later step has been started.\<close>

theorem suite_stops_at_failure:
  assumes ends: "\<And>cmd w. sh cmd w \<noteq> None" and steps: "steps = suite_steps dir a (path_join (sa_work_dir a) (stamp @ ''_'' @ profile_word (sa_profile a)))"
  shows "(\<exists>out w. suite_main sh dir stamp a v = Some (Inr out, w) \<and> after_steps sh (map snd steps) v = Some w)
    \<or> (\<exists>k u code said w. k < length steps \<and> after_steps sh (map snd (take k steps)) v = Some u
        \<and> sh (snd (steps ! k)) u = Some ((code, said), w) \<and> code \<noteq> 0
        \<and> suite_main sh dir stamp a v = Some (Inl (SystemExit (''step failed: '' @ fst (steps ! k))), w))"
  using for_steps [OF ends, where steps = steps and acc = "[]" and v = v]
  by (simp only: suite_main_def run_steps_def Let_def steps)

definition smoke_run :: suite_args where
  "smoke_run = \<lparr> sa_profile = Smoke, sa_work_dir = ''/w'', sa_python = ''python3'', sa_h2c = ''/dev/xdma0_h2c_0'', sa_c2h = ''/dev/xdma0_c2h_0'',
     sa_user = ''/dev/xdma0_user'', sa_port = 0, sa_rx_port = 1, sa_ring_base = None, sa_rx_ring_base = None, sa_rx_ring_size = 0x10000000,
     sa_watermark = 64, sa_cpp_loader = False, sa_skip_ddr = True, sa_skip_preload = True, sa_skip_ring = False, sa_skip_rx = False,
     sa_force_link_up = False, sa_force_tx_ready = False \<rparr>"

text \<open>A shell that counts the commands it is given and has no working receive status.\<close>

definition broken_rx :: "nat shell" where
  "broken_rx cmd n = Some ((if last cmd = ''rx-status'' then 2 else 0, []), Suc n)"

lemma suite_stops_at_failure_witness:
  "(\<forall>cmd n. broken_rx cmd n \<noteq> None)
   \<and> suite_main broken_rx ''/t'' ''now'' smoke_run 0 = Some (Inl (SystemExit ''step failed: rx status before''), 2)
   \<and> (\<exists>k u code said w. k < length (suite_steps ''/t'' smoke_run ''/w/now_smoke'')
        \<and> after_steps broken_rx (map snd (take k (suite_steps ''/t'' smoke_run ''/w/now_smoke''))) 0 = Some u
        \<and> broken_rx (snd (suite_steps ''/t'' smoke_run ''/w/now_smoke'' ! k)) u = Some ((code, said), w) \<and> code \<noteq> 0)"
proof -
  have ends: "\<And>cmd n. broken_rx cmd n \<noteq> None" by (simp add: broken_rx_def)
  have dir: "path_join (sa_work_dir smoke_run) (''now'' @ ''_'' @ profile_word (sa_profile smoke_run)) = ''/w/now_smoke''"
    by (simp add: smoke_run_def profile_word_def path_join_def)
  have e: "suite_main broken_rx ''/t'' ''now'' smoke_run 0 = Some (Inl (SystemExit ''step failed: rx status before''), 2)"
    by (simp add: suite_main_def run_steps_def suite_steps_def log_step_def run_step_def bind_io_def ret_def broken_rx_def cli_words_def)
  have all: "\<forall>cmd n. broken_rx cmd n \<noteq> None" using ends by blast
  show ?thesis
    using suite_stops_at_failure [where sh = broken_rx and v = 0 and dir = "''/t''" and a = smoke_run and stamp = "''now''", OF ends refl]
    unfolding dir e using all by blast
qed

section \<open>What the steps read and write\<close>

text \<open>The value of an option on a command line, and the files of a step that other steps read or write.\<close>

definition option_value :: "string \<Rightarrow> string list \<Rightarrow> string option" where
  "option_value name words = (case dropWhile (\<lambda>w. w \<noteq> name) words of _ # v # _ \<Rightarrow> Some v | _ \<Rightarrow> None)"

definition value_of :: "string \<Rightarrow> string list \<Rightarrow> string list" where
  "value_of name words = (case option_value name words of None \<Rightarrow> [] | Some v \<Rightarrow> [v])"

definition step_inputs :: "string \<Rightarrow> string list \<Rightarrow> string list" where
  "step_inputs dir words = value_of ''--manifest'' words
     @ (if words ! 1 = path_join dir ''pcap2trace.py'' then [words ! 2] else [])"

definition step_outputs :: "string \<Rightarrow> string list \<Rightarrow> string list" where
  "step_outputs dir words =
    (if words ! 1 = path_join dir ''gen_synthetic_pcap.py'' then value_of ''--out'' words
     else if words ! 1 = path_join dir ''pcap2trace.py'' \<or> words ! 1 = path_join dir ''gen_synthetic_trace.py''
     then map (\<lambda>d. path_join d ''manifest.json'') (value_of ''--out-dir'' words)
     else if words ! 1 = path_join dir ''trace_to_stream.py''
     then map (\<lambda>p. path_join (parent_dir p) ''stream_manifest.json'') (value_of ''--out'' words)
     else [])"

fun inputs_ready :: "string \<Rightarrow> string set \<Rightarrow> step list \<Rightarrow> bool" where
  "inputs_ready dir have [] \<longleftrightarrow> True"
| "inputs_ready dir have (st # steps) \<longleftrightarrow> set (step_inputs dir (snd st)) \<subseteq> have
     \<and> inputs_ready dir (have \<union> set (step_outputs dir (snd st))) steps"

definition outputs_of :: "string \<Rightarrow> step list \<Rightarrow> string set" where
  "outputs_of dir steps = (\<Union>st \<in> set steps. set (step_outputs dir (snd st)))"

lemma inputs_ready_append:
  "inputs_ready dir S (xs @ ys) \<longleftrightarrow> inputs_ready dir S xs \<and> inputs_ready dir (S \<union> outputs_of dir xs) ys"
  by (induction xs arbitrary: S) (auto simp: outputs_of_def Un_assoc)

lemma inputs_ready_nth:
  "inputs_ready dir S steps \<Longrightarrow> i < length steps \<Longrightarrow>
     set (step_inputs dir (snd (steps ! i))) \<subseteq> S \<union> (\<Union>j < i. set (step_outputs dir (snd (steps ! j))))"
proof (induction steps arbitrary: S i)
  case (Cons st steps)
  show ?case
  proof (cases i)
    case 0
    with Cons.prems show ?thesis by simp
  next
    case (Suc k)
    have "set (step_inputs dir (snd (steps ! k))) \<subseteq> (S \<union> set (step_outputs dir (snd st))) \<union> (\<Union>j < k. set (step_outputs dir (snd (steps ! j))))"
      using Cons.IH [of "S \<union> set (step_outputs dir (snd st))" k] Cons.prems Suc by simp
    then show ?thesis by (simp add: Suc lessThan_Suc_eq_insert_0 image_image Un_assoc)
  qed
qed simp

text \<open>A word that is not an option.\<close>

definition plain_word :: "string \<Rightarrow> bool" where
  "plain_word w \<longleftrightarrow> w = [] \<or> hd w \<noteq> CHR ''-''"

lemma plain_join: "plain_word d \<Longrightarrow> plain_word n \<Longrightarrow> plain_word (path_join d n)"
  by (auto simp: plain_word_def path_join_def)

lemma plain_not_option: "plain_word w \<Longrightarrow> w \<noteq> CHR ''-'' # cs"
  by (auto simp: plain_word_def)

lemma plain_numbers: "plain_word (show_port p)" "plain_word (hex_word n)"
proof -
  obtain c cs where s: "show_base 10 p = c # cs" by (cases "show_base 10 p") simp_all
  then show "plain_word (show_port p)" using show_base_no_sign(1) [OF _ _ s] by (simp add: plain_word_def show_port_def show_int_def)
  show "plain_word (hex_word n)" by (simp add: plain_word_def hex_digits_def)
qed

lemma show_int_not_option: "show_int n \<noteq> CHR ''-'' # CHR ''-'' # cs"
proof (cases "n < 0")
  case True
  have "CHR ''-'' \<notin> set (show_base 10 (nat (- n)))" using show_base_char_facts(1) [of 10 "CHR ''-''" "nat (- n)"] by auto
  then show ?thesis using True by (auto simp: show_int_def)
next
  case False
  have "CHR ''-'' \<notin> set (show_base 10 (nat n))" using show_base_char_facts(1) [of 10 "CHR ''-''" "nat n"] by auto
  then show ?thesis using False by (auto simp: show_int_def)
qed

lemma parent_join: "name \<noteq> [] \<Longrightarrow> CHR ''/'' \<notin> set name \<Longrightarrow> f \<noteq> [] \<Longrightarrow> CHR ''/'' \<notin> set f \<Longrightarrow> name \<noteq> ''.'' \<Longrightarrow>
  parent_dir (path_join (path_join d name) f) = path_join d name"
proof -
  assume a: "name \<noteq> []" "CHR ''/'' \<notin> set name" "f \<noteq> []" "CHR ''/'' \<notin> set f" "name \<noteq> ''.''"
  define p where "p = path_join d name"
  have l: "last name \<noteq> CHR ''/''" using a(1,2) last_in_set by metis
  have p: "p \<noteq> []" "p \<noteq> ''.''" "last p \<noteq> CHR ''/''"
    using a l by (auto simp: p_def path_join_def append_eq_Cons_conv)
  then have j: "path_join p f = p @ CHR ''/'' # f" by (simp add: path_join_def)
  have "\<forall>c \<in> set (rev f). c \<noteq> CHR ''/''" using a(4) by auto
  then have "dropWhile (\<lambda>c. c \<noteq> CHR ''/'') (rev f @ CHR ''/'' # rev p) = CHR ''/'' # rev p"
    by (subst dropWhile_append2) simp_all
  then show ?thesis using p(1) unfolding p_def [symmetric] j by (simp add: parent_dir_def)
qed


text \<open>Reading a command line word by word.\<close>

lemma value_of_Nil: "value_of name [] = []"
  by (simp add: value_of_def option_value_def)

lemma value_of_hit: "value_of name (name # v # ws) = [v]"
  by (simp add: value_of_def option_value_def)

lemma value_of_skip: "w \<noteq> name \<Longrightarrow> value_of name (w # ws) = value_of name ws"
  by (simp add: value_of_def option_value_def)

lemma value_of_plain: "plain_word w \<Longrightarrow> value_of (CHR ''-'' # cs) (w # ws) = value_of (CHR ''-'' # cs) ws"
  by (rule value_of_skip) (rule plain_not_option)

lemma value_of_int: "value_of (CHR ''-'' # CHR ''-'' # cs) (show_int n # ws) = value_of (CHR ''-'' # CHR ''-'' # cs) ws"
  by (rule value_of_skip) (rule show_int_not_option)

lemma plain_Cons: "plain_word (c # cs) \<longleftrightarrow> c \<noteq> CHR ''-''"
  by (simp add: plain_word_def)

lemma plain_first: "plain_word d \<Longrightarrow> plain_word n \<Longrightarrow> CHR ''-'' # cs \<noteq> path_join d n"
  using plain_not_option [OF plain_join] by metis

definition plain_suite :: "string \<Rightarrow> suite_args \<Rightarrow> string \<Rightarrow> bool" where
  "plain_suite dir a run_dir \<longleftrightarrow> list_all plain_word [dir, run_dir, sa_python a, sa_h2c a, sa_c2h a, sa_user a]"

lemma plain_suite_words:
  assumes "plain_suite dir a run_dir"
  shows "plain_word dir" "plain_word run_dir" "plain_word (sa_python a)" "plain_word (sa_h2c a)" "plain_word (sa_c2h a)" "plain_word (sa_user a)"
  using assms by (simp_all add: plain_suite_def)

lemmas word_skips = value_of_Nil value_of_hit value_of_skip value_of_plain value_of_int plain_Cons plain_numbers plain_join

lemmas step_words = step_inputs_def step_outputs_def suite_script_def cli_words_def device_words_def ring_words_def maybe_force_args_def
  repeated_case_args_def

lemma ddr_files:
  assumes "plain_suite dir a run_dir"
  shows "inputs_ready dir S (ddr_steps dir a)" and "outputs_of dir (ddr_steps dir a) = {}"
  by (simp_all add: ddr_steps_def step_words word_skips plain_suite_words [OF assms] outputs_of_def)

lemma preload_files:
  assumes "plain_suite dir a run_dir"
  shows "inputs_ready dir S (preload_steps dir a run_dir)" and "outputs_of dir (preload_steps dir a run_dir) = {}"
  by (cases "sa_profile a"; simp add: preload_steps_def step_words word_skips plain_suite_words [OF assms] outputs_of_def Let_def PROFILES_def)+

lemma rx_files:
  assumes "plain_suite dir a run_dir"
  shows "inputs_ready dir S (rx_steps dir a run_dir)" and "outputs_of dir (rx_steps dir a run_dir) = {}"
  by (simp_all add: rx_steps_def step_words word_skips plain_suite_words [OF assms] outputs_of_def Let_def)

lemma pcap_files:
  assumes "plain_suite dir a run_dir"
  shows "inputs_ready dir S (pcap_steps dir a run_dir)"
    and "path_join (path_join run_dir ''pcap_1518'') ''stream_manifest.json'' \<in> outputs_of dir (pcap_steps dir a run_dir)"
  by (simp_all add: pcap_steps_def step_words word_skips plain_suite_words [OF assms] outputs_of_def Let_def parent_join)

lemma loader_files:
  assumes "plain_suite dir a run_dir" and "d = path_join run_dir ''ring_trace_1518''"
  shows "step_inputs dir (snd (ring_loader_step dir a d)) = [path_join d ''stream_manifest.json'']"
  by (simp add: assms(2) ring_loader_step_def step_words word_skips plain_suite_words [OF assms(1)] plain_first Let_def)

lemma ring_files:
  assumes "plain_suite dir a run_dir" and "path_join (path_join run_dir ''pcap_1518'') ''stream_manifest.json'' \<in> S"
  shows "inputs_ready dir S (ring_steps dir a run_dir)"
  using assms(2)
  by (simp add: ring_steps_def loader_files [OF assms(1) refl] step_words(2-) step_inputs_def [of dir "_ # _"] word_skips plain_suite_words [OF assms(1)] Let_def parent_join)

text \<open>C11: The steps fit together: unless one of the paths given to the suite reads as an option, every manifest and
  capture a step of the suite reads has been written by an earlier step of the same run, whatever the profile and
  the steps skipped.\<close>

theorem suite_inputs_written:
  assumes plain: "plain_suite dir a run_dir" and i: "i < length (suite_steps dir a run_dir)"
  shows "set (step_inputs dir (snd (suite_steps dir a run_dir ! i)))
    \<subseteq> (\<Union>j < i. set (step_outputs dir (snd (suite_steps dir a run_dir ! j))))"
proof -
  have status: "inputs_ready dir S [(n, cli_words dir a p [w])]" "outputs_of dir [(n, cli_words dir a p [w])] = {}"
    if "w = ''status'' \<or> w = ''rx-status''" for S n p w
    using that by (auto simp: step_words word_skips plain_suite_words [OF plain] outputs_of_def)
  have first: "inputs_ready dir S (st # steps) \<longleftrightarrow> inputs_ready dir S [st] \<and> inputs_ready dir (S \<union> outputs_of dir [st]) steps" for S st steps
    by (simp add: outputs_of_def)
  have "inputs_ready dir {} (suite_steps dir a run_dir)"
    unfolding suite_steps_def append_Cons append_Nil first [where steps = "_ # _"] first [where steps = "_ @ _"] inputs_ready_append
    by (simp add: status ddr_files [OF plain] preload_files [OF plain] pcap_files [OF plain] rx_files [OF plain] ring_files [OF plain]
        del: inputs_ready.simps)
  from inputs_ready_nth [OF this i] show ?thesis by simp
qed

lemma suite_inputs_written_witness:
  "step_inputs ''/t'' (snd (suite_steps ''/t'' smoke_run ''/w/now'' ! 4)) = [''/w/now/pcap_1518/trace/manifest.json'']
   \<and> ''/w/now/pcap_1518/trace/manifest.json'' \<in> (\<Union>j < 4. set (step_outputs ''/t'' (snd (suite_steps ''/t'' smoke_run ''/w/now'' ! j))))"
proof -
  have plain: "plain_suite ''/t'' smoke_run ''/w/now''" by (simp add: plain_suite_def plain_Cons smoke_run_def)
  have i: "4 < length (suite_steps ''/t'' smoke_run ''/w/now'')" by (simp add: suite_steps_def pcap_steps_def Let_def)
  have "step_inputs ''/t'' (snd (suite_steps ''/t'' smoke_run ''/w/now'' ! 4)) = [''/w/now/pcap_1518/trace/manifest.json'']"
    by (simp add: suite_steps_def ddr_steps_def preload_steps_def pcap_steps_def smoke_run_def step_words word_skips Let_def path_join_def)
  with suite_inputs_written [OF plain i] show ?thesis by simp
qed

end
