(* ===== verification/PrecisionSuite.thy ===== *)
theory PrecisionSuite
  imports ValidationSuite IntervalCheck PatternTrace "HOL-Library.List_Lexorder" "HOL-Library.Char_ord"
begin

text \<open>
  replay_precision_suite.py: for each of its cases it writes a pattern trace and has rx_trace_interval_check
  replay and judge it.  The theorems: all selected cases are run, whatever the outcome of the others, and the
  suite passes exactly if all of them pass; and what the interval check reads back from the files of a case is
  the pattern of that case.
\<close>

section \<open>Cases and arguments\<close>

record precision_case =
  pc_name :: string
  pc_packet_count :: int
  pc_pattern :: "(int \<times> int) list"
  pc_max_error_ns :: rat
  pc_max_samples :: int

definition PRECISION_CASES :: "precision_case list" where
  "PRECISION_CASES =
    [\<lparr> pc_name = ''uniform_128B_gap3000'', pc_packet_count = 1024, pc_pattern = [(128, 3000)],
       pc_max_error_ns = 80, pc_max_samples = 4096 \<rparr>,
     \<lparr> pc_name = ''mixed_gap_128B'', pc_packet_count = 4096,
       pc_pattern = [(128, 3000), (128, 300), (128, 1200), (128, 37), (128, 4800), (128, 96), (128, 15000), (128, 8)],
       pc_max_error_ns = 80, pc_max_samples = 4096 \<rparr>,
     \<lparr> pc_name = ''small_packet_small_gap'', pc_packet_count = 4096,
       pc_pattern = [(64, 3), (64, 3), (64, 4), (64, 3), (64, 5), (64, 6), (64, 3), (64, 8)],
       pc_max_error_ns = 30, pc_max_samples = 4096 \<rparr>,
     \<lparr> pc_name = ''mixed_size_legal'', pc_packet_count = 4096,
       pc_pattern = [(64, 80), (1518, 8), (256, 80), (512, 20), (128, 25), (1518, 12)],
       pc_max_error_ns = 120, pc_max_samples = 4096 \<rparr>,
     \<lparr> pc_name = ''long_uniform_128B_gap3000'', pc_packet_count = 200000, pc_pattern = [(128, 3000)],
       pc_max_error_ns = 80, pc_max_samples = 4096 \<rparr>]"

text \<open>A missing \<^verbatim>\<open>--case\<close> and an empty list of cases are the same to the suite.\<close>

record precision_args =
  ps_tx_port :: nat
  ps_rx_port :: nat
  ps_h2c :: string
  ps_user :: string
  ps_work_dir :: string
  ps_desc_base :: int
  ps_data_base :: int
  ps_desc_stride :: int
  ps_data_stride :: int
  ps_timeout :: rat
  ps_chunk_bytes :: int
  ps_case :: "string list"
  ps_python :: string
  ps_report :: "string option"

section \<open>Files\<close>

record precision_manifest =
  pm_descriptor_file :: string
  pm_data_file :: string
  pm_packet_count :: int
  pm_pattern :: "(int \<times> int) list"
  pm_data_bytes_aligned :: int
  pm_total_frame_bytes :: int
  pm_max_frame_len :: int

datatype contents = Raw bytes | Text string | Manifest precision_manifest

text \<open>How writing a file, with the directories above it, changes the world.\<close>

type_synonym 'w disk = "string \<Rightarrow> contents \<Rightarrow> 'w \<Rightarrow> 'w"

definition save :: "'w disk \<Rightarrow> string \<Rightarrow> contents \<Rightarrow> ('w, unit) io" where
  "save disk path c = (\<lambda>w. Some (Inr (), disk path c w))"

text \<open>The two files, then the manifest; the value is the path of the manifest.\<close>

definition save_trace :: "'w disk \<Rightarrow> string \<Rightarrow> int \<Rightarrow> (int \<times> int) list \<Rightarrow> ('w, string) io" where
  "save_trace disk out_dir packet_count pattern =
     (let desc_path = path_join out_dir ''desc.bin''; data_path = path_join out_dir ''data.bin'';
          manifest_path = path_join out_dir ''manifest.json'' in
      bind_io (lift_res (suite_make_trace packet_count pattern)) (\<lambda>st.
      seq_io (save disk desc_path (Raw (tr_desc_file (su_out st))))
     (seq_io (save disk data_path (Raw (tr_data_file (su_out st))))
     (seq_io (save disk manifest_path (Manifest \<lparr> pm_descriptor_file = desc_path, pm_data_file = data_path,
         pm_packet_count = packet_count, pm_pattern = pattern, pm_data_bytes_aligned = tr_words (su_out st) * DATA_BEAT_BYTES,
         pm_total_frame_bytes = su_total_frame_bytes st, pm_max_frame_len = su_max_frame_len st \<rparr>))
     (ret manifest_path)))))"

section \<open>Running the cases\<close>

definition precision_command :: "string \<Rightarrow> precision_args \<Rightarrow> precision_case \<Rightarrow> nat \<Rightarrow> string \<Rightarrow> string list" where
  "precision_command dir args c index manifest =
    (let csv_path = path_join (path_join (ps_work_dir args) (pc_name c)) ''rx_gap_samples.csv'';
         desc_base = ps_desc_base args + int index * ps_desc_stride args;
         data_base = ps_data_base args + int index * ps_data_stride args in
     [ps_python args, path_join dir ''rx_trace_interval_check.py'', ''--h2c'', ps_h2c args, ''--user'', ps_user args,
      ''--tx-port'', show_port (ps_tx_port args), ''--rx-port'', show_port (ps_rx_port args), ''--manifest'', manifest,
      ''--desc-base'', show_hex desc_base, ''--data-base'', show_hex data_base, ''--max-samples'', show_int (pc_max_samples c),
      ''--max-error-ns'', show_float (pc_max_error_ns c), ''--timeout'', show_float (ps_timeout args),
      ''--chunk-bytes'', show_int (ps_chunk_bytes args), ''--csv'', csv_path])"

text \<open>A process whose status is looked at and not raised.\<close>

definition run_process :: "'w shell \<Rightarrow> string list \<Rightarrow> ('w, int \<times> string) io" where
  "run_process sh command = (\<lambda>w. case sh command w of None \<Rightarrow> None | Some (r, w') \<Rightarrow> Some (Inr r, w'))"

definition precision_run_case :: "'w shell \<Rightarrow> 'w disk \<Rightarrow> string \<Rightarrow> precision_args \<Rightarrow> precision_case \<Rightarrow> nat \<Rightarrow> ('w, bool \<times> string) io" where
  "precision_run_case sh disk dir args c index =
    (let case_dir = path_join (ps_work_dir args) (pc_name c) in
     bind_io (save_trace disk case_dir (pc_packet_count c) (pc_pattern c)) (\<lambda>manifest.
     bind_io (run_process sh (precision_command dir args c index manifest)) (\<lambda>(returncode, stdout).
     seq_io (save disk (path_join case_dir ''run.log'') (Text stdout)) (ret (returncode = 0, stdout)))))"

definition rstrip :: "string \<Rightarrow> string" where
  "rstrip s = rev (dropWhile is_space (rev s))"

type_synonym precision_result = "precision_case \<times> bool \<times> string"

definition verdict_word :: "bool \<Rightarrow> string" where
  "verdict_word ok = (if ok then ''PASS'' else ''FAIL'')"

definition report_text :: "precision_result list \<Rightarrow> string" where
  "report_text results =
     join [CHR 0x0A]
      ([''# Replay Precision Suite'', '''',
        ''The tests replay generated PRELOAD traces through the optical loopback and compare RX-side SOP-to-SOP intervals with descriptor gaps.'',
        '''', ''| Case | Result | Packets | Pattern |'', ''| --- | --- | ---: | --- |'']
       @ map (\<lambda>(c, ok, output).
           ''| `'' @ pc_name c @ ''` | '' @ verdict_word ok @ '' | '' @ show_int (pc_packet_count c) @ '' | `''
           @ join '', '' (map (\<lambda>(length, gap). show_int length @ ''B/'' @ show_int gap @ ''tick'') (pc_pattern c)) @ ''` |'') results
       @ ['''']
       @ concat (map (\<lambda>(c, ok, output). [''## '' @ pc_name c, '''', ''```text'', rstrip output, ''```'', '''']) results))"

text \<open>One turn of the loop: the printed lines, the results and whether one failed.\<close>

definition precision_step :: "'w shell \<Rightarrow> 'w disk \<Rightarrow> string \<Rightarrow> precision_args \<Rightarrow> nat \<times> precision_case
    \<Rightarrow> string list \<times> precision_result list \<times> bool \<Rightarrow> ('w, string list \<times> precision_result list \<times> bool) io" where
  "precision_step sh disk dir args = (\<lambda>(index, c) (lines, results, failed).
     bind_io (precision_run_case sh disk dir args c index) (\<lambda>(ok, output).
     ret (lines @ [''=== '' @ pc_name c @ '' ==='', rstrip output, ''RESULT '' @ pc_name c @ '': '' @ verdict_word ok],
          results @ [(c, ok, output)], failed \<or> \<not> ok)))"

definition selected_cases :: "string list \<Rightarrow> precision_case list" where
  "selected_cases selected = filter (\<lambda>c. selected = [] \<or> pc_name c \<in> set selected) PRECISION_CASES"

definition unknown_cases :: "string list \<Rightarrow> string list" where
  "unknown_cases selected = sort (remdups (filter (\<lambda>n. n \<notin> set (map pc_name PRECISION_CASES)) selected))"

definition precision_main :: "'w shell \<Rightarrow> 'w disk \<Rightarrow> string \<Rightarrow> precision_args \<Rightarrow> ('w, string list) io" where
  "precision_main sh disk dir args =
    (let cases = selected_cases (ps_case args); unknown = unknown_cases (ps_case args) in
     if unknown \<noteq> [] then raise (SystemExit (''unknown case(s): '' @ join '', '' unknown))
     else if cases = [] then raise (SystemExit ''no precision cases selected'')
     else bind_io (for_io (zip [0..<length cases] cases) (precision_step sh disk dir args) ([], [], False)) (\<lambda>(lines, results, failed).
          bind_io (case ps_report args of
                     None \<Rightarrow> ret lines
                   | Some path \<Rightarrow> seq_io (save disk path (Text (report_text results))) (ret (lines @ [''report: '' @ path]))) (\<lambda>lines.
          if failed then raise (SystemExit ''one or more replay precision cases failed'') else ret lines)))"

section \<open>The traces of the cases\<close>

lemma suite_make_trace_ok:
  assumes "pattern_fits n pattern"
  shows "\<exists>st. suite_make_trace n pattern = Inr st \<and> su_out st = trace_of (map (pattern_pk pattern) [0..<nat n])"
proof -
  have ok: "pattern_ok pattern" using assms by (simp add: pattern_fits_def)
  obtain st where st: "fold_res (suite_packet pattern) [0..<nat n] suite_init = Inr st"
    using suite.write_loop_ok [OF ok init_outs(2) pattern_trace_ok [OF assms]] by blast
  from suite.write_loop_Inr [OF ok init_outs(2) st] st show ?thesis by (simp add: suite_make_trace_def)
qed

text \<open>Reading the first 16 bytes of a descriptor is reading the descriptor.\<close>

lemma unpack_prefix: "unpack_QIHH (pyslice (i * 64) (i * 64 + 16) bs) = desc_at bs i"
proof -
  have "pyslice (i * 64) (i * 64 + 16) bs = take 16 (pyslice (i * 64) (i * 64 + 64) bs)" by (simp add: pyslice_def min_def)
  then show ?thesis by (simp add: desc_at_def unpack_QIHH_take16)
qed

lemma read_back_descriptors:
  assumes "trace_ok ps"
  shows "read_descriptors (tr_desc_file (trace_of ps)) (Some (int (length ps)))
     = Inr (map (\<lambda>i. packet_desc (total_beats (take i ps)) (ps ! i)) [0..<length ps])"
proof -
  have "length (tr_desc_file (trace_of ps)) mod 64 = 0" by (simp add: length_desc_file)
  then show ?thesis
    using desc_at_trace_of [OF assms] by (simp add: read_descriptors_def unpack_prefix)
qed

lemma fold_max_bound: "fold (\<lambda>d high. max high (g d)) ds (h :: int) \<le> b \<longleftrightarrow> h \<le> b \<and> (\<forall>d \<in> set ds. g d \<le> b)"
  by (induction ds arbitrary: h) auto

lemma trace_data_fits:
  "trace_data_bytes (map (\<lambda>i. packet_desc (total_beats (take i ps)) (ps ! i)) [0..<length ps]) \<le> int (length (data_of ps))"
proof -
  have "d_data_word_offset d * 64 + align_up (d_frame_len d) 64 \<le> total_beats ps * 64"
    if "d = packet_desc (total_beats (take i ps)) (ps ! i)" "i < length ps" for d i
  proof -
    have "align_up (int (length (snd (ps ! i)))) 64 = beats (snd (ps ! i)) * 64"
      by (simp add: beats_def align_up_div_mult)
    moreover have "total_beats (take i ps) + beats (snd (ps ! i)) \<le> total_beats ps"
      using total_beats_take_mono [of "Suc i" "length ps" ps] that(2) by (simp add: total_beats_take_Suc)
    ultimately show ?thesis by (simp add: that(1) packet_desc_def)
  qed
  then show ?thesis by (auto simp: trace_data_bytes_def fold_max_bound length_data_of)
qed

lemma pattern_data_bound:
  assumes ok: "pattern_ok pattern" and b: "\<forall>(l, g) \<in> set pattern. l \<le> b * 64"
  shows "int (length (data_of (map (pattern_pk pattern) [0..<n]))) \<le> int n * b * 64"
proof -
  have "beats (snd (pattern_pk pattern i)) \<le> b" for i
  proof -
    obtain l g where lg: "pattern ! (i mod length pattern) = (l, g)" by (meson surj_pair)
    have "(l, g) \<in> set pattern" unfolding lg [symmetric] using ok by (intro nth_mem) (simp add: pattern_ok_def)
    then have "align_up l 64 \<le> b * 64" using b by (intro align_up_minimal) auto
    then show ?thesis using zdiv_mono1 [of "align_up l 64" "b * 64" 64] pattern_pk_len [OF ok lg] by (simp add: beats_def)
  qed
  then have "total_beats (map (pattern_pk pattern) [0..<n]) \<le> int n * b"
    using total_beats_bound [of "map (pattern_pk pattern) [0..<n]" b] by simp
  then show ?thesis by (simp add: length_data_of)
qed

lemma cases_fit:
  assumes "c \<in> set PRECISION_CASES"
  shows "pattern_fits (pc_packet_count c) (pc_pattern c)" and "2 \<le> pc_packet_count c"
    and "pc_packet_count c * 64 \<le> 0x2000000"
    and "\<exists>b. (\<forall>(l, g) \<in> set (pc_pattern c). l \<le> b * 64) \<and> pc_packet_count c * b * 64 \<le> 0x10000000"
proof -
  show "pattern_fits (pc_packet_count c) (pc_pattern c)" "2 \<le> pc_packet_count c" "pc_packet_count c * 64 \<le> 0x2000000"
    using assms by (auto simp: PRECISION_CASES_def pattern_fits_def pattern_ok_def)
  show "\<exists>b. (\<forall>(l, g) \<in> set (pc_pattern c). l \<le> b * 64) \<and> pc_packet_count c * b * 64 \<le> 0x10000000"
    using assms by (intro exI [of _ "if pc_packet_count c = 4096 then 24 else 2"]) (auto simp: PRECISION_CASES_def)
qed

text \<open>C40: The traces of the precision suite.  For each of its cases the generator writes a trace whose descriptors,
  as rx_trace_interval_check reads them from the file with the packet count of the manifest, are as many as the
  packets of the case and carry the gaps and lengths of its pattern in turn; the data file is as long as they
  refer to, there are at least two of them, and each file fits the stride between the cases in card memory.\<close>

theorem precision_traces_read_back:
  assumes c: "c \<in> set PRECISION_CASES"
  shows "\<exists>st descs. suite_make_trace (pc_packet_count c) (pc_pattern c) = Inr st
     \<and> read_descriptors (tr_desc_file (su_out st)) (Some (pc_packet_count c)) = Inr descs
     \<and> map (\<lambda>d. (d_frame_len d, d_gap_ticks d)) descs
        = map (\<lambda>i. pc_pattern c ! (i mod length (pc_pattern c))) [0..<nat (pc_packet_count c)]
     \<and> 2 \<le> length descs \<and> trace_data_bytes descs \<le> int (length (tr_data_file (su_out st)))
     \<and> int (length (tr_desc_file (su_out st))) \<le> 0x2000000 \<and> int (length (tr_data_file (su_out st))) \<le> 0x10000000"
proof -
  let ?n = "pc_packet_count c" and ?p = "pc_pattern c"
  let ?ps = "map (pattern_pk ?p) [0..<nat ?n]"
  let ?descs = "map (\<lambda>i. packet_desc (total_beats (take i ?ps)) (?ps ! i)) [0..<length ?ps]"
  note fit = cases_fit [OF c]
  have ok: "pattern_ok ?p" using fit(1) by (simp add: pattern_fits_def)
  obtain st where st: "suite_make_trace ?n ?p = Inr st" "su_out st = trace_of ?ps" using suite_make_trace_ok [OF fit(1)] by blast
  have n: "int (length ?ps) = ?n" using fit(2) by simp
  have "(d_frame_len d, d_gap_ticks d) = ?p ! (i mod length ?p)" if "d = packet_desc w (pattern_pk ?p i)" for d w i
  proof -
    obtain l g where lg: "?p ! (i mod length ?p) = (l, g)" by (meson surj_pair)
    show ?thesis using pattern_pk_len [OF ok lg] by (simp add: that packet_desc_def lg)
  qed
  then have words: "map (\<lambda>d. (d_frame_len d, d_gap_ticks d)) ?descs = map (\<lambda>i. ?p ! (i mod length ?p)) [0..<nat ?n]" by simp
  obtain b where b: "\<forall>(l, g) \<in> set ?p. l \<le> b * 64" "?n * b * 64 \<le> 0x10000000" using fit(4) by blast
  have data: "tr_data_file (su_out st) = data_of ?ps" by (simp add: st(2) trace_of_def)
  have d: "int (length (tr_data_file (su_out st))) \<le> 0x10000000" unfolding data using pattern_data_bound [OF ok b(1), of "nat ?n"] b(2) fit(2) by (simp add: mult.commute)
  have h: "int (length (tr_desc_file (su_out st))) \<le> 0x2000000" using fit(2,3) by (simp add: st(2) length_desc_file)
  have r: "read_descriptors (tr_desc_file (su_out st)) (Some ?n) = Inr ?descs"
    using read_back_descriptors [OF pattern_trace_ok [OF fit(1)]] unfolding st(2) n .
  have t: "trace_data_bytes ?descs \<le> int (length (tr_data_file (su_out st)))" unfolding data by (rule trace_data_fits)
  have two: "2 \<le> length ?descs" using fit(2) by simp
  show ?thesis by (intro exI conjI) (rule st(1) r words two t h d)+
qed

theorem precision_traces_read_back_witness:
  "hd PRECISION_CASES \<in> set PRECISION_CASES
   \<and> (\<exists>st descs. suite_make_trace 1024 [(128, 3000)] = Inr st \<and> read_descriptors (tr_desc_file (su_out st)) (Some 1024) = Inr descs
        \<and> map (\<lambda>d. (d_frame_len d, d_gap_ticks d)) descs = replicate 1024 (128, 3000))"
proof -
  have c: "hd PRECISION_CASES \<in> set PRECISION_CASES" by (simp add: PRECISION_CASES_def)
  have p: "pc_packet_count (hd PRECISION_CASES) = 1024" "pc_pattern (hd PRECISION_CASES) = [(128, 3000)]" by (simp_all add: PRECISION_CASES_def)
  have r: "map (\<lambda>i. [(128, 3000) :: int \<times> int] ! (i mod length [(128, 3000) :: int \<times> int])) [0..<nat 1024] = replicate 1024 (128, 3000)"
    by (simp add: map_replicate_const del: upt_rec_numeral)
  from c precision_traces_read_back [OF c, unfolded p r] show ?thesis by blast
qed

section \<open>The run of the suite\<close>

lemma precision_run_case_ends:
  assumes ends: "\<And>cmd w. sh cmd w \<noteq> None" and fit: "pattern_fits (pc_packet_count c) (pc_pattern c)"
  shows "\<exists>r w. precision_run_case sh disk dir args c i v = Some (Inr r, w)"
proof -
  have proc: "\<exists>r w. run_process sh cmd u = Some (Inr r, w)" for cmd u using ends [of cmd u] by (auto simp: run_process_def)
  obtain st where "suite_make_trace (pc_packet_count c) (pc_pattern c) = Inr st" using suite_make_trace_ok [OF fit] by blast
  then have "\<exists>m w. save_trace disk d (pc_packet_count c) (pc_pattern c) v = Some (Inr m, w)" for d
    by (simp add: save_trace_def Let_def lift_res_def ret_def bind_io_def save_def)
  then obtain m u where m: "save_trace disk (path_join (ps_work_dir args) (pc_name c)) (pc_packet_count c) (pc_pattern c) v = Some (Inr m, u)"
    by blast
  obtain r w where "run_process sh (precision_command dir args c i m) u = Some (Inr r, w)" using proc by blast
  then show ?thesis
    by (cases r) (simp add: precision_run_case_def Let_def bind_io_def m save_def ret_def)
qed

text \<open>The worlds between the cases and the results.\<close>

definition case_runs :: "'w shell \<Rightarrow> 'w disk \<Rightarrow> string \<Rightarrow> precision_args \<Rightarrow> nat \<Rightarrow> precision_case list \<Rightarrow> 'w list \<Rightarrow> (bool \<times> string) list \<Rightarrow> bool" where
  "case_runs sh disk dir args k cs ws rs \<longleftrightarrow> length ws = Suc (length cs) \<and> length rs = length cs
     \<and> (\<forall>i < length cs. precision_run_case sh disk dir args (cs ! i) (k + i) (ws ! i) = Some (Inr (rs ! i), ws ! Suc i))"

lemma case_runs_Cons:
  assumes "precision_run_case sh disk dir args c k v = Some (Inr r, w)" and "case_runs sh disk dir args (Suc k) cs ws rs" and "ws ! 0 = w"
  shows "case_runs sh disk dir args k (c # cs) (v # ws) (r # rs)"
  using assms by (auto simp: case_runs_def less_Suc_eq_0_disj)

lemma precision_loop:
  assumes ends: "\<And>cmd w. sh cmd w \<noteq> None" and fit: "\<forall>c \<in> set cs. pattern_fits (pc_packet_count c) (pc_pattern c)"
  shows "\<exists>ws rs lines. ws ! 0 = v \<and> case_runs sh disk dir args k cs ws rs
     \<and> for_io (zip [k..<k + length cs] cs) (precision_step sh disk dir args) (ls, res, f) v
       = Some (Inr (lines, res @ zip cs rs, f \<or> (\<exists>r \<in> set rs. \<not> fst r)), ws ! length cs)"
  using fit
proof (induction cs arbitrary: k v ls res f)
  case Nil
  show ?case by (intro exI [of _ "[v]"] exI [of _ "[]"] exI [of _ ls]) (simp add: case_runs_def ret_def)
next
  case (Cons c cs)
  obtain ok out w where run: "precision_run_case sh disk dir args c k v = Some (Inr (ok, out), w)"
    using precision_run_case_ends [where sh = sh and c = c and disk = disk and dir = dir and args = args and i = k and v = v, OF ends] Cons.prems by auto
  obtain ls' where step: "precision_step sh disk dir args (k, c) (ls, res, f) v = Some (Inr (ls', res @ [(c, ok, out)], f \<or> \<not> ok), w)"
    by (simp add: precision_step_def bind_io_def run ret_def)
  obtain ws rs lines where ih: "ws ! 0 = w" "case_runs sh disk dir args (Suc k) cs ws rs"
    "for_io (zip [Suc k..<Suc k + length cs] cs) (precision_step sh disk dir args) (ls', res @ [(c, ok, out)], f \<or> \<not> ok) w
       = Some (Inr (lines, (res @ [(c, ok, out)]) @ zip cs rs, (f \<or> \<not> ok) \<or> (\<exists>r \<in> set rs. \<not> fst r)), ws ! length cs)"
    using Cons.IH [where k = "Suc k" and v = w and ls = ls' and res = "res @ [(c, ok, out)]" and f = "f \<or> \<not> ok"] Cons.prems by auto
  have z: "zip [k..<k + length (c # cs)] (c # cs) = (k, c) # zip [Suc k..<Suc k + length cs] cs"
    by (subst upt_conv_Cons) simp_all
  have "for_io (zip [k..<k + length (c # cs)] (c # cs)) (precision_step sh disk dir args) (ls, res, f) v
      = for_io (zip [Suc k..<Suc k + length cs] cs) (precision_step sh disk dir args) (ls', res @ [(c, ok, out)], f \<or> \<not> ok) w"
    unfolding z by (simp add: bind_io_def step)
  with ih(3) case_runs_Cons [OF run ih(2,1)] show ?case
    by (intro exI [of _ "v # ws"] exI [of _ "(ok, out) # rs"] exI [of _ lines]) auto
qed

lemma unknown_cases_Nil: "unknown_cases selected = [] \<longleftrightarrow> set selected \<subseteq> set (map pc_name PRECISION_CASES)"
proof -
  have "set (unknown_cases selected) = set selected - set (map pc_name PRECISION_CASES)" by (auto simp: unknown_cases_def)
  then show ?thesis by (metis Diff_eq_empty_iff set_empty)
qed

lemma selected_cases_known:
  assumes "set selected \<subseteq> set (map pc_name PRECISION_CASES)"
  shows "selected_cases selected \<noteq> []" and "unknown_cases selected = []"
proof -
  show "selected_cases selected \<noteq> []"
  proof (cases selected)
    case Nil
    then show ?thesis by (simp add: selected_cases_def PRECISION_CASES_def)
  next
    case (Cons n ns)
    then obtain c where "c \<in> set PRECISION_CASES" "pc_name c = n" using assms by auto
    then have "c \<in> set (selected_cases selected)" using Cons by (simp add: selected_cases_def)
    then show ?thesis by auto
  qed
  show "unknown_cases selected = []" using assms unfolding unknown_cases_Nil .
qed

text \<open>C18: The run of the precision suite.  If every process ends, a name that is no case ends the suite before anything
  is written or started; otherwise at least one case is selected, and all selected cases are run in the order of
  the table, each once and whatever the result of those before it, the optional report with all results is
  written, and then the suite passes if and only if every process exited with status zero.\<close>

theorem precision_suite_runs_all:
  assumes ends: "\<And>cmd w. sh cmd w \<noteq> None" and cases: "cs = selected_cases (ps_case args)"
  shows "if set (ps_case args) \<subseteq> set (map pc_name PRECISION_CASES)
     then cs \<noteq> [] \<and> (\<exists>ws rs lines. ws ! 0 = v \<and> case_runs sh disk dir args 0 cs ws rs
        \<and> precision_main sh disk dir args v
          = Some (if list_all fst rs then Inr lines else Inl (SystemExit ''one or more replay precision cases failed''),
                  case ps_report args of None \<Rightarrow> ws ! length cs
                  | Some path \<Rightarrow> disk path (Text (report_text (zip cs rs))) (ws ! length cs)))
     else precision_main sh disk dir args v
       = Some (Inl (SystemExit (''unknown case(s): '' @ join '', '' (unknown_cases (ps_case args)))), v)"
proof (cases "set (ps_case args) \<subseteq> set (map pc_name PRECISION_CASES)")
  case False
  then have "unknown_cases (ps_case args) \<noteq> []" unfolding unknown_cases_Nil .
  then show ?thesis unfolding if_not_P [OF False] precision_main_def Let_def by (simp add: raise_def)
next
  case True
  note sel = selected_cases_known [OF True, folded cases]
  have fit: "\<forall>c \<in> set cs. pattern_fits (pc_packet_count c) (pc_pattern c)"
    using cases_fit(1) by (auto simp: cases selected_cases_def)
  obtain ws rs lines where loop: "ws ! 0 = v" "case_runs sh disk dir args 0 cs ws rs"
    "for_io (zip [0..<length cs] cs) (precision_step sh disk dir args) ([], [], False) v
       = Some (Inr (lines, zip cs rs, \<exists>r \<in> set rs. \<not> fst r), ws ! length cs)"
    using precision_loop [where sh = sh and disk = disk and dir = dir and args = args, OF ends fit, where k = 0 and v = v and ls = "[]" and res = "[]" and f = False] by auto
  have all: "(\<exists>r \<in> set rs. \<not> fst r) \<longleftrightarrow> \<not> list_all fst rs" by (simp add: list_all_iff)
  have "\<exists>lines. precision_main sh disk dir args v
          = Some (if list_all fst rs then Inr lines else Inl (SystemExit ''one or more replay precision cases failed''),
                  case ps_report args of None \<Rightarrow> ws ! length cs
                  | Some path \<Rightarrow> disk path (Text (report_text (zip cs rs))) (ws ! length cs))"
    unfolding precision_main_def Let_def cases [symmetric] using sel loop(3) unfolding all
    by (cases "ps_report args"; cases "list_all fst rs") (simp_all add: bind_io_def ret_def raise_def save_def del: append_Cons)
  with sel(1) loop(1,2) show ?thesis unfolding if_P [OF True] by blast
qed

definition demo_precision :: "string list \<Rightarrow> precision_args" where
  "demo_precision cases = \<lparr> ps_tx_port = 0, ps_rx_port = 1, ps_h2c = ''/dev/xdma0_h2c_0'', ps_user = ''/dev/xdma0_user'', ps_work_dir = ''/w'',
     ps_desc_base = 0x4000000, ps_data_base = 0x14000000, ps_desc_stride = 0x2000000, ps_data_stride = 0x10000000, ps_timeout = 90,
     ps_chunk_bytes = 4194304, ps_case = cases, ps_python = ''python3'', ps_report = None \<rparr>"

text \<open>A shell whose first process fails, on a disk that is not looked at.\<close>

definition first_fails :: "nat shell" where
  "first_fails cmd n = Some ((if n = 0 then 1 else 0, []), Suc n)"

lemma precision_suite_runs_all_witness:
  "(\<forall>cmd n. first_fails cmd n \<noteq> None)
   \<and> precision_main first_fails (\<lambda>path c n. n) ''/t'' (demo_precision [''nope'']) 0 = Some (Inl (SystemExit ''unknown case(s): nope''), 0)
   \<and> (\<exists>ws rs lines. ws ! 0 = 0 \<and> case_runs first_fails (\<lambda>path c n. n) ''/t'' (demo_precision []) 0 PRECISION_CASES ws rs
        \<and> precision_main first_fails (\<lambda>path c n. n) ''/t'' (demo_precision []) 0
          = Some (if list_all fst rs then Inr lines else Inl (SystemExit ''one or more replay precision cases failed''),
                  ws ! length PRECISION_CASES))"
proof (intro conjI)
  have ends: "\<And>cmd n. first_fails cmd n \<noteq> None" by (simp add: first_fails_def)
  then show "\<forall>cmd n. first_fails cmd n \<noteq> None" by blast
  note runs = precision_suite_runs_all [where sh = first_fails and disk = "\<lambda>path c n. n" and v = 0 and dir = "''/t''", OF ends refl]
  have cs: "ps_case (demo_precision cs) = cs" "ps_report (demo_precision cs) = None" for cs by (simp_all add: demo_precision_def)
  have "\<not> set [''nope''] \<subseteq> set (map pc_name PRECISION_CASES)" and u: "unknown_cases [''nope''] = [''nope'']"
    by (simp_all add: PRECISION_CASES_def unknown_cases_def)
  from runs [of "demo_precision [''nope'']", unfolded cs if_not_P [OF this(1)] u]
  show "precision_main first_fails (\<lambda>path c n. n) ''/t'' (demo_precision [''nope'']) 0 = Some (Inl (SystemExit ''unknown case(s): nope''), 0)"
    by simp
  have "selected_cases [] = PRECISION_CASES" by (simp add: selected_cases_def)
  with runs [of "demo_precision []"]
  show "\<exists>ws rs lines. ws ! 0 = 0 \<and> case_runs first_fails (\<lambda>path c n. n) ''/t'' (demo_precision []) 0 PRECISION_CASES ws rs
        \<and> precision_main first_fails (\<lambda>path c n. n) ''/t'' (demo_precision []) 0
          = Some (if list_all fst rs then Inr lines else Inl (SystemExit ''one or more replay precision cases failed''),
                  ws ! length PRECISION_CASES)"
    by (simp add: cs)
qed

end
