(* ===== verification/Spec2Isabelle.thy ===== *)
theory Spec2Isabelle
  imports Prelude TraceFormat PyFloat PyText Pcap2Trace SynthTrace PatternTrace SynthPcap TraceToStream StreamStripe PyOs XdmaIo AxiLiteRegs Card LoadTrace PreloadRun StreamRing RingSafety RingRun RxCore RegCli RxCli Device LoopbackVerify IntervalCheck TickReplay DdrCheck PrecisionCheck ValidationSuite PrecisionSuite Pipeline
begin

text \<open>
  Tick Replayer: the host software of an FPGA traffic replayer, verified.

  \<^bold>\<open>The program.\<close>  The Python tools under src/software turn a packet capture into a descriptor/data trace (one
  64-byte descriptor and one padded frame per packet), turn a trace into a stream of records, copy either into the
  DDR memory of an FPGA card over PCIe DMA, program the register block of a transmit port, start the replay, and
  read counters and sample rings back to judge it.  A front end and two suites start the other tools as processes.
  The tools share the trace format, the register map and the device files; they have no other interface.

  \<^bold>\<open>How Python is modelled.\<close>  Integers are unbounded, bytes are 8-bit words, strings are lists of 8-bit characters.
  Every exception is a value of \<open>py_error\<close>; pure code returns \<open>py_error + 'a\<close> (\<open>res\<close>), code with effects maps the
  world to a result and a new world, or to \<open>None\<close> when it does not return (\<open>io\<close>); its loops are
  \<open>partial_function\<close>s, so that a loop that never ends is \<open>None\<close>, and every theorem that says a tool returns says
  that this value is not \<open>None\<close>.  Floats are exact rationals rounded by \<open>fl\<close> to 53 bits after every operation, with
  the conversions and divisions that overflow as exceptions.  Arguments are the records that argparse
  would return (defaults as in the source); the one command line parser that is modelled is that of
  xdma_load_trace.  Printed output is the value returned; lines printed before an exception are left out.

  \<^bold>\<open>Offline tools.\<close>
  Prelude: exceptions, bytes, struct codes, text of integers, and the contracts \<open>fixed_codec\<close> (a table of fixed-size
  records) and \<open>record_loop\<close> (a file read record by record), interpreted for the descriptor table, the capture file
  and the stream file.
  TraceFormat: descriptor, padding, the writer and reader of a trace; contract \<open>trace_writer\<close> (what the loop of any
  generator writes), interpreted for gen_synthetic_trace and the three pattern generators.
  PyFloat: binary64 rounding, true division, round half to even.
  PyText: strip, split, join, int(value, 0), names of files.
  Pcap2Trace: pcap2trace.py; the round trip with the capture format, the absence of drift in the gaps, truncated files.
  SynthTrace: gen_synthetic_trace.py; the round trip and exact pacing.
  PatternTrace: make_frame and the generators of preload_stress_test, preload_mixed_test, replay_precision_suite; what
  they write, that they agree, and the text of patterns.
  SynthPcap: gen_synthetic_pcap.py; checksums and lengths of its packets, and its capture read by pcap2trace.
  TraceToStream: trace_to_stream.py and the stream of a trace.
  StreamStripe: stream_stripe.py over a file system map; the blocks put together are the stream.

  \<^bold>\<open>The card.\<close>
  PyOs: effects, loops, the device calls of the operating system as a parameter (\<open>os\<close>), and the Hoare triples
  \<open>spec\<close> (the command returns) and \<open>pspec\<close>.
  XdmaIo: register access and DMA loops of all tools; a file read of any size with the errors Python raises
  (\<open>read_size_ok\<close> are the sizes it accepts), completion of transfers for every chunk size, the stable 64-bit read
  (the value it returns and the bound on its retries), and what the unstable one may return.
  AxiLiteRegs: the transmit register block (rtl/axi_lite_regs.sv), one step per access.
  RxCore: the register side of the receive core (rtl/rx_capture_bd_core.sv), with the state a clear or a disable
  resets (STATUS and DEBUG words included) and the sample memories, which keep old contents; contract
  \<open>sample_ring\<close>, interpreted for the gap ring and the event ring.
  Card: memory, register blocks and the ring reader of each port.  Two ghost fields, which no operation reads, record
  the control pulses in order and, for each start, the memory and the configurations at that moment: with them
  a theorem can say that a tool starts a port after it has loaded and configured the card.  Contract \<open>replay_card\<close>: between two accesses the
  readers may advance arbitrarily, a DMA write moves some of its bytes, status values are arbitrary; \<open>timed_card\<close>
  adds that every access takes at least a nanosecond.  Both are interpreted on \<open>board_os\<close>, whose hardware
  behaviour is a parameter.
  Device: the weaker contract \<open>live_device\<close>, which says nothing of the values read: the measuring tools end on any
  such device.

  \<^bold>\<open>Hardware tools.\<close>
  LoadTrace: xdma_load_trace.py; what the card holds at the moment it is started and at the end, and refused files.
  PreloadRun: preload_stress_test.py and preload_mixed_test.py; one case on the card, what the card holds when it is
  started, and that a failed port is stopped.
  StreamRing, RingSafety, RingRun: xdma_stream_ring.py; the loader, the ring invariant between its committed count and
  the reader's position, and its composition: the reader sees a prefix of the file, a completed run the whole file,
  and how the two-part read of the read count can fail a healthy run.
  RegCli, RxCli: traffic_replay_cli.py; displays, control commands, the synchronised start (every chosen port has its
  target before the first is started), and the receive commands against the receive core.
  LoopbackVerify, IntervalCheck, PrecisionCheck: loopback_rx_verify.py, rx_trace_interval_check.py,
  preload_precision_check.py and preload_rx_precision_check.py; exactly when each passes,
  by the values its own run on the hardware returned.
  DdrCheck: ddr_readback_check.py on a memory with arbitrary faults (contract \<open>ddr_device\<close>).

  \<^bold>\<open>Tools that start tools.\<close>
  TickReplay: tick_replay.py, the command lines of every command, and the composition of the load command: the words
  it writes, read by the parser of xdma_load_trace, program the card.
  ValidationSuite: hw_validation_suite.py as a list of steps; it stops at the first failure, and each file
  a step reads is written by an earlier one.
  PrecisionSuite: replay_precision_suite.py; it runs every selected case, and the interval check reads back the
  pattern of the case from the files.

  \<^bold>\<open>End to end.\<close>
  Pipeline: pcap2trace.py, trace_to_stream.py and xdma_stream_ring.py in a row, each finding the files of the one before
  by its manifest; the packets of a capture reach the reader on the card with the gaps of the capture.

  \<^bold>\<open>Bounds.\<close>  There is no fuel, except for the printing of a float, whose search
  (1400 digits) covers every binary64 number.  The ring theorems hold for files below 4 GiB, the bound below which the
  two halves of the read count cannot tear; RingRun proves that above it any crossing of 4 GiB between the two reads
  aborts a healthy replay.  Traces have fewer than 2^32 beats, as
  the descriptor's offset field demands.  The receive commands are stated for a core at rest, which is
  how the tools use it.  Tick rates are below the range of floats.

  \<^bold>\<open>Not modelled.\<close>  stream_stress_test.py and dual_port_preload_test.py (test drivers built from the parts above);
  the C++ stream loader and DMA benchmark (threads, io_uring); the replay datapath, MAC and DDR controllers in
  SystemVerilog beyond the registers and the ring reader; the ping-pong variant of the reader and its prefetching;
  draw_system_architecture.py (a picture); Tcl scripts, constraints and archived reports.  Of the modelled tools:
  argparse apart from xdma_load_trace, the text of JSON and CSV files, opening and closing the device files, the
  wording of the printed reports, and running out of memory or disk space.
\<close>

end
